(* ===== verification/Prelude.thy ===== *)
theory Prelude
  imports Main "HOL-Library.Word"
begin

text \<open>
  Shared vocabulary of the development: the byte types of the two layers of the program
  (\<open>bytes\<close> is the \<open>std::vector<uint8_t>\<close> of \<open>src/src/airplay_crypto.h\<close>, \<open>string\<close> the
  \<open>std::string\<close> byte buffers of \<open>src/src/raop_sender.cpp\<close>), big- and little-endian byte
  splitting of machine words, the lemma collections the component theories feed, and the
  interface \<open>codec\<close> that every writer/reader pair of the program implements.
\<close>

unbundle bit_operations_syntax

type_synonym byte = "8 word"
type_synonym bytes = "byte list"

named_theorems wire_length \<open>lengths of encoded wire data\<close>
named_theorems wire_read \<open>reading back encoded wire data\<close>

section \<open>Lists\<close>

lemma nth_append_here [simp]: "(xs @ y # ys) ! length xs = y"
  by simp

lemma take_drop_middle [simp]:
  "take (length ys) (drop (length xs) (xs @ ys @ zs)) = ys"
  by simp

lemma take_drop_middle':
  "i = length xs \<Longrightarrow> n = length ys \<Longrightarrow> take n (drop i (xs @ ys @ zs)) = ys"
  by simp

lemma length_concat_map_const:
  "(\<And>x. x \<in> set xs \<Longrightarrow> length (f x) = n) \<Longrightarrow> length (concat (map f xs)) = n * length xs"
  by (induction xs) auto

section \<open>Bytes and words\<close>

lemma unat_word_bound: "unat (w :: 'a::len word) < 2 ^ LENGTH('a)"
  by (rule unsigned_less)

lemma unat_word_of_nat: "n < 2 ^ LENGTH('a) \<Longrightarrow> unat (of_nat n :: 'a::len word) = n"
  by (simp add: unat_of_nat take_bit_nat_eq_self)

lemma unat_byte_bound [simp]: "unat (b :: byte) < 256"
  using unsigned_less [of b] by simp

lemma unat_byte_le [simp]: "unat (b :: byte) \<le> 255"
  using unat_byte_bound [of b] by linarith

lemma unat_of_nat_byte [simp]: "n < 256 \<Longrightarrow> unat (of_nat n :: byte) = n"
  by (simp add: unat_of_nat take_bit_eq_mod)

text \<open>
  \<open>be_bytes n w\<close> are the low \<open>n\<close> bytes of \<open>w\<close>, most significant first: what the
  loops \<open>for (s = n-1; s >= 0; --s) push_back(uint8_t((v >> (8*s)) & 0xFF))\<close> emit.
  \<open>le_bytes\<close> is the same with the least significant byte first.
\<close>

fun be_bytes :: "nat \<Rightarrow> 'a::len word \<Rightarrow> bytes" where
  "be_bytes 0 w = []"
| "be_bytes (Suc n) w = ucast (drop_bit (8 * n) w) # be_bytes n w"

definition le_bytes :: "nat \<Rightarrow> 'a::len word \<Rightarrow> bytes" where
  "le_bytes n w = map (\<lambda>i. ucast (drop_bit (8 * i) w)) [0..<n]"

lemma length_be_bytes [simp, wire_length]: "length (be_bytes n w) = n"
  by (induction n) auto

lemma length_le_bytes [simp, wire_length]: "length (le_bytes n w) = n"
  by (simp add: le_bytes_def)

lemma be_bytes_nth: "i < n \<Longrightarrow> be_bytes n w ! i = ucast (drop_bit (8 * (n - 1 - i)) w)"
  by (induction n arbitrary: i) (auto simp: nth_Cons split: nat.splits)

lemma be_bytes_rev: "be_bytes n w = rev (le_bytes n w)"
  by (induction n) (auto simp: le_bytes_def)

text \<open>
  The accumulator of a big-endian read, \<open>v = (v << 8) | byte\<close>, on a 64-bit unsigned
  integer: bits shifted out at the top are lost, as in the code.
\<close>

definition be_step :: "64 word \<Rightarrow> byte \<Rightarrow> 64 word" where
  "be_step v b = push_bit 8 v OR ucast b"

definition be_val :: "bytes \<Rightarrow> 64 word" where
  "be_val bs = foldl be_step 0 bs"

lemma be_step_take_bit:
  fixes w :: "64 word"
  shows "be_step (take_bit m (drop_bit 8 w)) (ucast w) = take_bit (m + 8) w"
  by (rule bit_word_eqI) (auto simp: be_step_def bit_simps)

lemma foldl_be_step_be_bytes:
  fixes w :: "64 word"
  shows "foldl be_step (take_bit m (drop_bit (8 * n) w)) (be_bytes n w) = take_bit (m + 8 * n) w"
proof (induction n arbitrary: m)
  case 0
  then show ?case by simp
next
  case (Suc n)
  have "be_step (take_bit m (drop_bit (8 * Suc n) w)) (ucast (drop_bit (8 * n) w))
      = take_bit (m + 8) (drop_bit (8 * n) w)"
    using be_step_take_bit [of m "drop_bit (8 * n) w"] by (simp add: drop_bit_drop_bit ac_simps)
  with Suc.IH [of "m + 8"] show ?case by (simp add: algebra_simps)
qed

lemma be_val_be_bytes [wire_read]: "be_val (be_bytes n w) = take_bit (8 * n) (w :: 64 word)"
  using foldl_be_step_be_bytes [of 0 n w] by (simp add: be_val_def)

lemma be_val_be_bytes_8 [simp]: "be_val (be_bytes 8 w) = (w :: 64 word)"
  by (simp add: be_val_be_bytes take_bit_word_eq_self)

lemma be_bytes_8_inject: "be_bytes 8 (v :: 64 word) = be_bytes 8 w \<longleftrightarrow> v = w"
  by (metis be_val_be_bytes_8)

lemma le_bytes_8_inject: "le_bytes 8 (v :: 64 word) = le_bytes 8 w \<longleftrightarrow> v = w"
  by (metis be_bytes_8_inject be_bytes_rev rev_is_rev_conv)

lemma take_bit_small_word:
  "unat w < 2 ^ n \<Longrightarrow> take_bit n w = (w :: 'a::len word)"
  by (simp add: unsigned_take_bit_eq take_bit_nat_eq_self word_unat_eq_iff)

lemma unat_shr: "unat (drop_bit n (w :: 'a::len word)) = unat w div 2 ^ n"
proof -
  have "unat (drop_bit n w) = drop_bit n (unat w)" by (rule unat_drop_bit_eq)
  then show ?thesis by (simp add: drop_bit_eq_div)
qed

lemma unat_low_bits: "unat (take_bit n (w :: 'a::len word)) = unat w mod 2 ^ n"
proof -
  have "unat (take_bit n w) = take_bit n (unat w)" by (rule unsigned_take_bit_eq)
  then show ?thesis by (simp add: take_bit_eq_mod)
qed

lemma and_0F_take_bit: "(x :: byte) AND 0x0F = take_bit 4 x"
  by (rule bit_word_eqI) (auto simp: bit_simps numeral_eq_Suc less_Suc_eq)

lemma unat_and_0F: "unat ((x :: byte) AND 0x0F) = unat x mod 16"
  using unat_low_bits [of 4 x] by (simp only: and_0F_take_bit) simp

lemma or_shift_add:
  fixes h l :: int
  assumes "0 \<le> l" and "l < 2 ^ n"
  shows "push_bit n h OR l = h * 2 ^ n + l"
proof -
  have "push_bit n h OR l = concat_bit n l h"
    using assms by (simp add: concat_bit_def take_bit_int_eq_self or.commute)
  also have "\<dots> = l + push_bit n h"
    using assms by (simp add: concat_bit_eq take_bit_int_eq_self)
  finally show ?thesis by (simp add: push_bit_eq_mult)
qed

section \<open>Interfaces\<close>

text \<open>
  A writer/reader pair: on every \<open>valid\<close> value the reader gives back what was written.
  What follows from that alone is proved here once: the written form determines the value,
  and any text accepted by the reader as another value was not written from this one.
\<close>

locale codec =
  fixes enc :: "'a \<Rightarrow> 'b"
    and dec :: "'b \<Rightarrow> 'a option"
    and valid :: "'a \<Rightarrow> bool"
  assumes dec_enc: "valid x \<Longrightarrow> dec (enc x) = Some x"
begin

lemma enc_inject: "valid x \<Longrightarrow> valid y \<Longrightarrow> enc x = enc y \<longleftrightarrow> x = y"
  by (metis dec_enc option.inject)

lemma enc_inj_on: "inj_on enc {x. valid x}"
  by (rule inj_onI) (simp add: enc_inject)

lemma dec_rejects_not_written: "dec b \<noteq> Some x \<Longrightarrow> valid x \<Longrightarrow> enc x \<noteq> b"
  by (metis dec_enc)

end

text \<open>
  A bounded queue moved in blocks: a push is refused exactly when the block does not fit, a
  pop exactly when fewer elements are there, and a refused operation changes nothing.
\<close>

datatype 'a fifo_op = Push "'a list" | Pop nat

fun fifo_run :: "('q \<Rightarrow> 'a list \<Rightarrow> 'q option) \<Rightarrow> ('q \<Rightarrow> nat \<Rightarrow> ('a list \<times> 'q) option) \<Rightarrow>
    'q \<Rightarrow> 'a fifo_op list \<Rightarrow> 'a list \<times> 'a list \<times> 'q" where
  "fifo_run push pop q [] = ([], [], q)"
| "fifo_run push pop q (Push xs # ops) =
     (case push q xs of
        None \<Rightarrow> fifo_run push pop q ops
      | Some q' \<Rightarrow> (let (ins, outs, q'') = fifo_run push pop q' ops in (xs @ ins, outs, q'')))"
| "fifo_run push pop q (Pop n # ops) =
     (case pop q n of
        None \<Rightarrow> fifo_run push pop q ops
      | Some (xs, q') \<Rightarrow> (let (ins, outs, q'') = fifo_run push pop q' ops in (ins, xs @ outs, q'')))"

locale bounded_fifo =
  fixes push :: "'q \<Rightarrow> 'a list \<Rightarrow> 'q option"
    and pop :: "'q \<Rightarrow> nat \<Rightarrow> ('a list \<times> 'q) option"
    and contents :: "'q \<Rightarrow> 'a list"
    and cap :: "'q \<Rightarrow> nat"
    and inv :: "'q \<Rightarrow> bool"
  assumes contents_cap: "inv q \<Longrightarrow> length (contents q) \<le> cap q"
    and push_refused: "inv q \<Longrightarrow> push q xs = None \<longleftrightarrow> cap q < length (contents q) + length xs"
    and push_done: "inv q \<Longrightarrow> push q xs = Some q' \<Longrightarrow>
      inv q' \<and> cap q' = cap q \<and> contents q' = contents q @ xs"
    and pop_refused: "inv q \<Longrightarrow> pop q n = None \<longleftrightarrow> length (contents q) < n"
    and pop_done: "inv q \<Longrightarrow> pop q n = Some (xs, q') \<Longrightarrow>
      inv q' \<and> cap q' = cap q \<and> xs = take n (contents q) \<and> contents q' = drop n (contents q)"
begin

lemma pop_available:
  assumes "inv q" and "n \<le> length (contents q)"
  shows "\<exists>q'. pop q n = Some (take n (contents q), q') \<and> inv q' \<and> contents q' = drop n (contents q)"
proof -
  obtain xs q' where "pop q n = Some (xs, q')"
    using pop_refused [OF assms(1), of n] assms(2) by fastforce
  with pop_done [OF assms(1) this] show ?thesis by blast
qed

lemma run_conserves:
  assumes "inv q" and "fifo_run push pop q ops = (ins, outs, q')"
  shows "contents q @ ins = outs @ contents q' \<and> inv q' \<and> cap q' = cap q"
  using assms
proof (induction ops arbitrary: q ins outs)
  case Nil
  then show ?case by simp
next
  case (Cons a ops)
  show ?case
  proof (cases a)
    case (Push xs)
    show ?thesis
    proof (cases "push q xs")
      case None
      with Cons Push show ?thesis by simp
    next
      case (Some q1)
      obtain i1 o1 q2 where r: "fifo_run push pop q1 ops = (i1, o1, q2)" by (metis prod_cases3)
      with Some Cons.prems(2) Push have "ins = xs @ i1" "outs = o1" "q2 = q'" by auto
      with push_done [OF Cons.prems(1) Some] Cons.IH [of q1 i1 o1] r show ?thesis by auto
    qed
  next
    case (Pop n)
    show ?thesis
    proof (cases "pop q n")
      case None
      with Cons Pop show ?thesis by simp
    next
      case (Some p)
      obtain xs q1 where p: "p = (xs, q1)" by fastforce
      obtain i1 o1 q2 where r: "fifo_run push pop q1 ops = (i1, o1, q2)" by (metis prod_cases3)
      with Some p Cons.prems(2) Pop have "ins = i1" "outs = xs @ o1" "q2 = q'" by auto
      moreover have "xs @ contents q1 = contents q"
        using pop_done [OF Cons.prems(1)] Some p by (metis append_take_drop_id)
      ultimately show ?thesis
        using pop_done [OF Cons.prems(1)] Some p Cons.IH [of q1 i1 o1] r by (metis append.assoc)
    qed
  qed
qed

end

end
