(* ===== verification/Tlv8.thy ===== *)
theory Tlv8
  imports Prelude
begin

text \<open>
  HomeKit TLV8 (namespace \<open>airplay::tlv\<close> of \<open>src/src/airplay_crypto.h\<close> and
  \<open>airplay_crypto.cpp\<close>): records of a tag byte, a length byte and at most 255 value bytes;
  longer values are cut into consecutive records of one tag and joined again by the reader.
  The theorems: reading what was written gives the records with neighbours of equal tag
  merged, so the identity where no two neighbours share a tag; what a reader keeps is bounded
  by the input it was given.
\<close>

datatype tlv_type = Method | Identifier | Salt | PublicKey | Proof | EncryptedData | State
  | Error | Signature | Permissions | Name | Flags

fun tlv_tag :: "tlv_type \<Rightarrow> byte" where
  "tlv_tag Method = 0x00"
| "tlv_tag Identifier = 0x01"
| "tlv_tag Salt = 0x02"
| "tlv_tag PublicKey = 0x03"
| "tlv_tag Proof = 0x04"
| "tlv_tag EncryptedData = 0x05"
| "tlv_tag State = 0x06"
| "tlv_tag Error = 0x07"
| "tlv_tag Signature = 0x0A"
| "tlv_tag Permissions = 0x0B"
| "tlv_tag Name = 0x11"
| "tlv_tag Flags = 0x13"

type_synonym tlv_map = "(byte \<times> bytes) list"

section \<open>Writing\<close>

text \<open>The \<open>do ... while (pos < value.size())\<close> loop: at least one record, then more while bytes are left.\<close>

function tlv_frag :: "byte \<Rightarrow> bytes \<Rightarrow> bytes" where
  "tlv_frag tag val =
     (let chunk = min 255 (length val)
      in tag # of_nat chunk # take chunk val @
         (if chunk < length val then tlv_frag tag (drop chunk val) else []))"
  by pat_completeness auto
termination
  by (relation "measure (\<lambda>(tag, val). length val)") (auto simp: min_def)

declare tlv_frag.simps [simp del]

definition tlv_encode :: "tlv_map \<Rightarrow> bytes" where
  "tlv_encode items = concat (map (\<lambda>(tag, val). tlv_frag tag val) items)"

section \<open>Reading\<close>

text \<open>
  \<open>tlv_push\<close> is the body of the reader's loop: a record whose tag is that of the last one
  kept extends it, any other record is appended.
\<close>

definition tlv_push :: "tlv_map \<Rightarrow> byte \<Rightarrow> bytes \<Rightarrow> tlv_map" where
  "tlv_push out tag chunk =
     (if out \<noteq> [] \<and> fst (last out) = tag
      then butlast out @ [(tag, snd (last out) @ chunk)]
      else out @ [(tag, chunk)])"

function tlv_loop :: "bytes \<Rightarrow> nat \<Rightarrow> tlv_map \<Rightarrow> tlv_map" where
  "tlv_loop data i out =
     (if i + 2 \<le> length data then
        let tag = data ! i; len = unat (data ! (i + 1)) in
        if i + 2 + len > length data then out
        else tlv_loop data (i + 2 + len) (tlv_push out tag (take len (drop (i + 2) data)))
      else out)"
  by pat_completeness auto
termination
  by (relation "measure (\<lambda>(data, i, out). length data - i)") auto

declare tlv_loop.simps [simp del]

definition tlv_decode :: "bytes \<Rightarrow> tlv_map" where
  "tlv_decode data = tlv_loop data 0 []"

fun tlv_get :: "tlv_map \<Rightarrow> byte \<Rightarrow> bytes option" where
  "tlv_get [] tag = None"
| "tlv_get ((t, v) # m) tag = (if t = tag then Some v else tlv_get m tag)"

lemma tlv_get_map_of: "tlv_get m tag = map_of m tag"
  by (induction m tag rule: tlv_get.induct) auto

section \<open>Merging neighbours\<close>

lemma tlv_push_ne [simp]: "tlv_push out tag chunk \<noteq> []"
  by (simp add: tlv_push_def)

lemma last_tlv_push [simp]:
  "last (tlv_push out tag chunk) =
     (tag, (if out \<noteq> [] \<and> fst (last out) = tag then snd (last out) else []) @ chunk)"
  by (simp add: tlv_push_def)

lemma tlv_push_push [simp]: "tlv_push (tlv_push out tag a) tag b = tlv_push out tag (a @ b)"
  by (simp add: tlv_push_def)

definition tlv_join :: "tlv_map \<Rightarrow> tlv_map" where
  "tlv_join items = foldl (\<lambda>out (tag, val). tlv_push out tag val) [] items"

lemma foldl_tlv_push_distinct:
  "distinct_adj (map fst items) \<Longrightarrow>
   (out \<noteq> [] \<Longrightarrow> items \<noteq> [] \<Longrightarrow> fst (last out) \<noteq> fst (hd items)) \<Longrightarrow>
   foldl (\<lambda>out (tag, val). tlv_push out tag val) out items = out @ items"
proof (induction items arbitrary: out)
  case Nil
  then show ?case by simp
next
  case (Cons it items)
  obtain t v where it: "it = (t, v)" by fastforce
  have step: "tlv_push out t v = out @ [(t, v)]"
    using Cons.prems(2) it by (auto simp: tlv_push_def)
  have "items \<noteq> [] \<Longrightarrow> t \<noteq> fst (hd items)"
    using Cons.prems(1) it by (cases items) auto
  moreover have "distinct_adj (map fst items)"
    using Cons.prems(1) by (cases items) (auto simp: distinct_adj_Cons)
  ultimately show ?case
    using Cons.IH [of "out @ [(t, v)]"] by (simp add: it step)
qed

lemma tlv_join_distinct: "distinct_adj (map fst items) \<Longrightarrow> tlv_join items = items"
  using foldl_tlv_push_distinct [of items "[]"] by (simp add: tlv_join_def)

section \<open>The reader on written bytes\<close>

lemma tlv_loop_record:
  assumes "length chunk < 256" and "i = length pre"
  shows "tlv_loop (pre @ tag # of_nat (length chunk) # chunk @ rest) i out =
         tlv_loop (pre @ tag # of_nat (length chunk) # chunk @ rest) (i + 2 + length chunk)
           (tlv_push out tag chunk)"
  using assms by (subst tlv_loop.simps) (simp add: nth_append Let_def)

lemma tlv_loop_frag:
  "tlv_loop (pre @ tlv_frag tag val @ rest) (length pre) out =
   tlv_loop (pre @ tlv_frag tag val @ rest) (length pre + length (tlv_frag tag val))
     (tlv_push out tag val)"
proof (induction tag val arbitrary: pre out rule: tlv_frag.induct)
  case (1 tag val)
  define c where "c = min 255 (length val)"
  define hd_rec where "hd_rec = tag # of_nat c # take c val"
  define tl_recs where "tl_recs = (if c < length val then tlv_frag tag (drop c val) else [])"
  have frag: "tlv_frag tag val = hd_rec @ tl_recs"
    by (subst tlv_frag.simps) (simp add: Let_def hd_rec_def tl_recs_def c_def)
  have len: "length hd_rec = 2 + c" by (simp add: hd_rec_def c_def)
  have first: "tlv_loop (pre @ (hd_rec @ tl_recs) @ rest) (length pre) out =
      tlv_loop (pre @ (hd_rec @ tl_recs) @ rest) (length pre + length hd_rec)
        (tlv_push out tag (take c val))"
    using tlv_loop_record [of "take c val" "length pre" pre tag "tl_recs @ rest" out]
    by (simp add: hd_rec_def c_def ac_simps)
  show ?case
  proof (cases "c < length val")
    case True
    have "tlv_loop ((pre @ hd_rec) @ tl_recs @ rest) (length (pre @ hd_rec))
            (tlv_push out tag (take c val)) =
          tlv_loop ((pre @ hd_rec) @ tl_recs @ rest) (length (pre @ hd_rec) + length tl_recs)
            (tlv_push (tlv_push out tag (take c val)) tag (drop c val))"
      using "1.IH" [OF c_def True, of "pre @ hd_rec"] True by (simp add: tl_recs_def)
    with first show ?thesis by (simp add: frag ac_simps)
  next
    case False
    then have "take c val = val" by (simp add: c_def)
    with first False show ?thesis by (simp add: frag tl_recs_def)
  qed
qed

lemma tlv_loop_items:
  "tlv_loop (pre @ tlv_encode items) (length pre) out =
   foldl (\<lambda>out (tag, val). tlv_push out tag val) out items"
proof (induction items arbitrary: pre out)
  case Nil
  then show ?case by (subst tlv_loop.simps) (simp add: tlv_encode_def)
next
  case (Cons it items)
  obtain t v where it: "it = (t, v)" by fastforce
  have "tlv_loop (pre @ tlv_frag t v @ tlv_encode items) (length pre) out =
        tlv_loop ((pre @ tlv_frag t v) @ tlv_encode items) (length (pre @ tlv_frag t v))
          (tlv_push out t v)"
    by (subst tlv_loop_frag) simp
  with Cons.IH [of "pre @ tlv_frag t v"] show ?case by (simp add: it tlv_encode_def)
qed

text \<open>
  C30. Round trip of the TLV8 writer and reader, for every list of records: reading back gives
  the records with neighbours of equal tag merged (this is how fragments of a long value, such
  as the 384-byte SRP public key, come together again).
\<close>

theorem tlv_decode_encode: "tlv_decode (tlv_encode items) = tlv_join items"
  using tlv_loop_items [of "[]" items "[]"] by (simp add: tlv_decode_def tlv_join_def)

lemma tlv_decode_encode_distinct:
  "distinct_adj (map fst items) \<Longrightarrow> tlv_decode (tlv_encode items) = items"
  using tlv_loop_items [of "[]" items "[]"] tlv_join_distinct [of items]
  by (simp add: tlv_decode_def tlv_join_def)

interpretation tlv: codec tlv_encode "\<lambda>b. Some (tlv_decode b)" "\<lambda>m. distinct_adj (map fst m)"
  by unfold_locales (simp add: tlv_decode_encode_distinct)

text \<open>
  Two messages, each without neighbouring records of one tag, are sent as the same bytes
  only if they are the same message: no fragmentation makes two HAP messages collide.
\<close>

theorem tlv_encode_inject:
  assumes "distinct_adj (map fst m)" and "distinct_adj (map fst m')"
  shows "tlv_encode m = tlv_encode m' \<longleftrightarrow> m = m'"
  using assms by (rule tlv.enc_inject)

theorem tlv_encode_inject_witness:
  "tlv_encode [(6, [1]), (0, [0])] \<noteq> tlv_encode [(0, [0]), (6, [1])]"
  using tlv_encode_inject [of "[(6, [1]), (0, [0])]" "[(0, [0]), (6, [1])]"] by simp

section \<open>Bounds\<close>

definition tlv_weight :: "tlv_map \<Rightarrow> nat" where
  "tlv_weight m = (\<Sum>(t, v) \<leftarrow> m. 2 + length v)"

lemma tlv_weight_push: "tlv_weight (tlv_push out tag chunk) \<le> tlv_weight out + 2 + length chunk"
proof (cases "out \<noteq> [] \<and> fst (last out) = tag")
  case True
  then obtain xs v where "out = xs @ [(tag, v)]"
    by (metis append_butlast_last_id prod.collapse)
  then show ?thesis by (simp add: tlv_push_def tlv_weight_def)
next
  case False
  then show ?thesis by (auto simp: tlv_push_def tlv_weight_def)
qed

lemma tlv_loop_weight:
  "i \<le> length data \<Longrightarrow> tlv_weight out \<le> i \<Longrightarrow> tlv_weight (tlv_loop data i out) \<le> length data"
proof (induction data i out rule: tlv_loop.induct)
  case (1 data i out)
  define len where "len = unat (data ! (i + 1))"
  show ?case
  proof (cases "i + 2 \<le> length data \<and> i + 2 + len \<le> length data")
    case True
    have "tlv_weight (tlv_push out (data ! i) (take len (drop (i + 2) data))) \<le> i + 2 + len"
      using tlv_weight_push [of out "data ! i" "take len (drop (i + 2) data)"] "1.prems"
      by simp
    with True "1.IH" [of "data ! i" len] show ?thesis
      by (subst tlv_loop.simps) (simp add: Let_def len_def)
  next
    case False
    with "1.prems" show ?thesis
      by (subst tlv_loop.simps) (auto simp: Let_def len_def)
  qed
qed

text \<open>
  Whatever bytes a receiver sends, the records kept (two bytes of header and the value
  each) never outweigh the input: the reader cannot be made to allocate more than it was sent.
\<close>

theorem tlv_decode_bounded: "tlv_weight (tlv_decode data) \<le> length data"
  unfolding tlv_decode_def by (rule tlv_loop_weight) (simp_all add: tlv_weight_def)

section \<open>Tags\<close>

lemma tlv_tag_inject [simp]: "tlv_tag a = tlv_tag b \<longleftrightarrow> a = b"
  by (cases a; cases b) simp_all

instantiation tlv_type :: linorder
begin

definition less_eq_tlv_type :: "tlv_type \<Rightarrow> tlv_type \<Rightarrow> bool" where
  "less_eq_tlv_type a b \<longleftrightarrow> tlv_tag a \<le> tlv_tag b"

definition less_tlv_type :: "tlv_type \<Rightarrow> tlv_type \<Rightarrow> bool" where
  "less_tlv_type a b \<longleftrightarrow> tlv_tag a < tlv_tag b"

instance
  by standard (auto simp: less_eq_tlv_type_def less_tlv_type_def order.strict_iff_order)

end

end
