(* ===== verification/Text_Util.thy ===== *)
theory Text_Util
  imports Prelude
begin

text \<open>
  The text and byte-buffer helpers of the anonymous namespace of \<open>src/src/raop_sender.cpp\<close>
  (lines 116 to 272). A \<open>std::string\<close> there is a byte buffer: here a \<open>string\<close>, whose
  \<open>char\<close>s are exactly the 256 byte values. \<open>std::string::find\<close> returns an \<open>option\<close>
  (\<open>None\<close> for \<open>npos\<close>), and the parsers that report failure through an \<open>ok\<close> flag
  return an \<open>option\<close> too.
\<close>

section \<open>Bytes and characters\<close>

abbreviation chr :: "nat \<Rightarrow> char" where
  "chr n \<equiv> char_of n"

abbreviation ord :: "char \<Rightarrow> nat" where
  "ord c \<equiv> of_char c"

definition char_byte :: "char \<Rightarrow> byte" where
  "char_byte c = of_nat (ord c)"

definition byte_char :: "byte \<Rightarrow> char" where
  "byte_char b = chr (unat b)"

definition toBytes :: "string \<Rightarrow> bytes" where
  "toBytes s = map char_byte s"

definition toStr :: "bytes \<Rightarrow> string" where
  "toStr b = map byte_char b"

lemma ord_bound [simp]: "ord c < 256"
  by (rule nat_of_char_less_256)

lemma byte_char_char_byte [simp]: "byte_char (char_byte c) = c"
  by (simp add: byte_char_def char_byte_def)

lemma char_byte_byte_char [simp]: "char_byte (byte_char b) = b"
  by (simp add: byte_char_def char_byte_def of_char_of take_bit_eq_mod word_unat_eq_iff)

lemma toStr_toBytes [simp]: "toStr (toBytes s) = s"
  by (simp add: toStr_def toBytes_def comp_def)

lemma toBytes_toStr [simp]: "toBytes (toStr b) = b"
  by (simp add: toStr_def toBytes_def comp_def)

lemma length_toBytes [simp]: "length (toBytes s) = length s"
  by (simp add: toBytes_def)

lemma length_toStr [simp]: "length (toStr b) = length b"
  by (simp add: toStr_def)

lemma toBytes_append [simp]: "toBytes (s @ t) = toBytes s @ toBytes t"
  by (simp add: toBytes_def)

lemma toStr_append [simp]: "toStr (a @ b) = toStr a @ toStr b"
  by (simp add: toStr_def)

lemma toBytes_inject [simp]: "toBytes s = toBytes t \<longleftrightarrow> s = t"
  by (metis toStr_toBytes)

text \<open>The big-endian appenders of the RTP family of packets.\<close>

definition b8 :: "string \<Rightarrow> byte \<Rightarrow> string" where
  "b8 out v = out @ [byte_char v]"

definition be16 :: "string \<Rightarrow> 16 word \<Rightarrow> string" where
  "be16 out v = out @ [byte_char (ucast (drop_bit 8 v)), byte_char (ucast (v AND 0xFF))]"

definition be32 :: "string \<Rightarrow> 32 word \<Rightarrow> string" where
  "be32 out v = out @ [byte_char (ucast (drop_bit 24 v)), byte_char (ucast (drop_bit 16 v AND 0xFF)),
     byte_char (ucast (drop_bit 8 v AND 0xFF)), byte_char (ucast (v AND 0xFF))]"

lemma ucast_and_FF [simp]: "ucast (w AND 0xFF) = (ucast w :: byte)"
  by (rule bit_word_eqI) (auto simp: bit_simps numeral_eq_Suc less_Suc_eq dest: bit_imp_le_length)

lemma toBytes_b8 [simp]: "toBytes (b8 out v) = toBytes out @ [v]"
  by (simp add: b8_def toBytes_def)

lemma toBytes_be16 [simp]: "toBytes (be16 out v) = toBytes out @ be_bytes 2 v"
  by (simp add: be16_def toBytes_def numeral_2_eq_2)

lemma toBytes_be32 [simp]: "toBytes (be32 out v) = toBytes out @ be_bytes 4 v"
  by (simp add: be32_def toBytes_def eval_nat_numeral)

lemma length_be32 [simp, wire_length]: "length (be32 out v) = length out + 4"
  by (simp add: be32_def)

lemma length_be16 [simp, wire_length]: "length (be16 out v) = length out + 2"
  by (simp add: be16_def)

lemma length_b8 [simp, wire_length]: "length (b8 out v) = length out + 1"
  by (simp add: b8_def)

section \<open>Searching and slicing\<close>

text \<open>\<open>s.find(sub)\<close>: the index of the first occurrence.\<close>

fun starts_with :: "string \<Rightarrow> string \<Rightarrow> bool" where
  "starts_with s [] = True"
| "starts_with [] (p # ps) = False"
| "starts_with (c # s) (p # ps) = (c = p \<and> starts_with s ps)"

fun find_str :: "string \<Rightarrow> string \<Rightarrow> nat option" where
  "find_str [] sub = (if sub = [] then Some 0 else None)"
| "find_str (c # s) sub =
     (if starts_with (c # s) sub then Some 0 else map_option Suc (find_str s sub))"

definition find_chr :: "string \<Rightarrow> char \<Rightarrow> nat option" where
  "find_chr s c = find_str s [c]"

lemma starts_with_iff: "starts_with s p \<longleftrightarrow> take (length p) s = p"
  by (induction s p rule: starts_with.induct) auto

lemma starts_with_append [simp]: "starts_with (p @ s) p"
  by (simp add: starts_with_iff)

lemma find_str_Some_length: "find_str s sub = Some i \<Longrightarrow> i + length sub \<le> length s"
proof (induction s arbitrary: i)
  case Nil
  then show ?case by (auto split: if_splits)
next
  case (Cons c s)
  show ?case
  proof (cases "starts_with (c # s) sub")
    case True
    then have "take (length sub) (c # s) = sub" by (simp add: starts_with_iff)
    then have "length sub \<le> length (c # s)"
      by (metis length_take min.cobounded1)
    with True Cons.prems show ?thesis by simp
  next
    case False
    with Cons.prems obtain j where "find_str s sub = Some j" "i = Suc j" by auto
    with Cons.IH [of j] show ?thesis by simp
  qed
qed

lemma find_chr_Some: "find_chr s c = Some i \<longleftrightarrow> i < length s \<and> s ! i = c \<and> c \<notin> set (take i s)"
proof (induction s arbitrary: i)
  case Nil
  then show ?case by (simp add: find_chr_def)
next
  case (Cons d s)
  then show ?case by (cases i) (auto simp: find_chr_def)
qed

lemma find_chr_None: "find_chr s c = None \<longleftrightarrow> c \<notin> set s"
  by (induction s) (auto simp: find_chr_def)

text \<open>\<open>s.substr(pos, n)\<close>.\<close>

definition substr :: "string \<Rightarrow> nat \<Rightarrow> nat \<Rightarrow> string" where
  "substr s pos n = take n (drop pos s)"

section \<open>Trimming, splitting, case\<close>

definition is_ws :: "char \<Rightarrow> bool" where
  "is_ws c \<longleftrightarrow> ord c \<in> {0x20, 0x09, 0x0A, 0x0B, 0x0C, 0x0D}"

definition trimAscii :: "string \<Rightarrow> string" where
  "trimAscii s = rev (dropWhile is_ws (rev (dropWhile is_ws s)))"

function splitOn :: "string \<Rightarrow> char \<Rightarrow> string list" where
  "splitOn s sep =
     (case find_chr s sep of
        None \<Rightarrow> [s]
      | Some p \<Rightarrow> take p s # splitOn (drop (p + 1) s) sep)"
  by pat_completeness auto
termination
  by (relation "measure (\<lambda>(s, sep). length s)") (auto simp: find_chr_Some)

declare splitOn.simps [simp del]

definition lowerAscii :: "string \<Rightarrow> string" where
  "lowerAscii s = map (\<lambda>c. if 0x41 \<le> ord c \<and> ord c \<le> 0x5A then chr (ord c + 0x20) else c) s"

definition upperAscii :: "string \<Rightarrow> string" where
  "upperAscii s = map (\<lambda>c. if 0x61 \<le> ord c \<and> ord c \<le> 0x7A then chr (ord c - 0x20) else c) s"

definition stripCrLf :: "string \<Rightarrow> string" where
  "stripCrLf s = filter (\<lambda>c. \<not> (ord c = 0x0D \<or> ord c = 0x0A)) s"

text \<open>Gluing the pieces with the separator gives the text back, and no piece holds it.\<close>

fun join_with :: "char \<Rightarrow> string list \<Rightarrow> string" where
  "join_with sep [] = []"
| "join_with sep [x] = x"
| "join_with sep (x # y # xs) = x @ sep # join_with sep (y # xs)"

lemma splitOn_ne [simp]: "splitOn s sep \<noteq> []"
  by (subst splitOn.simps) (simp split: option.split)

lemma join_splitOn: "join_with sep (splitOn s sep) = s"
proof (induction s sep rule: splitOn.induct)
  case (1 s sep)
  show ?case
  proof (cases "find_chr s sep")
    case None
    then show ?thesis by (subst splitOn.simps) simp
  next
    case (Some p)
    from Some have p: "p < length s" "s ! p = sep" by (auto simp: find_chr_Some)
    obtain y ys where y: "splitOn (drop (p + 1) s) sep = y # ys"
      using splitOn_ne by (metis list.exhaust)
    with "1.IH" [OF Some] have "join_with sep (take p s # y # ys) = take p s @ sep # drop (p + 1) s"
      by simp
    also have "\<dots> = s" using p by (metis Suc_eq_plus1 id_take_nth_drop)
    finally show ?thesis using y Some by (subst splitOn.simps) simp
  qed
qed

lemma splitOn_no_sep: "x \<in> set (splitOn s sep) \<Longrightarrow> sep \<notin> set x"
proof (induction s sep arbitrary: x rule: splitOn.induct)
  case (1 s sep)
  then show ?case
    by (subst (asm) splitOn.simps) (auto split: option.splits simp: find_chr_None find_chr_Some)
qed

section \<open>Numbers\<close>

definition is_digit :: "char \<Rightarrow> bool" where
  "is_digit c \<longleftrightarrow> 0x30 \<le> ord c \<and> ord c \<le> 0x39"

definition digit_val :: "char \<Rightarrow> int" where
  "digit_val c = int (ord c) - 0x30"

abbreviation max_ll :: int where "max_ll \<equiv> 0x7FFFFFFFFFFFFFFF"

fun parse_digits :: "string \<Rightarrow> int \<Rightarrow> int option" where
  "parse_digits [] v = Some v"
| "parse_digits (c # s) v =
     (if \<not> is_digit c then None
      else if v > (max_ll - digit_val c) div 10 then None
      else parse_digits s (v * 10 + digit_val c))"

definition parseInt :: "string \<Rightarrow> int option" where
  "parseInt s =
     (let neg = (s \<noteq> [] \<and> hd s = CHR ''-'');
          ds = (if s \<noteq> [] \<and> (hd s = CHR ''+'' \<or> hd s = CHR ''-'') then tl s else s)
      in if ds = [] then None
         else map_option (\<lambda>v. if neg then - v else v) (parse_digits ds 0))"

text \<open>
  \<open>int(v)\<close> of a \<open>long long\<close> keeps the low 32 bits, as two's complement: the
  one-argument \<open>toInt\<close> does not check the range, the two-argument one does.
\<close>

definition toInt :: "string \<Rightarrow> int" where
  "toInt s = (case parseInt s of None \<Rightarrow> 0 | Some v \<Rightarrow> signed_take_bit 31 v)"

definition toInt_ok :: "string \<Rightarrow> int option" where
  "toInt_ok s = (case parseInt s of None \<Rightarrow> None
     | Some v \<Rightarrow> if v > 0x7FFFFFFF \<or> v < - 0x7FFFFFFF - 1 then None else Some v)"

definition toUInt :: "string \<Rightarrow> 32 word" where
  "toUInt s = (case parseInt s of None \<Rightarrow> 0
     | Some v \<Rightarrow> if 0 \<le> v \<and> v \<le> 0xFFFFFFFF then word_of_int v else 0)"

fun nat_digits :: "nat \<Rightarrow> string" where
  "nat_digits n = (if n < 10 then [chr (0x30 + n)] else nat_digits (n div 10) @ [chr (0x30 + n mod 10)])"

declare nat_digits.simps [simp del]

text \<open>\<open>std::to_string\<close>.\<close>

definition to_string :: "int \<Rightarrow> string" where
  "to_string i = (if i < 0 then CHR ''-'' # nat_digits (nat (- i)) else nat_digits (nat i))"

fun hex_upper_nat :: "nat \<Rightarrow> string" where
  "hex_upper_nat n = (if n < 16 then [''0123456789ABCDEF'' ! n]
     else hex_upper_nat (n div 16) @ [''0123456789ABCDEF'' ! (n mod 16)])"

declare hex_upper_nat.simps [simp del]

definition hexUpper :: "64 word \<Rightarrow> string" where
  "hexUpper v = hex_upper_nat (unat v)"

type_synonym headers = "string \<rightharpoonup> string"

definition headerValue :: "headers \<Rightarrow> string \<Rightarrow> string \<Rightarrow> string" where
  "headerValue h key def = (case h key of None \<Rightarrow> def | Some v \<Rightarrow> v)"

text \<open>DMAP tag: four characters of code, a 32-bit big-endian length, the payload.\<close>

definition dmapTag :: "string \<Rightarrow> string \<Rightarrow> string" where
  "dmapTag code payload =
     (let n = of_nat (length payload) :: 64 word in
      take 4 code @ [byte_char (ucast (drop_bit 24 n AND 0xFF)), byte_char (ucast (drop_bit 16 n AND 0xFF)),
        byte_char (ucast (drop_bit 8 n AND 0xFF)), byte_char (ucast (n AND 0xFF))] @ payload)"

text \<open>Version-4 UUID text from sixteen random bytes.\<close>

definition hex_lower :: "nat \<Rightarrow> char" where
  "hex_lower n = ''0123456789abcdef'' ! n"

definition uuidV4Lower :: "bytes \<Rightarrow> string" where
  "uuidV4Lower rnd =
     (let b = rnd[6 := (rnd ! 6 AND 0x0F) OR 0x40];
          b = b[8 := (b ! 8 AND 0x3F) OR 0x80]
      in concat (map (\<lambda>i. (if i \<in> {4, 6, 8, 10} then ''-'' else []) @
           [hex_lower (unat (drop_bit 4 (b ! i))), hex_lower (unat (b ! i AND 0x0F))]) [0..<16]))"

section \<open>What the number parsers accept\<close>

definition dec_acc :: "string \<Rightarrow> int \<Rightarrow> int" where
  "dec_acc s v = foldl (\<lambda>v c. v * 10 + digit_val c) v s"

lemma dec_acc_simps [simp]:
  "dec_acc [] v = v" "dec_acc (c # s) v = dec_acc s (v * 10 + digit_val c)"
  "dec_acc (s @ t) v = dec_acc t (dec_acc s v)"
  by (simp_all add: dec_acc_def)

lemma digit_val_bounds: "is_digit c \<Longrightarrow> 0 \<le> digit_val c \<and> digit_val c \<le> 9"
  by (auto simp: is_digit_def digit_val_def)

lemma dec_acc_ge: "\<forall>c \<in> set s. is_digit c \<Longrightarrow> 0 \<le> v \<Longrightarrow> v \<le> dec_acc s v"
proof (induction s arbitrary: v)
  case Nil
  then show ?case by simp
next
  case (Cons c s)
  then have d: "0 \<le> digit_val c" using digit_val_bounds [of c] by simp
  have "v * 10 + digit_val c \<le> dec_acc s (v * 10 + digit_val c)"
    using Cons.IH [of "v * 10 + digit_val c"] Cons.prems d by simp
  with d Cons.prems show ?case by simp
qed

lemma overflow_guard:
  "v > (max_ll - d) div 10 \<longleftrightarrow> v * 10 + d > (max_ll :: int)"
  by linarith

lemma parse_digits_eq:
  "0 \<le> v \<Longrightarrow> v \<le> max_ll \<Longrightarrow>
   parse_digits s v =
     (if (\<forall>c \<in> set s. is_digit c) \<and> dec_acc s v \<le> max_ll then Some (dec_acc s v) else None)"
proof (induction s v rule: parse_digits.induct)
  case (1 v)
  then show ?case by simp
next
  case (2 c s v)
  show ?case
  proof (cases "is_digit c")
    case False
    then show ?thesis by simp
  next
    case True
    define w where "w = v * 10 + digit_val c"
    have w0: "0 \<le> w" using digit_val_bounds [OF True] "2.prems" by (simp add: w_def)
    have guard: "(max_ll - digit_val c) div 10 < v \<longleftrightarrow> max_ll < w"
      unfolding w_def by (rule overflow_guard)
    show ?thesis
    proof (cases "max_ll < w")
      case over: True
      then have "\<forall>c \<in> set s. is_digit c \<Longrightarrow> max_ll < dec_acc s w"
        using dec_acc_ge [of s w] w0 by linarith
      with True over guard show ?thesis by (auto simp: w_def)
    next
      case False
      with "2.IH" True guard w0 show ?thesis by (simp add: w_def not_less)
    qed
  qed
qed

text \<open>
  \<open>parseInt\<close> accepts exactly an optional sign and at least one decimal digit whose value
  fits in a \<open>long long\<close>: the per-digit overflow test rejects no numeral that fits and lets
  none through that does not, so the accumulation never overflows.
\<close>

theorem parseInt_spec:
  "parseInt s =
     (let neg = (s \<noteq> [] \<and> hd s = CHR ''-'');
          ds = (if s \<noteq> [] \<and> (hd s = CHR ''+'' \<or> hd s = CHR ''-'') then tl s else s)
      in if ds \<noteq> [] \<and> list_all is_digit ds \<and> dec_acc ds 0 \<le> max_ll
         then Some (if neg then - dec_acc ds 0 else dec_acc ds 0) else None)"
  by (simp add: list_all_iff parseInt_def parse_digits_eq Let_def)

lemma is_digit_chr [simp]: "d < 10 \<Longrightarrow> is_digit (chr (0x30 + d))"
  by (simp add: is_digit_def of_char_of)

lemma digit_val_chr [simp]: "d < 10 \<Longrightarrow> digit_val (chr (0x30 + d)) = int d"
  by (simp add: digit_val_def of_char_of)

lemma nat_digits_digits: "\<forall>c \<in> set (nat_digits n). is_digit c"
proof (induction n rule: nat_digits.induct)
  case (1 n)
  then show ?case
    by (subst nat_digits.simps) (auto simp del: of_char_of)
qed

lemma nat_digits_ne [simp]: "nat_digits n \<noteq> []"
  by (subst nat_digits.simps) simp

lemma dec_acc_nat_digits: "dec_acc (nat_digits n) 0 = int n"
proof (induction n rule: nat_digits.induct)
  case (1 n)
  show ?case
  proof (cases "n < 10")
    case True
    then show ?thesis by (subst nat_digits.simps) simp
  next
    case False
    with 1 have "dec_acc (nat_digits (n div 10)) 0 = int (n div 10)" by simp
    with False show ?thesis by (subst nat_digits.simps) (simp add: zdiv_int zmod_int)
  qed
qed

lemma hd_nat_digits: "is_digit (hd (nat_digits n))"
  using nat_digits_digits [of n] by (simp add: list.set_sel)

lemma not_digit_sign: "\<not> is_digit (CHR ''+'')" "\<not> is_digit (CHR ''-'')"
  by (simp_all add: is_digit_def)

lemma parseInt_to_string:
  assumes "- max_ll \<le> i" and "i \<le> max_ll"
  shows "parseInt (to_string i) = Some i"
proof (cases "i < 0")
  case True
  then show ?thesis
    using assms nat_digits_digits dec_acc_nat_digits [of "nat (- i)"]
    by (simp add: to_string_def parseInt_def parse_digits_eq)
next
  case False
  have "hd (nat_digits (nat i)) \<noteq> CHR ''+'' \<and> hd (nat_digits (nat i)) \<noteq> CHR ''-''"
    using hd_nat_digits [of "nat i"] not_digit_sign by metis
  with False show ?thesis
    using assms nat_digits_digits dec_acc_nat_digits [of "nat i"]
    by (simp add: to_string_def parseInt_def parse_digits_eq)
qed

text \<open>
  A length or port the sender prints with \<open>std::to_string\<close> is read back by the
  range-checked \<open>toInt\<close> as the same number, over the whole \<open>int\<close> range.
\<close>

theorem toInt_ok_to_string:
  assumes "- 0x80000000 \<le> i" and "i \<le> 0x7FFFFFFF"
  shows "toInt_ok (to_string i) = Some i"
  using assms parseInt_to_string [of i] by (simp add: toInt_ok_def)

theorem toInt_ok_to_string_witness: "toInt_ok (to_string (-352)) = Some (-352)"
  by (rule toInt_ok_to_string) simp_all

text \<open>
  The one-argument \<open>toInt\<close> accepts what the range-checked one refuses and wraps it to 32 bits.
\<close>

lemma toInt_wraps: "toInt ''4294967300'' = 4" and toInt_ok_refuses: "toInt_ok ''4294967300'' = None"
  by code_simp+

section \<open>Characters that end a header line\<close>

definition no_crlf :: "string \<Rightarrow> bool" where
  "no_crlf s \<longleftrightarrow> (\<forall>c \<in> set s. ord c \<noteq> 0x0D \<and> ord c \<noteq> 0x0A)"

lemma no_crlf_simps [simp]:
  "no_crlf []" "no_crlf (c # s) \<longleftrightarrow> ord c \<noteq> 0x0D \<and> ord c \<noteq> 0x0A \<and> no_crlf s"
  "no_crlf (s @ t) \<longleftrightarrow> no_crlf s \<and> no_crlf t"
  by (auto simp: no_crlf_def)

lemma no_crlf_stripCrLf [simp]: "no_crlf (stripCrLf s)"
  by (auto simp: no_crlf_def stripCrLf_def)

lemma stripCrLf_id: "no_crlf s \<Longrightarrow> stripCrLf s = s"
  by (simp add: no_crlf_def stripCrLf_def filter_id_conv)

lemma no_crlf_digits: "\<forall>c \<in> set s. is_digit c \<Longrightarrow> no_crlf s"
  by (auto simp: no_crlf_def is_digit_def)

lemma no_crlf_to_string [simp]: "no_crlf (to_string i)"
  using no_crlf_digits [OF nat_digits_digits] by (simp add: to_string_def)

end
