(* ===== verification/Creds.thy ===== *)
theory Creds
  imports Text_Util
begin

text \<open>
  The stored-pairing blob of \<open>src/src/raop_creds.h\<close>: hexadecimal text and the JSON
  object with the four credential fields, its writer and its order- and
  whitespace-tolerant reader. The cursor of the reader (\<open>JsonCursor\<close>: a text and an index
  that only grows) is the part of the text still to be read. The theorems: the hexadecimal
  reader accepts exactly the hexadecimal texts of even length and inverts the writer; the
  blob reader gives back every credentials value the writer was given, whatever bytes the
  client id holds.
\<close>

record RaopCreds =
  ltsk :: bytes
  ltpk :: bytes
  atvId :: bytes
  clientId :: string

section \<open>Hexadecimal text\<close>

definition raopHexEncode :: "bytes \<Rightarrow> string" where
  "raopHexEncode b = concat (map (\<lambda>x. [hex_lower (unat (drop_bit 4 x)), hex_lower (unat (x AND 0x0F))]) b)"

definition nib :: "char \<Rightarrow> int" where
  "nib c = (let n = int (ord c) in
     if 0x30 \<le> n \<and> n \<le> 0x39 then n - 0x30
     else if 0x61 \<le> n \<and> n \<le> 0x66 then n - 0x61 + 10
     else if 0x41 \<le> n \<and> n \<le> 0x46 then n - 0x41 + 10
     else -1)"

fun hex_pairs :: "string \<Rightarrow> bytes option" where
  "hex_pairs (h # l # s) =
     (if nib h < 0 \<or> nib l < 0 then None
      else map_option ((#) (word_of_int (push_bit 4 (nib h) OR nib l))) (hex_pairs s))"
| "hex_pairs _ = Some []"

definition raopHexDecode :: "string \<Rightarrow> bytes option" where
  "raopHexDecode hex = (if length hex mod 2 \<noteq> 0 then None else hex_pairs hex)"

lemma nibble_cases:
  fixes n :: nat
  assumes "n < 16"
  obtains "n = 0" | "n = 1" | "n = 2" | "n = 3" | "n = 4" | "n = 5" | "n = 6" | "n = 7"
    | "n = 8" | "n = 9" | "n = 10" | "n = 11" | "n = 12" | "n = 13" | "n = 14" | "n = 15"
  using assms by (auto simp: numeral_eq_Suc less_Suc_eq)

lemma nib_hex_lower [simp]: "n < 16 \<Longrightarrow> nib (hex_lower n) = int n"
  by (elim nibble_cases) (simp_all add: hex_lower_def nib_def)

lemma hi_nibble_bound [simp]: "unat (drop_bit 4 (x :: byte)) < 16"
proof -
  have "unat x div 16 < 16" using unat_byte_bound [of x] by linarith
  then show ?thesis by (simp add: unat_shr)
qed

lemma lo_nibble_bound [simp]: "unat (x AND 0x0F :: byte) < 16"
  by (simp only: unat_and_0F)

lemma byte_of_nibbles:
  assumes "0 \<le> h" "h < 16" "0 \<le> l" "l < 16"
  shows "word_of_int (push_bit 4 h OR l) = (word_of_int (h * 16 + l) :: byte)"
    and "unat (word_of_int (push_bit 4 h OR l) :: byte) = nat (h * 16 + l)"
proof -
  show eq: "word_of_int (push_bit 4 h OR l) = (word_of_int (h * 16 + l) :: byte)"
    using or_shift_add [of l 4 h] assms by simp
  have "unat (word_of_int k :: byte) = nat (k mod 256)" for k
    by (simp add: unsigned_of_int take_bit_eq_mod)
  from this [of "h * 16 + l"] show "unat (word_of_int (push_bit 4 h OR l) :: byte) = nat (h * 16 + l)"
    using assms unfolding eq by simp
qed

lemma nibbles_byte:
  "word_of_int (push_bit 4 (int (unat (drop_bit 4 x))) OR int (unat (x AND 0x0F))) = (x :: byte)"
proof -
  have "unat (word_of_int (push_bit 4 (int (unat (drop_bit 4 x))) OR int (unat (x AND 0x0F))) :: byte)
      = nat (int (unat (drop_bit 4 x)) * 16 + int (unat (x AND 0x0F)))"
    by (rule byte_of_nibbles(2))
      (simp_all only: of_nat_0_le_iff of_nat_less_numeral_iff hi_nibble_bound lo_nibble_bound)
  also have "\<dots> = unat x"
  proof -
    have "int (n div 16) * 16 + int (n mod 16) = int n" for n by (simp add: zdiv_int zmod_int)
    from this [of "unat x"] show ?thesis unfolding unat_shr unat_and_0F by simp
  qed
  finally show ?thesis by (simp only: word_unat_eq_iff)
qed

lemma hex_pairs_encode: "hex_pairs (raopHexEncode b) = Some b"
proof (induction b)
  case Nil
  then show ?case by (simp add: raopHexEncode_def)
next
  case (Cons x b)
  then show ?case using nibbles_byte [of x] by (simp add: raopHexEncode_def)
qed

lemma length_raopHexEncode [simp, wire_length]: "length (raopHexEncode b) = 2 * length b"
  by (induction b) (auto simp: raopHexEncode_def)

lemma hex_decode_encode [simp]: "raopHexDecode (raopHexEncode b) = Some b"
  by (simp add: raopHexDecode_def hex_pairs_encode)

interpretation hex: codec raopHexEncode raopHexDecode "\<lambda>_. True"
  by unfold_locales simp

lemma nib_ge: "0 \<le> nib c \<Longrightarrow> nib c < 16"
  by (auto simp: nib_def Let_def split: if_splits)

lemma hex_lower_eq: "n < 16 \<Longrightarrow> hex_lower n = chr (if n < 10 then 0x30 + n else 0x61 + n - 10)"
  by (elim nibble_cases) (simp_all add: hex_lower_def char_of_def bit_0)

lemma hex_lower_nib:
  assumes "0 \<le> nib c"
  shows "[hex_lower (nat (nib c))] = lowerAscii [c]"
proof -
  have "c = chr (ord c)" by simp
  moreover have "hex_lower (nat (nib c)) =
      chr (if 0x41 \<le> ord c \<and> ord c \<le> (0x5A :: nat) then ord c + 0x20 else ord c)"
    using assms by (subst hex_lower_eq) (auto simp: nib_def Let_def nat_diff_distrib nat_add_distrib split: if_splits)
  ultimately show ?thesis by (simp add: lowerAscii_def)
qed

lemma nibble_parts:
  assumes "0 \<le> h" "0 \<le> l" "l < 16"
  shows "nat (h * 16 + l) div 2 ^ 4 = nat h" and "nat (h * 16 + l) mod 16 = nat l"
proof -
  have "(h * 16 + l) div 16 = h" "(h * 16 + l) mod 16 = l" using assms by simp_all
  then show "nat (h * 16 + l) div 2 ^ 4 = nat h" "nat (h * 16 + l) mod 16 = nat l"
    using assms nat_div_distrib [of "h * 16 + l" 16] nat_mod_distrib [of "h * 16 + l" 16] by simp_all
qed

lemma hex_pairs_Some:
  "hex_pairs s = Some b \<Longrightarrow> even (length s) \<Longrightarrow> raopHexEncode b = lowerAscii s"
proof (induction s arbitrary: b rule: hex_pairs.induct)
  case (1 h l s)
  then have hl: "0 \<le> nib h" "0 \<le> nib l" by (auto split: if_splits)
  with "1.prems" obtain b' where b': "hex_pairs s = Some b'"
    and b: "b = word_of_int (push_bit 4 (nib h) OR nib l) # b'" by auto
  let ?x = "word_of_int (push_bit 4 (nib h) OR nib l) :: byte"
  have x: "unat ?x = nat (nib h * 16 + nib l)"
    using hl by (intro byte_of_nibbles(2)) (auto dest: nib_ge)
  have "unat (drop_bit 4 ?x) = nat (nib h)" "unat (?x AND 0x0F) = nat (nib l)"
    using nibble_parts [of "nib h" "nib l"] hl nib_ge [of l] by (simp_all only: unat_shr unat_and_0F x)
  moreover have "raopHexEncode b' = lowerAscii s" using 1 b' hl by auto
  ultimately show ?case
    using hex_lower_nib [OF hl(1)] hex_lower_nib [OF hl(2)] b
    by (simp add: raopHexEncode_def lowerAscii_def)
qed (auto simp: raopHexEncode_def lowerAscii_def)

lemma hex_pairs_None: "hex_pairs s = None \<Longrightarrow> \<exists>c \<in> set s. nib c < 0"
  by (induction s rule: hex_pairs.induct) (auto split: if_splits)

lemma hex_pairs_digits: "hex_pairs s = Some b \<Longrightarrow> even (length s) \<Longrightarrow> \<forall>c \<in> set s. 0 \<le> nib c"
  by (induction s arbitrary: b rule: hex_pairs.induct) (auto split: if_splits)

lemma raopHexDecode_iff:
  "raopHexDecode s = Some b \<longleftrightarrow>
   even (length s) \<and> (\<forall>c \<in> set s. 0 \<le> nib c) \<and> raopHexEncode b = lowerAscii s"
proof (cases "raopHexDecode s")
  case None
  then show ?thesis
    using hex_pairs_None [of s] by (fastforce simp: raopHexDecode_def mod_2_eq_odd split: if_splits)
next
  case (Some b')
  then have "even (length s)" "hex_pairs s = Some b'"
    by (auto simp: raopHexDecode_def mod_2_eq_odd split: if_splits)
  then have "\<forall>c \<in> set s. 0 \<le> nib c" "raopHexEncode b' = lowerAscii s"
    by (auto dest: hex_pairs_digits hex_pairs_Some)
  moreover have "raopHexEncode b = raopHexEncode b' \<longleftrightarrow> b = b'"
    using hex.enc_inject [of b b'] by simp
  ultimately show ?thesis using Some \<open>even (length s)\<close> by auto
qed

text \<open>
  The hexadecimal reader accepts exactly the texts of even length over the hexadecimal
  digits, in either case, and the bytes it returns are those whose lower-case text this is.
\<close>

theorem raopHexDecode_spec:
  "raopHexDecode s = Some b \<longleftrightarrow>
   even (length s) \<and> list_all (\<lambda>c. 0 \<le> nib c) s \<and> raopHexEncode b = lowerAscii s"
  by (simp only: list_all_iff raopHexDecode_iff)

section \<open>The JSON reader\<close>

abbreviation quote :: char where "quote \<equiv> CHR 0x22"
abbreviation backslash :: char where "backslash \<equiv> CHR 0x5C"

definition jsonEscapeChar :: "char \<Rightarrow> string" where
  "jsonEscapeChar c =
     (if c = quote then [backslash, quote]
      else if c = backslash then [backslash, backslash]
      else if c = CHR 0x0A then [backslash, CHR ''n'']
      else if c = CHR 0x0D then [backslash, CHR ''r'']
      else if c = CHR 0x09 then [backslash, CHR ''t'']
      else if ord c < (0x20 :: nat) then
        backslash # ''u00'' @ [hex_lower (ord c div 16), hex_lower (ord c mod 16)]
      else [c])"

definition jsonEscapeInto :: "string \<Rightarrow> string \<Rightarrow> string" where
  "jsonEscapeInto out s = out @ concat (map jsonEscapeChar s)"

definition json_is_ws :: "char \<Rightarrow> bool" where
  "json_is_ws c \<longleftrightarrow> c = CHR 0x20 \<or> c = CHR 0x09 \<or> c = CHR 0x0A \<or> c = CHR 0x0D"

definition json_ws :: "string \<Rightarrow> string" where
  "json_ws s = dropWhile json_is_ws s"

definition json_eat :: "char \<Rightarrow> string \<Rightarrow> string option" where
  "json_eat c s = (case json_ws s of [] \<Rightarrow> None | d # r \<Rightarrow> if d = c then Some r else None)"

text \<open>The four hexadecimal digits after \<open>\u\<close>, and the UTF-8 bytes of the code unit.\<close>

fun json_hex :: "string \<Rightarrow> int \<Rightarrow> int option" where
  "json_hex [] cp = Some cp"
| "json_hex (h # s) cp = (if nib h < 0 then None else json_hex s (push_bit 4 cp OR nib h))"

definition json_utf8 :: "int \<Rightarrow> string" where
  "json_utf8 cp =
     (let ch = (\<lambda>i. chr (nat i)) in
      if cp < 0x80 then [ch cp]
      else if cp < 0x800 then [ch (0xC0 OR drop_bit 6 cp), ch (0x80 OR (cp AND 0x3F))]
      else [ch (0xE0 OR drop_bit 12 cp), ch (0x80 OR (drop_bit 6 cp AND 0x3F)), ch (0x80 OR (cp AND 0x3F))])"

definition json_unescape :: "char \<Rightarrow> char option" where
  "json_unescape e =
     (if e = quote then Some quote
      else if e = backslash then Some backslash
      else if e = CHR ''/'' then Some (CHR ''/'')
      else if e = CHR ''b'' then Some (CHR 0x08)
      else if e = CHR ''f'' then Some (CHR 0x0C)
      else if e = CHR ''n'' then Some (CHR 0x0A)
      else if e = CHR ''r'' then Some (CHR 0x0D)
      else if e = CHR ''t'' then Some (CHR 0x09)
      else None)"

function json_str_body :: "string \<Rightarrow> string \<Rightarrow> (string \<times> string) option" where
  "json_str_body [] out = None"
| "json_str_body (c # s) out =
     (if c = quote then Some (out, s)
      else if c \<noteq> backslash then json_str_body s (out @ [c])
      else case s of
        [] \<Rightarrow> None
      | e # s' \<Rightarrow>
          if e = CHR ''u'' then
            (if length s' < 4 then None
             else case json_hex (take 4 s') 0 of
               None \<Rightarrow> None
             | Some cp \<Rightarrow> json_str_body (drop 4 s') (out @ json_utf8 cp))
          else (case json_unescape e of None \<Rightarrow> None | Some ch \<Rightarrow> json_str_body s' (out @ [ch])))"
  by pat_completeness auto
termination
  by (relation "measure (\<lambda>(s, out). length s)") auto

text \<open>\<open>JsonCursor::str\<close>: the string parsed and the text after its closing quote.\<close>

definition json_str :: "string \<Rightarrow> (string \<times> string) option" where
  "json_str s = (case json_ws s of [] \<Rightarrow> None
     | c # r \<Rightarrow> if c = quote then json_str_body r [] else None)"

fun json_skip_nested :: "string \<Rightarrow> int \<Rightarrow> bool \<Rightarrow> string option" where
  "json_skip_nested [] depth inStr = None"
| "json_skip_nested (c # s) depth inStr =
     (if inStr then
        (if c = backslash then (case s of [] \<Rightarrow> None | _ # s' \<Rightarrow> json_skip_nested s' depth True)
         else json_skip_nested s depth (c \<noteq> quote))
      else if c = quote then json_skip_nested s depth True
      else if c = CHR ''{'' \<or> c = CHR ''['' then json_skip_nested s (depth + 1) False
      else if c = CHR ''}'' \<or> c = CHR '']'' then
        (if depth - 1 = 0 then Some s else json_skip_nested s (depth - 1) False)
      else json_skip_nested s depth False)"

definition json_skip :: "string \<Rightarrow> string option" where
  "json_skip s =
     (case json_ws s of
        [] \<Rightarrow> None
      | c # r \<Rightarrow>
          if c = quote then map_option snd (json_str (c # r))
          else if c = CHR ''{'' \<or> c = CHR ''['' then json_skip_nested (c # r) 0 False
          else Some (dropWhile (\<lambda>d. d \<noteq> CHR '','' \<and> d \<noteq> CHR ''}'' \<and> d \<noteq> CHR '']'') (c # r)))"

subsection \<open>The cursor only moves forward\<close>

named_theorems json_shrinks \<open>what a cursor operation leaves is no longer than what it was given\<close>

lemma json_ws_le [json_shrinks]: "length (json_ws s) \<le> length s"
  by (simp add: json_ws_def length_dropWhile_le)

lemma json_eat_less [json_shrinks]: "json_eat c s = Some r \<Longrightarrow> length r < length s"
  using json_ws_le [of s] by (auto simp: json_eat_def split: list.splits if_splits)

lemma json_str_body_less: "json_str_body s out = Some (v, r) \<Longrightarrow> length r < length s"
proof (induction s out rule: json_str_body.induct)
  case (1 out)
  then show ?case by simp
next
  case (2 c s out)
  show ?case
  proof (cases "c = backslash")
    case False
    then show ?thesis
      using "2.IH"(1) "2.prems" by (cases "c = quote") (simp_all add: less_SucI)
  next
    case True
    then obtain e s' where s: "s = e # s'" using "2.prems" by (cases s) auto
    show ?thesis
    proof (cases "e = CHR ''u''")
      case u: True
      then obtain cp where "\<not> length s' < 4" "json_hex (take 4 s') 0 = Some cp"
        and "json_str_body (drop 4 s') (out @ json_utf8 cp) = Some (v, r)"
        using "2.prems" True s by (auto split: if_splits option.splits)
      with "2.IH"(2) [OF _ _ s u] True have "length r < length (drop 4 s')" by simp
      then show ?thesis by (simp add: s)
    next
      case nu: False
      then obtain ch where "json_unescape e = Some ch" "json_str_body s' (out @ [ch]) = Some (v, r)"
        using "2.prems" True s by (auto split: option.splits)
      with "2.IH"(3) [OF _ _ s nu] True have "length r < length s'" by simp
      then show ?thesis by (simp add: s)
    qed
  qed
qed

lemma json_str_less [json_shrinks]: "json_str s = Some (v, r) \<Longrightarrow> length r < length s"
proof -
  assume *: "json_str s = Some (v, r)"
  then obtain t where w: "json_ws s = quote # t" and "json_str_body t [] = Some (v, r)"
    by (auto simp: json_str_def split: list.splits if_splits)
  then have "length r < length t" by (intro json_str_body_less)
  with json_ws_le [of s] w show ?thesis by simp
qed

lemma json_skip_nested_le: "json_skip_nested s depth inStr = Some r \<Longrightarrow> length r < length s"
proof (induction s arbitrary: depth inStr rule: length_induct)
  case (1 s)
  then obtain c t where s: "s = c # t" by (cases s) auto
  have IH: "length r < Suc (length t)" if "json_skip_nested t d b = Some r" for d b
    using that 1 s by fastforce
  have IH2: "length r < Suc (Suc (length t'))" if "json_skip_nested t' d b = Some r" and "t = x # t'" for t' x d b
  proof -
    have "length t' < length s" using that s by simp
    with "1"(1) that have "length r < length t'" by blast
    with that show ?thesis by simp
  qed
  from 1 have "json_skip_nested (c # t) depth inStr = Some r" by (simp add: s)
  then show ?case
    unfolding s by (auto simp del: json_skip_nested.simps(2) simp: json_skip_nested.simps(2) [of c t]
      split: if_split_asm list.split_asm intro: IH IH2)
qed

lemma json_skip_le [json_shrinks]:
  assumes "json_skip s = Some r"
  shows "length r \<le> length s"
proof -
  obtain c t where w: "json_ws s = c # t"
    using assms by (cases "json_ws s") (auto simp: json_skip_def)
  have le: "length (c # t) \<le> length s" using json_ws_le [of s] w by simp
  from assms w consider v where "json_str (c # t) = Some (v, r)"
    | "json_skip_nested (c # t) 0 False = Some r"
    | "r = dropWhile (\<lambda>d. d \<noteq> CHR '','' \<and> d \<noteq> CHR ''}'' \<and> d \<noteq> CHR '']'') (c # t)"
    by (auto simp: json_skip_def split: if_splits)
  then have "length r \<le> length (c # t)"
  proof cases
    case 1
    then show ?thesis using json_str_less by fastforce
  next
    case 2
    then show ?thesis using json_skip_nested_le by fastforce
  next
    case 3
    then show ?thesis using length_dropWhile_le by blast
  qed
  with le show ?thesis by simp
qed

subsection \<open>Credentials\<close>

definition raopCredsToJson :: "RaopCreds \<Rightarrow> string" where
  "raopCredsToJson c =
     jsonEscapeInto ([CHR ''{'', quote] @ ''atvId'' @ [quote, CHR '':'', quote] @ raopHexEncode (atvId c)
       @ [quote, CHR '','', quote] @ ''clientId'' @ [quote, CHR '':'', quote]) (clientId c)
     @ [quote, CHR '','', quote] @ ''ltpk'' @ [quote, CHR '':'', quote] @ raopHexEncode (ltpk c)
     @ [quote, CHR '','', quote] @ ''ltsk'' @ [quote, CHR '':'', quote] @ raopHexEncode (ltsk c)
     @ [quote, CHR ''}'']"

definition creds_keys :: "string list" where
  "creds_keys = [''ltsk'', ''ltpk'', ''atvId'', ''clientId'']"

text \<open>One round of the reader's loop up to the value: key, colon, value (kept or skipped).\<close>

definition creds_entry :: "string \<Rightarrow> (string \<rightharpoonup> string) \<Rightarrow> (string \<times> (string \<rightharpoonup> string)) option" where
  "creds_entry s found =
     (case json_str s of None \<Rightarrow> None
      | Some (key, s1) \<Rightarrow>
        (case json_eat (CHR '':'') s1 of None \<Rightarrow> None
         | Some s2 \<Rightarrow>
           if key \<in> set creds_keys then
             (case json_str s2 of None \<Rightarrow> None
              | Some (v, s3) \<Rightarrow> Some (s3, found(key \<mapsto> v)))
           else map_option (\<lambda>s3. (s3, found)) (json_skip s2)))"

lemma creds_entry_less: "creds_entry s found = Some (s3, found') \<Longrightarrow> length s3 < length s"
proof -
  assume "creds_entry s found = Some (s3, found')"
  then obtain key s1 s2 where "json_str s = Some (key, s1)" and "json_eat (CHR '':'') s1 = Some s2"
    and "(\<exists>v. json_str s2 = Some (v, s3)) \<or> json_skip s2 = Some s3"
    by (auto simp: creds_entry_def split: option.splits if_splits)
  then show ?thesis
    by (auto dest!: json_str_less json_eat_less json_skip_le)
qed

function creds_loop :: "string \<Rightarrow> (string \<rightharpoonup> string) \<Rightarrow> (string \<rightharpoonup> string) option" where
  "creds_loop s found =
     (case creds_entry s found of
        None \<Rightarrow> None
      | Some (s3, found') \<Rightarrow>
          (case json_eat (CHR '','') s3 of
             Some s4 \<Rightarrow> creds_loop s4 found'
           | None \<Rightarrow> (case json_eat (CHR ''}'') s3 of Some _ \<Rightarrow> Some found' | None \<Rightarrow> None)))"
  by pat_completeness auto
termination
proof (relation "measure (\<lambda>(s, found). length s)", goal_cases)
  case (2 s found p s3 found' s4)
  then show ?case using creds_entry_less json_eat_less by fastforce
qed simp

declare creds_loop.simps [simp del]

definition raopCredsFromJson :: "string \<Rightarrow> RaopCreds option" where
  "raopCredsFromJson json =
     (case json_eat (CHR ''{'') json of
        None \<Rightarrow> None
      | Some s \<Rightarrow>
        (case (case json_eat (CHR ''}'') s of Some _ \<Rightarrow> Some Map.empty | None \<Rightarrow> creds_loop s Map.empty) of
           None \<Rightarrow> None
         | Some f \<Rightarrow>
           (case (f ''ltsk'', f ''ltpk'', f ''atvId'', f ''clientId'') of
              (Some sk, Some pk, Some aid, Some cid) \<Rightarrow>
                (case (raopHexDecode sk, raopHexDecode pk, raopHexDecode aid) of
                   (Some sk', Some pk', Some aid') \<Rightarrow>
                     Some \<lparr>ltsk = sk', ltpk = pk', atvId = aid', clientId = cid\<rparr>
                 | _ \<Rightarrow> None)
            | _ \<Rightarrow> None)))"

subsection \<open>The reader on written blobs\<close>

lemma json_hex_escape:
  assumes "n < (0x20 :: nat)"
  shows "json_hex [CHR ''0'', CHR ''0'', hex_lower (n div 16), hex_lower (n mod 16)] 0 = Some (int n)"
proof -
  have *: "n div 16 < 16" "n mod 16 < 16" "n div 16 < 2" using assms by auto
  have "push_bit 4 (int (n div 16)) OR int (n mod 16) = int (n div 16) * 2 ^ 4 + int (n mod 16)"
    by (rule or_shift_add) auto
  also have "\<dots> = int n" by (simp add: zdiv_int zmod_int)
  finally show ?thesis using * nib_hex_lower [of "n div 16"] nib_hex_lower [of "n mod 16"]
    by (simp add: nib_def)
qed

lemma json_str_body_escape_char:
  "json_str_body (jsonEscapeChar c @ s) out = json_str_body s (out @ [c])"
proof (cases "c \<in> {quote, backslash, CHR 0x0A, CHR 0x0D, CHR 0x09}")
  case True
  then show ?thesis by (auto simp: jsonEscapeChar_def json_unescape_def)
next
  case False
  show ?thesis
  proof (cases "ord c < (0x20 :: nat)")
    case True
    then have "json_utf8 (int (ord c)) = [c]" by (simp add: json_utf8_def)
    with False True show ?thesis
      using json_hex_escape [OF True] by (simp add: jsonEscapeChar_def)
  next
    case ge: False
    with False show ?thesis by (simp add: jsonEscapeChar_def)
  qed
qed

lemma json_str_body_escape:
  "json_str_body (concat (map jsonEscapeChar v) @ quote # s) out = Some (out @ v, s)"
  by (induction v arbitrary: out) (simp_all add: json_str_body_escape_char)

lemma json_str_body_plain:
  "quote \<notin> set v \<Longrightarrow> backslash \<notin> set v \<Longrightarrow> json_str_body (v @ quote # s) out = Some (out @ v, s)"
  by (induction v arbitrary: out) auto

lemma hex_text_plain [simp]: "quote \<notin> set (raopHexEncode b)" "backslash \<notin> set (raopHexEncode b)"
proof -
  have "0 \<le> nib c" if "c \<in> set (raopHexEncode b)" for c
    using that by (auto simp: raopHexEncode_def)
  moreover have "nib quote < 0" "nib backslash < 0" by (simp_all add: nib_def)
  ultimately show "quote \<notin> set (raopHexEncode b)" "backslash \<notin> set (raopHexEncode b)"
    by force+
qed

lemma json_str_quoted:
  "json_str_body r [] = Some (v, s) \<Longrightarrow> json_str (quote # r) = Some (v, s)"
  by (simp add: json_str_def json_ws_def json_is_ws_def)

lemma json_eat_here: "\<not> json_is_ws c \<Longrightarrow> json_eat c (c # s) = Some s"
  by (simp add: json_eat_def json_ws_def)

lemma json_eat_other: "\<not> json_is_ws d \<Longrightarrow> d \<noteq> c \<Longrightarrow> json_eat c (d # s) = None"
  by (simp add: json_eat_def json_ws_def)

lemmas json_punct = json_eat_here [of "CHR '':''"] json_eat_here [of "CHR '',''"]
  json_eat_here [of "CHR ''{''"] json_eat_here [of "CHR ''}''"]
  json_eat_other [of "CHR ''}''" "CHR '',''"] json_eat_other [of quote "CHR ''}''"]

text \<open>One entry of the blob: a known key, a colon, a written value.\<close>

lemma creds_entry_written:
  assumes "key \<in> set creds_keys"
    and "json_str_body val [] = Some (v, s)"
  shows "creds_entry (quote # key @ [quote, CHR '':'', quote] @ val) found = Some (s, found(key \<mapsto> v))"
proof -
  have "quote \<notin> set key" "backslash \<notin> set key"
    using assms(1) by (auto simp: creds_keys_def)
  then have "json_str (quote # key @ quote # CHR '':'' # quote # val) = Some (key, CHR '':'' # quote # val)"
    by (intro json_str_quoted) (simp add: json_str_body_plain)
  moreover have "json_str (quote # val) = Some (v, s)"
    by (rule json_str_quoted) (rule assms(2))
  ultimately show ?thesis
    using assms(1) by (simp add: creds_entry_def json_punct json_is_ws_def)
qed

lemma creds_loop_comma:
  assumes "key \<in> set creds_keys" and "json_str_body val [] = Some (v, CHR '','' # s)"
  shows "creds_loop (quote # key @ [quote, CHR '':'', quote] @ val) found = creds_loop s (found(key \<mapsto> v))"
  using creds_entry_written [OF assms]
  by (subst creds_loop.simps) (simp add: json_punct json_is_ws_def)

lemma creds_loop_last:
  assumes "key \<in> set creds_keys" and "json_str_body val [] = Some (v, CHR ''}'' # s)"
  shows "creds_loop (quote # key @ [quote, CHR '':'', quote] @ val) found = Some (found(key \<mapsto> v))"
  using creds_entry_written [OF assms]
  by (subst creds_loop.simps) (simp add: json_punct json_is_ws_def)

lemmas creds_values = json_str_body_plain [OF hex_text_plain, of _ _ "[]"]
  json_str_body_escape [of _ _ "[]"]

lemma creds_from_to: "raopCredsFromJson (raopCredsToJson c) = Some c"
proof -
  let ?q = "[quote, CHR '':'', quote]"
  let ?sk = "raopHexEncode (ltsk c)" and ?pk = "raopHexEncode (ltpk c)" and ?aid = "raopHexEncode (atvId c)"
  let ?cid = "concat (map jsonEscapeChar (clientId c))"
  define s4 where "s4 = quote # ''ltsk'' @ ?q @ ?sk @ quote # ''}''"
  define s3 where "s3 = quote # ''ltpk'' @ ?q @ ?pk @ quote # CHR '','' # s4"
  define s2 where "s2 = quote # ''clientId'' @ ?q @ ?cid @ quote # CHR '','' # s3"
  define s1 where "s1 = quote # ''atvId'' @ ?q @ ?aid @ quote # CHR '','' # s2"
  have blob: "raopCredsToJson c = CHR ''{'' # s1"
    by (simp add: raopCredsToJson_def jsonEscapeInto_def s1_def s2_def s3_def s4_def)
  have 4: "creds_loop s4 f = Some (f(''ltsk'' \<mapsto> ?sk))" for f
    unfolding s4_def by (rule creds_loop_last) (simp_all add: creds_keys_def creds_values)
  have 3: "creds_loop s3 f = creds_loop s4 (f(''ltpk'' \<mapsto> ?pk))" for f
    unfolding s3_def by (rule creds_loop_comma) (simp_all add: creds_keys_def creds_values)
  have 2: "creds_loop s2 f = creds_loop s3 (f(''clientId'' \<mapsto> clientId c))" for f
    unfolding s2_def by (rule creds_loop_comma) (simp_all add: creds_keys_def creds_values)
  have 1: "creds_loop s1 f = creds_loop s2 (f(''atvId'' \<mapsto> ?aid))" for f
    unfolding s1_def by (rule creds_loop_comma) (simp_all add: creds_keys_def creds_values)
  have "creds_loop s1 Map.empty = Some (Map.empty(''atvId'' \<mapsto> ?aid, ''clientId'' \<mapsto> clientId c,
      ''ltpk'' \<mapsto> ?pk, ''ltsk'' \<mapsto> ?sk))"
    by (simp add: 1 2 3 4)
  moreover have "json_eat (CHR ''}'') s1 = None"
    by (simp add: s1_def json_punct json_is_ws_def)
  ultimately show ?thesis
    by (simp add: raopCredsFromJson_def blob json_punct json_is_ws_def)
qed

interpretation creds: codec raopCredsToJson raopCredsFromJson "\<lambda>_. True"
  by unfold_locales (rule creds_from_to)

text \<open>
  C29. Stored pairings survive the round trip: whatever keys, identifier bytes and client id
  text (control characters, quotes and backslashes included) a first pairing produced, the
  blob handed to the host is read back as exactly those credentials on a later connect.
\<close>

theorem raopCreds_roundtrip: "raopCredsFromJson (raopCredsToJson c) = Some c"
  by (rule creds.dec_enc) simp

end
