(* ===== verification/Ring_Spsc.thy ===== *)
theory Ring_Spsc
  imports Ring_Buffer "HOL-Library.Sublist"
begin

text \<open>
  The ring of \<open>src/src/ring_buffer.h\<close> under its two threads. A push or a pop is cut where
  the other thread can act: the load of the indices (and the size test), each copied element,
  the releasing store. The load of the other side's index is an acquire load of an atomic: it
  may return any value from the one last seen to the current one. The theorems: the consumer
  gets a prefix of what the producer stored, under every interleaving and every staleness, and
  no slot is written while it may be read.
\<close>

datatype 'a producer = PIdle | PCopy "'a list" "64 word" nat
datatype 'a consumer = CIdle | CCopy nat "64 word" "'a list"

record 'a spsc =
  ring :: "'a RingBuffer"
  prod :: "'a producer"
  cons :: "'a consumer"
  pview :: "64 word"  \<comment> \<open>the consumer's index as the producer last saw it\<close>
  cview :: "64 word"  \<comment> \<open>the producer's index as the consumer last saw it\<close>
  pushed :: "'a list"  \<comment> \<open>history: what completed pushes stored\<close>
  popped :: "'a list"  \<comment> \<open>history: what completed pops returned\<close>

definition between :: "64 word \<Rightarrow> 64 word \<Rightarrow> 64 word \<Rightarrow> bool" where
  "between old v new \<longleftrightarrow> unat (v - old) \<le> unat (new - old)"

inductive spsc_step :: "'a spsc \<Rightarrow> 'a spsc \<Rightarrow> bool" where
  p_refuse: "prod s = PIdle \<Longrightarrow> between (pview s) v (ring_read (ring s)) \<Longrightarrow>
     n > unat (capacity (ring s) - (ring_write (ring s) - v)) \<Longrightarrow>
     spsc_step s (s\<lparr>pview := v\<rparr>)"
| p_load: "prod s = PIdle \<Longrightarrow> between (pview s) v (ring_read (ring s)) \<Longrightarrow>
     \<not> length data > unat (capacity (ring s) - (ring_write (ring s) - v)) \<Longrightarrow>
     spsc_step s (s\<lparr>pview := v, prod := PCopy data (ring_write (ring s)) 0\<rparr>)"
| p_copy: "prod s = PCopy data wr j \<Longrightarrow> j < length data \<Longrightarrow>
     spsc_step s (s\<lparr>ring := (ring s)\<lparr>ring_buffer :=
         (ring_buffer (ring s))[unat ((wr + of_nat j) AND ring_mask (ring s)) := data ! j]\<rparr>,
       prod := PCopy data wr (Suc j)\<rparr>)"
| p_store: "prod s = PCopy data wr (length data) \<Longrightarrow>
     spsc_step s (s\<lparr>ring := (ring s)\<lparr>ring_write := wr + of_nat (length data)\<rparr>,
       prod := PIdle, pushed := pushed s @ data\<rparr>)"
| c_refuse: "cons s = CIdle \<Longrightarrow> between (cview s) v (ring_write (ring s)) \<Longrightarrow>
     n > unat (v - ring_read (ring s)) \<Longrightarrow> spsc_step s (s\<lparr>cview := v\<rparr>)"
| c_load: "cons s = CIdle \<Longrightarrow> between (cview s) v (ring_write (ring s)) \<Longrightarrow>
     \<not> n > unat (v - ring_read (ring s)) \<Longrightarrow>
     spsc_step s (s\<lparr>cview := v, cons := CCopy n (ring_read (ring s)) []\<rparr>)"
| c_copy: "cons s = CCopy n rd got \<Longrightarrow> length got < n \<Longrightarrow>
     spsc_step s (s\<lparr>cons := CCopy n rd (got @
       [ring_buffer (ring s) ! unat ((rd + of_nat (length got)) AND ring_mask (ring s))])\<rparr>)"
| c_store: "cons s = CCopy n rd got \<Longrightarrow> length got = n \<Longrightarrow>
     spsc_step s (s\<lparr>ring := (ring s)\<lparr>ring_read := rd + of_nat n\<rparr>,
       cons := CIdle, popped := popped s @ got\<rparr>)"

definition spsc_init :: "'a RingBuffer \<Rightarrow> 'a spsc" where
  "spsc_init r = \<lparr>ring = r, prod = PIdle, cons = CIdle, pview = ring_read r, cview = ring_write r,
     pushed = [], popped = []\<rparr>"

text \<open>The two threads start on a ring with nothing in it.\<close>

inductive spsc_reachable :: "'a spsc \<Rightarrow> bool" where
  init: "ring_inv r \<Longrightarrow> ring_read r = ring_write r \<Longrightarrow> spsc_reachable (spsc_init r)"
| step: "spsc_reachable s \<Longrightarrow> spsc_step s t \<Longrightarrow> spsc_reachable t"

inductive_cases spsc_stepE: "spsc_step s t"

section \<open>The invariant\<close>

text \<open>
  \<open>b\<close> is the common start of the two indices, \<open>PV\<close> and \<open>CV\<close> count what the two
  views stand for. The index of logical element \<open>i\<close> is \<open>b + i\<close>, its slot
  \<open>(b + i) mod 2^k\<close>.
\<close>

definition slot :: "64 word \<Rightarrow> nat \<Rightarrow> nat \<Rightarrow> nat" where
  "slot b k i = (unat b + i) mod 2 ^ k"

definition spsc_shape :: "64 word \<Rightarrow> nat \<Rightarrow> 'a spsc \<Rightarrow> bool" where
  "spsc_shape b k s \<longleftrightarrow> k \<le> 63 \<and> ring_mask (ring s) = mask k \<and> length (ring_buffer (ring s)) = 2 ^ k \<and>
     ring_write (ring s) = b + of_nat (length (pushed s)) \<and>
     ring_read (ring s) = b + of_nat (length (popped s)) \<and>
     prefix (popped s) (pushed s)"

definition spsc_stored :: "64 word \<Rightarrow> nat \<Rightarrow> 'a spsc \<Rightarrow> bool" where
  "spsc_stored b k s \<longleftrightarrow> (\<forall>i. length (popped s) \<le> i \<and> i < length (pushed s) \<longrightarrow>
     ring_buffer (ring s) ! slot b k i = pushed s ! i)"

definition spsc_prod :: "64 word \<Rightarrow> nat \<Rightarrow> 'a spsc \<Rightarrow> bool" where
  "spsc_prod b k s \<longleftrightarrow> (\<exists>PV. pview s = b + of_nat PV \<and> PV \<le> length (popped s) \<and>
     (case prod s of
        PIdle \<Rightarrow> length (pushed s) \<le> PV + 2 ^ k
      | PCopy data wr j \<Rightarrow> wr = ring_write (ring s) \<and> j \<le> length data \<and>
          length (pushed s) + length data \<le> PV + 2 ^ k \<and>
          (\<forall>i < j. ring_buffer (ring s) ! slot b k (length (pushed s) + i) = data ! i)))"

definition spsc_cons :: "64 word \<Rightarrow> nat \<Rightarrow> 'a spsc \<Rightarrow> bool" where
  "spsc_cons b k s \<longleftrightarrow> (\<exists>CV. cview s = b + of_nat CV \<and> CV \<le> length (pushed s) \<and>
     (case cons s of
        CIdle \<Rightarrow> length (popped s) \<le> CV
      | CCopy n rd got \<Rightarrow> rd = ring_read (ring s) \<and> length got \<le> n \<and> length (popped s) + n \<le> CV \<and>
          got = take (length got) (drop (length (popped s)) (pushed s))))"

definition spsc_inv :: "64 word \<Rightarrow> nat \<Rightarrow> 'a spsc \<Rightarrow> bool" where
  "spsc_inv b k s \<longleftrightarrow> spsc_shape b k s \<and> spsc_stored b k s \<and> spsc_prod b k s \<and> spsc_cons b k s"

lemmas spsc_defs = spsc_shape_def spsc_stored_def spsc_prod_def spsc_cons_def

lemma slot_index: "k \<le> 63 \<Longrightarrow> unat ((b + of_nat i) AND mask k) = slot b k i"
  by (simp add: slot_def slot_eq)

lemma slot_lt [simp]: "slot b k i < 2 ^ k"
  by (simp add: slot_def)

lemma slot_inj: "i < j \<Longrightarrow> j < i + 2 ^ k \<Longrightarrow> slot b k i \<noteq> slot b k j"
proof
  assume ij: "i < j" "j < i + 2 ^ k" and eq: "slot b k i = slot b k j"
  then have "2 ^ k dvd (unat b + j) - (unat b + i)"
    by (metis slot_def mod_eq_dvd_iff_nat add_le_mono1 add.commute less_imp_le)
  then have "2 ^ k dvd j - i" by simp
  then have "2 ^ k \<le> j - i" using ij(1) by (simp add: dvd_imp_le)
  with ij show False by linarith
qed

lemma unat_diff_index: "n \<le> m \<Longrightarrow> m - n < 2 ^ 64 \<Longrightarrow> unat ((b + of_nat m) - (b + of_nat n) :: 64 word) = m - n"
proof -
  assume nm: "n \<le> m" "m - n < 2 ^ 64"
  have "(b + of_nat m) - (b + of_nat n) = (of_nat (m - n) :: 64 word)" using nm(1) by (simp add: of_nat_diff)
  with nm(2) show ?thesis by (simp add: unat_word_of_nat)
qed

lemma pow_k_small: "k \<le> 63 \<Longrightarrow> (2 :: nat) ^ k < 2 ^ 64"
  by (intro power_strict_increasing) auto

text \<open>A view between an old view and the current index stands for a count in between.\<close>

lemma between_count:
  assumes "between (b + of_nat a) v (b + of_nat c)" and "a \<le> c" and "c - a < 2 ^ 64"
  obtains m where "v = b + of_nat m" "a \<le> m" "m \<le> c"
proof -
  have "unat (v - (b + of_nat a)) \<le> c - a"
    using assms unat_diff_index [OF assms(2,3), of b] by (simp add: between_def)
  moreover have "v = b + of_nat (a + unat (v - (b + of_nat a)))" by simp
  ultimately show ?thesis
    using assms(2) by (intro that [of "a + unat (v - (b + of_nat a))"]) auto
qed

lemma spsc_shapeD:
  assumes "spsc_shape b k s"
  shows "k \<le> 63" "ring_mask (ring s) = mask k" "length (ring_buffer (ring s)) = 2 ^ k"
    "ring_write (ring s) = b + of_nat (length (pushed s))"
    "ring_read (ring s) = b + of_nat (length (popped s))"
    "length (popped s) \<le> length (pushed s)" "prefix (popped s) (pushed s)"
    "unat (capacity (ring s)) = 2 ^ k"
  using assms mask_succ by (auto simp: spsc_shape_def capacity_def prefix_length_le)

text \<open>In every state the pushed-but-not-popped elements fit in the array.\<close>

lemma spsc_occupancy: "spsc_inv b k s \<Longrightarrow> length (pushed s) \<le> length (popped s) + 2 ^ k"
  by (cases "prod s") (auto simp: spsc_inv_def spsc_prod_def)

lemma producer_view:
  assumes inv: "spsc_inv b k s" and "between (pview s) v (ring_read (ring s))" and "prod s = PIdle"
  obtains V where "v = b + of_nat V" "V \<le> length (popped s)" "length (pushed s) \<le> V + 2 ^ k"
    "unat (capacity (ring s) - (ring_write (ring s) - v)) = V + 2 ^ k - length (pushed s)"
proof -
  have sh: "spsc_shape b k s" using inv by (simp add: spsc_inv_def)
  note D = spsc_shapeD [OF sh]
  from inv assms(3) obtain PV where PV: "pview s = b + of_nat PV" "PV \<le> length (popped s)"
    "length (pushed s) \<le> PV + 2 ^ k" by (auto simp: spsc_inv_def spsc_prod_def)
  have "length (popped s) - PV < 2 ^ 64" using PV D(6) pow_k_small [OF D(1)] by linarith
  then obtain V where V: "v = b + of_nat V" "PV \<le> V" "V \<le> length (popped s)"
    using assms(2) PV(1,2) D(5) by (metis between_count)
  have w: "unat (ring_write (ring s) - v) = length (pushed s) - V"
    unfolding D(4) V(1) using V D(6) PV(3) pow_k_small [OF D(1)] by (intro unat_diff_index) linarith+
  have "unat (capacity (ring s) - (ring_write (ring s) - v)) = 2 ^ k - (length (pushed s) - V)"
    using w D(8) V(2) PV(3) by (simp add: unat_sub word_le_nat_alt)
  with V PV(3) D(6) show ?thesis by (intro that [of V]) auto
qed

lemma consumer_view:
  assumes inv: "spsc_inv b k s" and "between (cview s) v (ring_write (ring s))" and "cons s = CIdle"
  obtains V where "v = b + of_nat V" "V \<le> length (pushed s)" "length (popped s) \<le> V"
    "unat (v - ring_read (ring s)) = V - length (popped s)"
proof -
  have sh: "spsc_shape b k s" using inv by (simp add: spsc_inv_def)
  note D = spsc_shapeD [OF sh]
  from inv assms(3) obtain CV where CV: "cview s = b + of_nat CV" "CV \<le> length (pushed s)"
    "length (popped s) \<le> CV" by (auto simp: spsc_inv_def spsc_cons_def)
  have small: "length (pushed s) - length (popped s) < 2 ^ 64"
    using spsc_occupancy [OF inv] pow_k_small [OF D(1)] by linarith
  then have "length (pushed s) - CV < 2 ^ 64" using CV(3) by linarith
  then obtain V where V: "v = b + of_nat V" "CV \<le> V" "V \<le> length (pushed s)"
    using assms(2) CV(1,2) D(4) by (metis between_count)
  have "unat (v - ring_read (ring s)) = V - length (popped s)"
    unfolding D(5) V(1) using V CV(3) small by (intro unat_diff_index) linarith+
  with V CV(3) show ?thesis by (intro that [of V]) auto
qed

section \<open>Every step keeps the invariant\<close>

lemma shape_frame [simp]:
  "spsc_shape b k (s\<lparr>pview := v\<rparr>) = spsc_shape b k s"
  "spsc_shape b k (s\<lparr>prod := p\<rparr>) = spsc_shape b k s"
  "spsc_shape b k (s\<lparr>cview := v\<rparr>) = spsc_shape b k s"
  "spsc_shape b k (s\<lparr>cons := c\<rparr>) = spsc_shape b k s"
  by (simp_all add: spsc_shape_def)

lemma stored_frame [simp]:
  "spsc_stored b k (s\<lparr>pview := v\<rparr>) = spsc_stored b k s"
  "spsc_stored b k (s\<lparr>prod := p\<rparr>) = spsc_stored b k s"
  "spsc_stored b k (s\<lparr>cview := v\<rparr>) = spsc_stored b k s"
  "spsc_stored b k (s\<lparr>cons := c\<rparr>) = spsc_stored b k s"
  by (simp_all add: spsc_stored_def)

lemma cons_frame [simp]:
  "spsc_cons b k (s\<lparr>pview := v\<rparr>) = spsc_cons b k s"
  "spsc_cons b k (s\<lparr>prod := p\<rparr>) = spsc_cons b k s"
  "spsc_cons b k (s\<lparr>ring := (ring s)\<lparr>ring_buffer := buf\<rparr>\<rparr>) = spsc_cons b k s"
  by (simp_all add: spsc_cons_def cong: consumer.case_cong)

lemma prod_frame [simp]:
  "spsc_prod b k (s\<lparr>cview := v\<rparr>) = spsc_prod b k s"
  "spsc_prod b k (s\<lparr>cons := c\<rparr>) = spsc_prod b k s"
  by (simp_all add: spsc_prod_def cong: producer.case_cong)

lemma inv_p_refuse:
  assumes inv: "spsc_inv b k s" and "prod s = PIdle" and "between (pview s) v (ring_read (ring s))"
  shows "spsc_inv b k (s\<lparr>pview := v\<rparr>)"
proof -
  obtain V where "v = b + of_nat V" "V \<le> length (popped s)" "length (pushed s) \<le> V + 2 ^ k"
    by (rule producer_view [OF inv assms(3,2)])
  with inv assms(2) show ?thesis by (auto simp: spsc_inv_def) (auto simp: spsc_prod_def)
qed

lemma inv_p_load:
  assumes inv: "spsc_inv b k s" and "prod s = PIdle" and "between (pview s) v (ring_read (ring s))"
    and "\<not> length data > unat (capacity (ring s) - (ring_write (ring s) - v))"
  shows "spsc_inv b k (s\<lparr>pview := v, prod := PCopy data (ring_write (ring s)) 0\<rparr>)"
proof -
  obtain V where "v = b + of_nat V" "V \<le> length (popped s)" "length (pushed s) \<le> V + 2 ^ k"
    "unat (capacity (ring s) - (ring_write (ring s) - v)) = V + 2 ^ k - length (pushed s)"
    by (rule producer_view [OF inv assms(3,2)])
  with inv assms(2,4) show ?thesis by (auto simp: spsc_inv_def) (auto simp: spsc_prod_def)
qed

lemma inv_p_copy:
  assumes inv: "spsc_inv b k s" and p: "prod s = PCopy data wr j" and j: "j < length data"
  shows "spsc_inv b k (s\<lparr>ring := (ring s)\<lparr>ring_buffer :=
         (ring_buffer (ring s))[unat ((wr + of_nat j) AND ring_mask (ring s)) := data ! j]\<rparr>,
       prod := PCopy data wr (Suc j)\<rparr>)" (is "spsc_inv b k ?t")
proof -
  have sh: "spsc_shape b k s" using inv by (simp add: spsc_inv_def)
  note D = spsc_shapeD [OF sh]
  let ?W = "length (pushed s)" and ?R = "length (popped s)"
  from inv p obtain PV where PV: "pview s = b + of_nat PV" "PV \<le> ?R" "wr = ring_write (ring s)"
    "?W + length data \<le> PV + 2 ^ k" "\<forall>i < j. ring_buffer (ring s) ! slot b k (?W + i) = data ! i"
    by (auto simp: spsc_inv_def spsc_prod_def)
  have "wr + of_nat j = b + of_nat (?W + j)" by (simp add: PV(3) D(4))
  then have sl: "unat ((wr + of_nat j) AND ring_mask (ring s)) = slot b k (?W + j)"
    by (simp only: D(2) slot_index [OF D(1)])
  have other: "slot b k (?W + j) \<noteq> slot b k i" if "?R \<le> i" "i < ?W + j" for i
    using slot_inj [of i "?W + j" k b] that PV(2,4) j by force
  have "spsc_stored b k ?t" using inv other by (auto simp: spsc_inv_def spsc_stored_def sl)
  moreover have "spsc_prod b k ?t"
    using PV j other D(3,6)
    by (auto simp: spsc_prod_def sl [unfolded PV(3)] less_Suc_eq intro!: exI [of _ PV])
  moreover have "spsc_shape b k ?t" "spsc_cons b k ?t"
    using inv by (simp_all add: spsc_inv_def) (simp add: spsc_shape_def)
  ultimately show ?thesis by (simp add: spsc_inv_def)
qed

lemma inv_p_store:
  assumes inv: "spsc_inv b k s" and p: "prod s = PCopy data wr (length data)"
  shows "spsc_inv b k (s\<lparr>ring := (ring s)\<lparr>ring_write := wr + of_nat (length data)\<rparr>,
       prod := PIdle, pushed := pushed s @ data\<rparr>)" (is "spsc_inv b k ?t")
proof -
  have sh: "spsc_shape b k s" using inv by (simp add: spsc_inv_def)
  note D = spsc_shapeD [OF sh]
  let ?W = "length (pushed s)" and ?R = "length (popped s)"
  from inv p obtain PV where PV: "pview s = b + of_nat PV" "PV \<le> ?R" "wr = ring_write (ring s)"
    "?W + length data \<le> PV + 2 ^ k"
    "\<forall>i < length data. ring_buffer (ring s) ! slot b k (?W + i) = data ! i"
    by (auto simp: spsc_inv_def spsc_prod_def)
  have new: "ring_buffer (ring s) ! slot b k i = data ! (i - ?W)" if "?W \<le> i" "i < ?W + length data" for i
    using PV(5) that by (metis le_add_diff_inverse less_diff_conv2 add.commute)
  have "spsc_stored b k ?t"
    using inv new by (auto simp: spsc_inv_def spsc_stored_def nth_append)
  moreover have "spsc_shape b k ?t"
    using sh PV(3) by (auto simp: spsc_shape_def add.assoc)
  moreover have "spsc_prod b k ?t" using PV by (auto simp: spsc_prod_def)
  moreover have "spsc_cons b k ?t"
  proof (cases "cons s")
    case CIdle
    then show ?thesis using inv by (auto simp: spsc_inv_def spsc_cons_def)
  next
    case (CCopy n rd got)
    with inv obtain CV where "cview s = b + of_nat CV" "CV \<le> ?W" "rd = ring_read (ring s)" "length got \<le> n"
      "?R + n \<le> CV" "got = take (length got) (drop ?R (pushed s))"
      by (auto simp: spsc_inv_def spsc_cons_def)
    with CCopy show ?thesis by (auto simp: spsc_cons_def intro!: exI [of _ CV])
  qed
  ultimately show ?thesis by (simp add: spsc_inv_def)
qed

lemma inv_c_refuse:
  assumes inv: "spsc_inv b k s" and "cons s = CIdle" and "between (cview s) v (ring_write (ring s))"
  shows "spsc_inv b k (s\<lparr>cview := v\<rparr>)"
proof -
  obtain V where "v = b + of_nat V" "V \<le> length (pushed s)" "length (popped s) \<le> V"
    by (rule consumer_view [OF inv assms(3,2)])
  with inv assms(2) show ?thesis by (auto simp: spsc_inv_def) (auto simp: spsc_cons_def)
qed

lemma inv_c_load:
  assumes inv: "spsc_inv b k s" and "cons s = CIdle" and "between (cview s) v (ring_write (ring s))"
    and "\<not> n > unat (v - ring_read (ring s))"
  shows "spsc_inv b k (s\<lparr>cview := v, cons := CCopy n (ring_read (ring s)) []\<rparr>)"
proof -
  obtain V where "v = b + of_nat V" "V \<le> length (pushed s)" "length (popped s) \<le> V"
    "unat (v - ring_read (ring s)) = V - length (popped s)"
    by (rule consumer_view [OF inv assms(3,2)])
  with inv assms(2,4) show ?thesis by (auto simp: spsc_inv_def) (auto simp: spsc_cons_def)
qed

lemma consumer_copying:
  assumes inv: "spsc_inv b k s" and c: "cons s = CCopy n rd got"
  obtains CV where "cview s = b + of_nat CV" "CV \<le> length (pushed s)" "rd = ring_read (ring s)"
    "length got \<le> n" "length (popped s) + n \<le> CV"
    "got = take (length got) (drop (length (popped s)) (pushed s))"
  using assms by (auto simp: spsc_inv_def spsc_cons_def)

lemma inv_c_copy:
  assumes inv: "spsc_inv b k s" and c: "cons s = CCopy n rd got" and l: "length got < n"
  shows "spsc_inv b k (s\<lparr>cons := CCopy n rd (got @
       [ring_buffer (ring s) ! unat ((rd + of_nat (length got)) AND ring_mask (ring s))])\<rparr>)"
proof -
  have sh: "spsc_shape b k s" using inv by (simp add: spsc_inv_def)
  note D = spsc_shapeD [OF sh]
  let ?R = "length (popped s)"
  obtain CV where CV: "cview s = b + of_nat CV" "CV \<le> length (pushed s)" "rd = ring_read (ring s)"
    "length got \<le> n" "?R + n \<le> CV" "got = take (length got) (drop ?R (pushed s))"
    by (rule consumer_copying [OF inv c])
  have "rd + of_nat (length got) = b + of_nat (?R + length got)" by (simp add: CV(3) D(5))
  then have sl: "unat ((rd + of_nat (length got)) AND ring_mask (ring s)) = slot b k (?R + length got)"
    by (simp only: D(2) slot_index [OF D(1)])
  have lt: "?R + length got < length (pushed s)" using CV(2,5) l by linarith
  then have "ring_buffer (ring s) ! slot b k (?R + length got) = pushed s ! (?R + length got)"
    using inv by (simp add: spsc_inv_def spsc_stored_def)
  then have "got @ [ring_buffer (ring s) ! slot b k (?R + length got)] =
      take (Suc (length got)) (drop ?R (pushed s))"
    using lt CV(6) by (simp add: take_Suc_conv_app_nth)
  with inv CV l show ?thesis
    by (auto simp: spsc_inv_def sl) (auto simp: spsc_cons_def sl [unfolded CV(3)] intro!: exI [of _ CV])
qed

lemma inv_c_store:
  assumes inv: "spsc_inv b k s" and c: "cons s = CCopy n rd got" and l: "length got = n"
  shows "spsc_inv b k (s\<lparr>ring := (ring s)\<lparr>ring_read := rd + of_nat n\<rparr>,
       cons := CIdle, popped := popped s @ got\<rparr>)" (is "spsc_inv b k ?t")
proof -
  have sh: "spsc_shape b k s" using inv by (simp add: spsc_inv_def)
  note D = spsc_shapeD [OF sh]
  let ?R = "length (popped s)"
  obtain CV where CV: "cview s = b + of_nat CV" "CV \<le> length (pushed s)" "rd = ring_read (ring s)"
    "length got \<le> n" "?R + n \<le> CV" "got = take (length got) (drop ?R (pushed s))"
    by (rule consumer_copying [OF inv c])
  have "popped s = take ?R (pushed s)" using D(7) by (metis append_eq_conv_conj prefix_def)
  then have "popped s @ got = take (?R + n) (pushed s)"
    using CV(6) l by (metis take_add)
  then have "prefix (popped s @ got) (pushed s)" by (simp add: take_is_prefix)
  then have "spsc_shape b k ?t" using sh l CV(3) by (auto simp: spsc_shape_def add.assoc)
  moreover have "spsc_stored b k ?t" using inv by (auto simp: spsc_inv_def spsc_stored_def)
  moreover have "spsc_prod b k ?t"
  proof (cases "prod s")
    case PIdle
    then show ?thesis using inv by (fastforce simp: spsc_inv_def spsc_prod_def)
  next
    case (PCopy data wr j)
    with inv obtain PV where "pview s = b + of_nat PV" "PV \<le> ?R" "wr = ring_write (ring s)"
      "j \<le> length data" "length (pushed s) + length data \<le> PV + 2 ^ k"
      "\<forall>i < j. ring_buffer (ring s) ! slot b k (length (pushed s) + i) = data ! i"
      by (auto simp: spsc_inv_def spsc_prod_def)
    with PCopy show ?thesis by (auto simp: spsc_prod_def intro!: exI [of _ PV])
  qed
  moreover have "spsc_cons b k ?t" using CV l by (auto simp: spsc_cons_def)
  ultimately show ?thesis by (simp add: spsc_inv_def)
qed

lemma spsc_step_inv: "spsc_step s t \<Longrightarrow> spsc_inv b k s \<Longrightarrow> spsc_inv b k t"
  by (induction rule: spsc_step.induct)
    (auto intro: inv_p_refuse inv_p_load inv_p_copy inv_p_store inv_c_refuse inv_c_load inv_c_copy inv_c_store)

lemma spsc_init_inv:
  assumes "ring_inv r" and "ring_read r = ring_write r"
  shows "\<exists>b k. spsc_inv b k (spsc_init r)"
proof -
  obtain k where "k \<le> 63" "ring_mask r = mask k" "length (ring_buffer r) = 2 ^ k"
    using assms(1) by (elim ring_invE)
  then have "spsc_inv (ring_read r) k (spsc_init r)"
    using assms(2) by (auto simp: spsc_inv_def spsc_defs spsc_init_def)
  then show ?thesis by blast
qed

lemma spsc_reachable_inv: "spsc_reachable s \<Longrightarrow> \<exists>b k. spsc_inv b k s"
  by (induction rule: spsc_reachable.induct) (blast intro: spsc_init_inv spsc_step_inv)+

section \<open>What the two threads can rely on\<close>

text \<open>
  C26. Under every interleaving of the producer and the consumer, with arbitrarily stale views
  of each other's index, everything the consumer has popped is a prefix of what the producer
  has pushed: nothing is lost, repeated, reordered or torn.
\<close>

theorem spsc_fifo: "spsc_reachable s \<Longrightarrow> prefix (popped s) (pushed s)"
  using spsc_reachable_inv [of s] by (auto simp: spsc_inv_def spsc_shape_def)

text \<open>
  A run on the ring of \<open>ring_example\<close> (four slots, indices two below \<open>2^64\<close>): one element
  is pushed, a pop of it starts, and a second push starts before the pop has copied.
\<close>

definition spsc_example :: "nat producer \<Rightarrow> nat consumer \<Rightarrow> 64 word \<Rightarrow> nat list \<Rightarrow> 64 word \<Rightarrow> nat list \<Rightarrow> nat spsc" where
  "spsc_example p c w buf cv ps =
     \<lparr>ring = \<lparr>ring_mask = 3, ring_buffer = buf, ring_read = -2, ring_write = w\<rparr>, prod = p, cons = c,
       pview = -2, cview = cv, pushed = ps, popped = []\<rparr>"

lemma spsc_example_reachable:
  "spsc_reachable (spsc_example (PCopy [8, 9] (-1) 0) (CCopy 1 (-2) []) (-1) [0, 0, 7, 0] (-1) [7])"
proof -
  note ex = spsc_example_def spsc_init_def ring_example_def between_def capacity_def
  have upd: "[0, 0, 0, 0][2 := 7] = [0, 0, 7, 0 :: nat]" by (simp add: numeral_2_eq_2)
  have r0: "spsc_reachable (spsc_example PIdle CIdle (-2) [0, 0, 0, 0] (-2) [])"
    using spsc_reachable.init [OF ring_example_inv] by (simp add: ex)
  have "spsc_step (spsc_example PIdle CIdle (-2) [0, 0, 0, 0] (-2) [])
      (spsc_example (PCopy [7] (-2) 0) CIdle (-2) [0, 0, 0, 0] (-2) [])"
    using p_load [of "spsc_example PIdle CIdle (-2) [0, 0, 0, 0] (-2) []" "-2" "[7]"] by (simp add: ex)
  with r0 have r1: "spsc_reachable (spsc_example (PCopy [7] (-2) 0) CIdle (-2) [0, 0, 0, 0] (-2) [])"
    by (rule spsc_reachable.step)
  have "spsc_step (spsc_example (PCopy [7] (-2) 0) CIdle (-2) [0, 0, 0, 0] (-2) [])
      (spsc_example (PCopy [7] (-2) 1) CIdle (-2) [0, 0, 7, 0] (-2) [])"
    using p_copy [of "spsc_example (PCopy [7] (-2) 0) CIdle (-2) [0, 0, 0, 0] (-2) []" "[7]" "-2" 0]
    by (simp add: ex upd)
  with r1 have r2: "spsc_reachable (spsc_example (PCopy [7] (-2) 1) CIdle (-2) [0, 0, 7, 0] (-2) [])"
    by (rule spsc_reachable.step)
  have "spsc_step (spsc_example (PCopy [7] (-2) 1) CIdle (-2) [0, 0, 7, 0] (-2) [])
      (spsc_example PIdle CIdle (-1) [0, 0, 7, 0] (-2) [7])"
    using p_store [of "spsc_example (PCopy [7] (-2) 1) CIdle (-2) [0, 0, 7, 0] (-2) []" "[7]" "-2"]
    by (simp add: ex)
  with r2 have r3: "spsc_reachable (spsc_example PIdle CIdle (-1) [0, 0, 7, 0] (-2) [7])"
    by (rule spsc_reachable.step)
  have "spsc_step (spsc_example PIdle CIdle (-1) [0, 0, 7, 0] (-2) [7])
      (spsc_example PIdle (CCopy 1 (-2) []) (-1) [0, 0, 7, 0] (-1) [7])"
    using c_load [of "spsc_example PIdle CIdle (-1) [0, 0, 7, 0] (-2) [7]" "-1" 1] by (simp add: ex)
  with r3 have r4: "spsc_reachable (spsc_example PIdle (CCopy 1 (-2) []) (-1) [0, 0, 7, 0] (-1) [7])"
    by (rule spsc_reachable.step)
  have "spsc_step (spsc_example PIdle (CCopy 1 (-2) []) (-1) [0, 0, 7, 0] (-1) [7])
      (spsc_example (PCopy [8, 9] (-1) 0) (CCopy 1 (-2) []) (-1) [0, 0, 7, 0] (-1) [7])"
    using p_load [of "spsc_example PIdle (CCopy 1 (-2) []) (-1) [0, 0, 7, 0] (-1) [7]" "-2" "[8, 9]"]
    by (simp add: ex)
  with r4 show ?thesis by (rule spsc_reachable.step)
qed

theorem spsc_fifo_witness:
  "prefix (popped (spsc_example (PCopy [8, 9] (-1) 0) (CCopy 1 (-2) []) (-1) [0, 0, 7, 0] (-1) [7])) [7]"
  using spsc_fifo [OF spsc_example_reachable] by (simp add: spsc_example_def)

text \<open>
  C32. No data race: while a push is copying and a pop is copying, the slot of every element
  the push may write differs from the slot of every element the pop may read.
\<close>

theorem spsc_no_race:
  assumes "spsc_reachable s" and "prod s = PCopy data wr j" and "cons s = CCopy n rd got"
    and "i < length data" and "l < n"
  shows "unat ((wr + of_nat i) AND ring_mask (ring s)) \<noteq> unat ((rd + of_nat l) AND ring_mask (ring s))"
proof -
  obtain b k where inv: "spsc_inv b k s" using spsc_reachable_inv [OF assms(1)] by blast
  then have sh: "spsc_shape b k s" by (simp add: spsc_inv_def)
  note D = spsc_shapeD [OF sh]
  obtain CV where CV: "CV \<le> length (pushed s)" "rd = ring_read (ring s)" "length (popped s) + n \<le> CV"
    by (rule consumer_copying [OF inv assms(3)])
  from inv assms(2) obtain PV where PV: "PV \<le> length (popped s)" "wr = ring_write (ring s)"
    "length (pushed s) + length data \<le> PV + 2 ^ k"
    by (auto simp: spsc_inv_def spsc_prod_def)
  have "wr + of_nat i = b + of_nat (length (pushed s) + i)" "rd + of_nat l = b + of_nat (length (popped s) + l)"
    by (simp_all add: PV(2) CV(2) D(4,5))
  moreover have "slot b k (length (popped s) + l) \<noteq> slot b k (length (pushed s) + i)"
    using CV PV assms(4,5) by (intro slot_inj) linarith+
  ultimately show ?thesis by (simp only: D(2) slot_index [OF D(1)])
qed

theorem spsc_no_race_witness:
  "unat ((- 1 + of_nat 1 :: 64 word) AND 3) \<noteq> unat ((- 2 + of_nat 0 :: 64 word) AND 3)"
  using spsc_no_race [OF spsc_example_reachable, of "[8, 9]" "-1" 0 1 "-2" "[]" 1 0]
  by (simp add: spsc_example_def)

end
