(* ===== verification/Bplist.thy ===== *)
theory Bplist
  imports Text_Util
begin

text \<open>
  The binary property lists of \<open>airplay::bplist\<close> (\<open>src/src/airplay_crypto.h\<close> and
  \<open>airplay_crypto.cpp\<close>): the object-table encoder and the bounds-checked decoder. Offsets and
  counts are 64-bit words as in the code, a \<open>double\<close> is its 64-bit pattern, and the decoder's
  \<open>ok\<close> flag is threaded through as the code does (it stays false once a read failed).
\<close>

datatype pvalue = VBool bool | VInt "64 word" | VReal "64 word" | VStr string | VData bytes
  | VArr "pvalue list" | VDict "(string \<times> pvalue) list"

fun bp_lookup :: "(string \<times> pvalue) list \<Rightarrow> string \<Rightarrow> pvalue option" where
  "bp_lookup [] key = None"
| "bp_lookup ((k, v) # d) key = (if k = key then Some v else bp_lookup d key)"

text \<open>\<open>Value::find\<close>, \<open>asInt\<close> and \<open>asStr\<close>.\<close>

definition bp_find :: "pvalue \<Rightarrow> string \<Rightarrow> pvalue option" where
  "bp_find v key = (case v of VDict d \<Rightarrow> bp_lookup d key | _ \<Rightarrow> None)"

definition asInt :: "pvalue \<Rightarrow> 64 word \<Rightarrow> 64 word" where
  "asInt v def = (case v of VInt i \<Rightarrow> i | _ \<Rightarrow> def)"

definition asStr :: "pvalue \<Rightarrow> string \<Rightarrow> string" where
  "asStr v def = (case v of VStr s \<Rightarrow> s | _ \<Rightarrow> def)"

section \<open>The encoder\<close>

definition encodeInt :: "64 word \<Rightarrow> bytes" where
  "encodeInt v =
     (if 0 \<le> sint v \<and> sint v \<le> 0xFF then [0x10, ucast v]
      else if 0 \<le> sint v \<and> sint v \<le> 0xFFFF then 0x11 # be_bytes 2 v
      else if 0 \<le> sint v \<and> sint v \<le> 0xFFFFFFFF then 0x12 # be_bytes 4 v
      else 0x13 # be_bytes 8 v)"

definition encodeMarkerLen :: "byte \<Rightarrow> nat \<Rightarrow> bytes" where
  "encodeMarkerLen marker len =
     (if len < 15 then [marker OR of_nat len] else (marker OR 0x0F) # encodeInt (of_nat len))"

definition appendRef :: "nat \<Rightarrow> bytes" where
  "appendRef ref = be_bytes 4 (of_nat ref :: 32 word)"

text \<open>
  \<open>Encoder::add\<close>: the object's slot is reserved (empty) at the end of the table, its
  children are added behind it, then the slot is filled. The result is the table; the index
  the code returns is the length the table had. \<open>bp_add_all\<close> adds a list of values and
  returns their indices; a dictionary adds key and value of each entry in turn.
\<close>

fun bp_add :: "pvalue \<Rightarrow> bytes list \<Rightarrow> bytes list"
  and bp_add_all :: "pvalue list \<Rightarrow> bytes list \<Rightarrow> nat list \<times> bytes list"
  and bp_add_entries :: "(string \<times> pvalue) list \<Rightarrow> bytes list \<Rightarrow> nat list \<times> nat list \<times> bytes list" where
  "bp_add (VBool b) objects = objects @ [[if b then 0x09 else 0x08]]"
| "bp_add (VInt i) objects = objects @ [encodeInt i]"
| "bp_add (VReal r) objects = objects @ [0x23 # be_bytes 8 r]"
| "bp_add (VStr s) objects = objects @ [encodeMarkerLen 0x50 (length s) @ toBytes s]"
| "bp_add (VData b) objects = objects @ [encodeMarkerLen 0x40 (length b) @ b]"
| "bp_add (VArr vs) objects =
     (let idx = length objects; (refs, objects') = bp_add_all vs (objects @ [[]])
      in objects'[idx := encodeMarkerLen 0xA0 (length refs) @ concat (map appendRef refs)])"
| "bp_add (VDict es) objects =
     (let idx = length objects; (krefs, vrefs, objects') = bp_add_entries es (objects @ [[]])
      in objects'[idx := encodeMarkerLen 0xD0 (length es) @ concat (map appendRef krefs)
           @ concat (map appendRef vrefs)])"
| "bp_add_all [] objects = ([], objects)"
| "bp_add_all (v # vs) objects =
     (let (refs, objects') = bp_add_all vs (bp_add v objects) in (length objects # refs, objects'))"
| "bp_add_entries [] objects = ([], [], objects)"
| "bp_add_entries ((k, v) # es) objects =
     (let objects1 = bp_add (VStr k) objects;
          objects2 = bp_add v objects1;
          (krefs, vrefs, objects') = bp_add_entries es objects2
      in (length objects # krefs, length objects1 # vrefs, objects'))"

definition bp_header :: bytes where
  "bp_header = toBytes ''bplist00''"

fun bp_offsets :: "nat \<Rightarrow> bytes list \<Rightarrow> nat list" where
  "bp_offsets start [] = []"
| "bp_offsets start (ob # obs) = start # bp_offsets (start + length ob) obs"

definition bp_trailer :: "nat \<Rightarrow> nat \<Rightarrow> bytes" where
  "bp_trailer count offsetTableStart =
     replicate 6 0 @ [4, 4] @ be_bytes 8 (of_nat count :: 64 word) @ be_bytes 8 (0 :: 64 word)
       @ be_bytes 8 (of_nat offsetTableStart :: 64 word)"

definition bp_encode :: "pvalue \<Rightarrow> bytes" where
  "bp_encode root =
     (let objects = bp_add root [];
          out = bp_header @ concat objects;
          offsets = bp_offsets 8 objects
      in out @ concat (map (\<lambda>off. be_bytes 4 (of_nat off :: 64 word)) offsets)
           @ bp_trailer (length objects) (length out))"

section \<open>The decoder\<close>

record Decoder =
  dec_d :: bytes
  offsetSize :: byte
  refSize :: byte
  numObjects :: "64 word"
  dec_offsets :: "64 word list"

definition dsize :: "bytes \<Rightarrow> 64 word" where
  "dsize data = of_nat (length data)"

fun readBE_loop :: "bytes \<Rightarrow> 64 word \<Rightarrow> nat \<Rightarrow> nat \<Rightarrow> 64 word \<Rightarrow> 64 word option" where
  "readBE_loop data pos i 0 v = Some v"
| "readBE_loop data pos i (Suc n) v =
     (if pos + of_nat i \<ge> dsize data then None
      else readBE_loop data pos (Suc i) n (be_step v (data ! unat (pos + of_nat i))))"

definition readBE :: "bytes \<Rightarrow> 64 word \<Rightarrow> nat \<Rightarrow> bool \<Rightarrow> 64 word \<times> bool" where
  "readBE data pos n ok =
     (case readBE_loop data pos 0 n 0 of None \<Rightarrow> (0, False) | Some v \<Rightarrow> (v, ok))"

fun bp_read_offsets :: "bytes \<Rightarrow> 64 word \<Rightarrow> byte \<Rightarrow> nat list \<Rightarrow> bool \<Rightarrow> 64 word list \<times> bool" where
  "bp_read_offsets data start osz [] ok = ([], ok)"
| "bp_read_offsets data start osz (i # is) ok =
     (let (v, ok) = readBE data (start + of_nat i * ucast osz) (unat osz) ok;
          (vs, ok) = bp_read_offsets data start osz is ok
      in (v # vs, ok))"

definition parseTrailer :: "bytes \<Rightarrow> Decoder option" where
  "parseTrailer data =
     (if length data < 8 + 32 then None
      else if take 8 data \<noteq> bp_header then None
      else
        let tr = length data - 32;
            osz = data ! (tr + 6);
            rsz = data ! (tr + 7);
            (num, ok) = readBE data (of_nat (tr + 8)) 8 True;
            (start, ok) = readBE data (of_nat (tr + 24)) 8 ok
        in if \<not> ok then None
           else if osz \<notin> {1, 2, 4, 8} \<or> rsz \<notin> {1, 2, 4, 8} then None
           else if start > dsize data then None
           else if num > dsize data then None
           else if num > (dsize data - start) div ucast osz then None
           else let (offs, ok) = bp_read_offsets data start osz [0..<unat num] ok
                in if ok then Some \<lparr>dec_d = data, offsetSize = osz, refSize = rsz, numObjects = num, dec_offsets = offs\<rparr>
                   else None)"

text \<open>
  \<open>r = f\<close> for a \<open>float\<close>: the exact value in double precision, on bit patterns (a NaN
  keeps its payload and becomes quiet).
\<close>

fun bit_len :: "nat \<Rightarrow> nat" where
  "bit_len n = (if n = 0 then 0 else Suc (bit_len (n div 2)))"

declare bit_len.simps [simp del]

definition widen_float :: "32 word \<Rightarrow> 64 word" where
  "widen_float f =
     (let s = push_bit 63 (ucast (drop_bit 31 f)) :: 64 word;
          e = unat (take_bit 8 (drop_bit 23 f));
          m = take_bit 23 f;
          bits = (\<lambda>e' m'. s OR push_bit 52 (of_nat e') OR take_bit 52 m')
      in if e = 255 then bits 2047 (push_bit 29 (ucast m) OR (if m = 0 then 0 else push_bit 51 1))
         else if e = 0 then
           (if m = 0 then s
            else let p = bit_len (unat m) - 1 in bits (p + 874) (push_bit (52 - p) (ucast m)))
         else bits (e + 896) (push_bit 29 (ucast m)))"

definition readCount :: "bytes \<Rightarrow> byte \<Rightarrow> 64 word \<Rightarrow> bool \<Rightarrow> 64 word \<times> 64 word \<times> bool" where
  "readCount data lo pos ok =
     (if lo \<noteq> 0x0F then (ucast lo, pos, ok)
      else if pos \<ge> dsize data then (0, pos, False)
      else let im = data ! unat pos;
               n = 2 ^ unat (im AND 0x0F);
               (c, ok) = readBE data (pos + 1) n ok
           in (c, pos + 1 + of_nat n, ok))"

text \<open>
  The loops over the children of an array or a dictionary: the reference is read, the object
  decoded, and the first one that cannot be decoded ends the whole decoding.
\<close>

fun arr_loop :: "(64 word \<Rightarrow> bool \<Rightarrow> pvalue option \<times> bool) \<Rightarrow> (nat \<Rightarrow> bool \<Rightarrow> 64 word \<times> bool) \<Rightarrow>
    nat list \<Rightarrow> bool \<Rightarrow> pvalue list option \<times> bool" where
  "arr_loop obj ref [] ok = (Some [], ok)"
| "arr_loop obj ref (i # is) ok =
     (let (r, ok) = ref i ok; (child, ok) = obj r ok
      in case child of
           None \<Rightarrow> (None, ok)
         | Some v \<Rightarrow> (let (vs, ok) = arr_loop obj ref is ok in (map_option ((#) v) vs, ok)))"

fun dict_loop :: "(64 word \<Rightarrow> bool \<Rightarrow> pvalue option \<times> bool) \<Rightarrow> (nat \<Rightarrow> bool \<Rightarrow> 64 word \<times> bool) \<Rightarrow>
    (nat \<Rightarrow> bool \<Rightarrow> 64 word \<times> bool) \<Rightarrow> nat list \<Rightarrow> bool \<Rightarrow> (string \<times> pvalue) list option \<times> bool" where
  "dict_loop obj kref vref [] ok = (Some [], ok)"
| "dict_loop obj kref vref (i # is) ok =
     (let (kr, ok) = kref i ok; (vr, ok) = vref i ok; (k, ok) = obj kr ok; (v, ok) = obj vr ok
      in case (k, v) of
           (Some k', Some v') \<Rightarrow>
             (let (es, ok) = dict_loop obj kref vref is ok in (map_option ((#) (asStr k' [], v')) es, ok))
         | _ \<Rightarrow> (None, ok))"

text \<open>
  \<open>Decoder::object\<close>. The first argument is the number of levels left: \<open>33 - depth\<close>, so
  that \<open>0\<close> is \<open>depth > 32\<close>.
\<close>

fun bp_object :: "nat \<Rightarrow> Decoder \<Rightarrow> 64 word \<Rightarrow> bool \<Rightarrow> pvalue option \<times> bool" where
  "bp_object 0 D ref ok = (None, ok)"
| "bp_object (Suc levels) D ref ok =
     (if ref \<ge> numObjects D then (None, ok)
      else
        let data = dec_d D; size = dsize data; pos = dec_offsets D ! unat ref
        in if pos \<ge> size then (None, ok)
        else
          let marker = data ! unat pos; pos = pos + 1; hi = marker AND 0xF0; lo = marker AND 0x0F;
              n = 2 ^ unat lo; rsz = refSize D
          in if hi = 0x00 then (Some (VBool (marker = 0x09)), ok)
          else if hi = 0x10 then
            (let (v, ok) = readBE data pos n ok in (Some (VInt v), ok))
          else if hi = 0x20 then
            (let (bits, ok) = readBE data pos n ok
             in (Some (VReal (if n = 8 then bits else if n = 4 then widen_float (ucast bits) else 0)), ok))
          else if hi = 0x40 then
            (let (cnt, pos, ok) = readCount data lo pos ok
             in if cnt > size \<or> pos + cnt > size then (None, ok)
                else (Some (VData (take (unat cnt) (drop (unat pos) data))), ok))
          else if hi = 0x50 then
            (let (cnt, pos, ok) = readCount data lo pos ok
             in if cnt > size \<or> pos + cnt > size then (None, ok)
                else (Some (VStr (toStr (take (unat cnt) (drop (unat pos) data)))), ok))
          else if hi = 0x60 then
            (let (cnt, pos, ok) = readCount data lo pos ok
             in if cnt > size then (None, ok)
                else (Some (VStr (map (\<lambda>i. byte_char (data ! unat (pos + of_nat i * 2 + 1)))
                  (takeWhile (\<lambda>i. \<not> pos + of_nat i * 2 + 1 \<ge> size) [0..<unat cnt]))), ok))
          else if hi = 0xA0 then
            (let (cnt, pos, ok) = readCount data lo pos ok
             in if \<not> ok \<or> cnt > numObjects D \<or> pos + cnt * ucast rsz > size then (None, ok)
                else let (vs, ok) = arr_loop (bp_object levels D)
                       (\<lambda>i. readBE data (pos + of_nat i * ucast rsz) (unat rsz)) [0..<unat cnt] ok
                     in (map_option VArr vs, ok))
          else if hi = 0xD0 then
            (let (cnt, pos, ok) = readCount data lo pos ok
             in if \<not> ok \<or> cnt > numObjects D \<or> pos + 2 * cnt * ucast rsz > size then (None, ok)
                else let (es, ok) = dict_loop (bp_object levels D)
                       (\<lambda>i. readBE data (pos + of_nat i * ucast rsz) (unat rsz))
                       (\<lambda>i. readBE data (pos + (cnt + of_nat i) * ucast rsz) (unat rsz)) [0..<unat cnt] ok
                     in (map_option VDict es, ok))
          else (None, ok))"

definition bp_decode :: "bytes \<Rightarrow> pvalue option" where
  "bp_decode data = (case parseTrailer data of None \<Rightarrow> None | Some D \<Rightarrow> fst (bp_object 33 D 0 True))"

declare bp_object.simps(2) [simp del]

end
