(* ===== verification/Bplist_Codec.thy ===== *)
theory Bplist_Codec
  imports Bplist
begin

text \<open>
  What the property-list encoder and decoder of \<open>Bplist\<close> do to each other. The encoder's
  object table is described by \<open>bp_stored\<close> (which slot holds which value), the file by what
  stands \<open>at\<close> which offset; the decoder run on a file that holds a stored table gives the
  stored value. The round trip, the exponential blow-up and the unchecked read flag follow.
\<close>

section \<open>The object table\<close>

fun bp_leaf :: "pvalue \<Rightarrow> bytes option" where
  "bp_leaf (VBool b) = Some [if b then 0x09 else 0x08]"
| "bp_leaf (VInt i) = Some (encodeInt i)"
| "bp_leaf (VReal r) = Some (0x23 # be_bytes 8 r)"
| "bp_leaf (VStr s) = Some (encodeMarkerLen 0x50 (length s) @ toBytes s)"
| "bp_leaf (VData b) = Some (encodeMarkerLen 0x40 (length b) @ b)"
| "bp_leaf (VArr vs) = None"
| "bp_leaf (VDict es) = None"

inductive bp_stored :: "bytes list \<Rightarrow> nat \<Rightarrow> pvalue \<Rightarrow> bool" for T where
  leaf: "i < length T \<Longrightarrow> bp_leaf v = Some (T ! i) \<Longrightarrow> bp_stored T i v"
| arr: "i < length T \<Longrightarrow> list_all2 (bp_stored T) refs vs \<Longrightarrow> length vs \<le> length T \<Longrightarrow>
    T ! i = encodeMarkerLen 0xA0 (length refs) @ concat (map appendRef refs) \<Longrightarrow> bp_stored T i (VArr vs)"
| dict: "i < length T \<Longrightarrow> list_all2 (bp_stored T) krefs (map (\<lambda>e. VStr (fst e)) es) \<Longrightarrow>
    list_all2 (bp_stored T) vrefs (map snd es) \<Longrightarrow> length es \<le> length T \<Longrightarrow>
    T ! i = encodeMarkerLen 0xD0 (length es) @ concat (map appendRef krefs)
      @ concat (map appendRef vrefs) \<Longrightarrow> bp_stored T i (VDict es)"

text \<open>A slot's bytes depend only on the slots from it on: any table prefix of the same length will do.\<close>

definition bp_holds :: "nat \<Rightarrow> bytes list \<Rightarrow> nat \<Rightarrow> pvalue \<Rightarrow> bool" where
  "bp_holds n new i v \<longleftrightarrow> (\<forall>pre rest. length pre = n \<longrightarrow> bp_stored (pre @ new @ rest) i v)"

lemma bp_holdsD: "bp_holds n new i v \<Longrightarrow> length pre = n \<Longrightarrow> bp_stored (pre @ new @ rest) i v"
  by (simp add: bp_holds_def)

lemma bp_holds_more: "bp_holds n new i v \<Longrightarrow> bp_holds n (new @ post) i v"
  by (simp add: bp_holds_def)

lemma bp_holds_shift:
  assumes "bp_holds m new i v" and "m = n + length old" shows "bp_holds n (old @ new) i v"
  unfolding bp_holds_def
proof (intro allI impI)
  fix pre rest :: "bytes list"
  assume "length pre = n"
  with assms show "bp_stored (pre @ (old @ new) @ rest) i v"
    using bp_holdsD [of m new i v "pre @ old" rest] by simp
qed

lemma bp_holds_leaf: "bp_leaf v = Some bs \<Longrightarrow> n = i \<Longrightarrow> bp_holds n [bs] i v"
  by (auto simp: bp_holds_def intro!: leaf)

lemma list_all2_more:
  "list_all2 (bp_holds n new) is vs \<Longrightarrow> (\<And>i v. bp_holds n new i v \<Longrightarrow> bp_holds m new' i v) \<Longrightarrow>
    list_all2 (bp_holds m new') is vs"
  by (erule list_all2_mono) 

lemma list_all2_holdsD:
  "list_all2 (bp_holds n new) is vs \<Longrightarrow> length pre = n \<Longrightarrow> list_all2 (bp_stored (pre @ new @ rest)) is vs"
  by (erule list_all2_mono) (rule bp_holdsD)

lemma bp_add_table:
  "\<exists>new. bp_add v objs = objs @ new \<and> new \<noteq> [] \<and> bp_holds (length objs) new (length objs) v"
  "\<exists>refs new. bp_add_all vs objs = (refs, objs @ new) \<and> length vs \<le> length new
     \<and> list_all2 (bp_holds (length objs) new) refs vs"
  "\<exists>krefs vrefs new. bp_add_entries es objs = (krefs, vrefs, objs @ new) \<and> length es \<le> length new
     \<and> list_all2 (bp_holds (length objs) new) krefs (map (\<lambda>e. VStr (fst e)) es)
     \<and> list_all2 (bp_holds (length objs) new) vrefs (map snd es)"
proof (induction v objs and vs objs and es objs rule: bp_add_bp_add_all_bp_add_entries.induct)
  case (6 vs objs)
  then obtain refs new where r: "bp_add_all vs (objs @ [[]]) = (refs, (objs @ [[]]) @ new)"
      "length vs \<le> length new" "list_all2 (bp_holds (length (objs @ [[]])) new) refs vs"
    by fastforce
  define slot where "slot = encodeMarkerLen 0xA0 (length refs) @ concat (map appendRef refs)"
  have "bp_add (VArr vs) objs = objs @ slot # new"
    using r(1) by (simp add: slot_def list_update_append)
  moreover have "bp_holds (length objs) (slot # new) (length objs) (VArr vs)"
    unfolding bp_holds_def
  proof (intro allI impI)
    fix pre rest :: "bytes list"
    assume p: "length pre = length objs"
    have "list_all2 (bp_stored ((pre @ [slot]) @ new @ rest)) refs vs"
      using list_all2_holdsD [OF r(3), of "pre @ [slot]" rest] p by simp
    with p r(2) show "bp_stored (pre @ (slot # new) @ rest) (length objs) (VArr vs)"
      by (intro bp_stored.arr [of _ _ refs]) (simp_all add: nth_append slot_def)
  qed
  ultimately show ?case by blast
next
  case (7 es objs)
  then obtain krefs vrefs new where
      r: "bp_add_entries es (objs @ [[]]) = (krefs, vrefs, (objs @ [[]]) @ new)"
        "length es \<le> length new"
        "list_all2 (bp_holds (length (objs @ [[]])) new) krefs (map (\<lambda>e. VStr (fst e)) es)"
        "list_all2 (bp_holds (length (objs @ [[]])) new) vrefs (map snd es)"
    by fastforce
  define slot where "slot = encodeMarkerLen 0xD0 (length es) @ concat (map appendRef krefs)
    @ concat (map appendRef vrefs)"
  have "bp_add (VDict es) objs = objs @ slot # new"
    using r(1) by (simp add: slot_def list_update_append)
  moreover have "bp_holds (length objs) (slot # new) (length objs) (VDict es)"
    unfolding bp_holds_def
  proof (intro allI impI)
    fix pre rest :: "bytes list"
    assume p: "length pre = length objs"
    have "list_all2 (bp_stored ((pre @ [slot]) @ new @ rest)) krefs (map (\<lambda>e. VStr (fst e)) es)"
         "list_all2 (bp_stored ((pre @ [slot]) @ new @ rest)) vrefs (map snd es)"
      using list_all2_holdsD [OF r(3), of "pre @ [slot]" rest]
        list_all2_holdsD [OF r(4), of "pre @ [slot]" rest] p by simp_all
    with p r(2) show "bp_stored (pre @ (slot # new) @ rest) (length objs) (VDict es)"
      by (intro bp_stored.dict [of _ _ krefs es vrefs]) (simp_all add: nth_append slot_def)
  qed
  ultimately show ?case by blast
next
  case (9 v vs objs)
  obtain n1 where n1: "bp_add v objs = objs @ n1" "n1 \<noteq> []" "bp_holds (length objs) n1 (length objs) v"
    using 9(1) by blast
  obtain refs n2 where n2: "bp_add_all vs (objs @ n1) = (refs, (objs @ n1) @ n2)"
      "length vs \<le> length n2" "list_all2 (bp_holds (length (objs @ n1)) n2) refs vs"
    using 9(2) n1(1) by metis
  have "list_all2 (bp_holds (length objs) (n1 @ n2)) refs vs"
    using n2(3) by (rule list_all2_more) (simp add: bp_holds_shift)
  moreover have "length (v # vs) \<le> length (n1 @ n2)"
    using n1(2) n2(2) by (cases n1) simp_all
  ultimately show ?case
    using n1 n2(1) by (intro exI [of _ "length objs # refs"] exI [of _ "n1 @ n2"])
      (simp add: bp_holds_more)
next
  case (11 k v es objs)
  obtain n1 where n1: "bp_add (VStr k) objs = objs @ n1" "n1 \<noteq> []"
      "bp_holds (length objs) n1 (length objs) (VStr k)"
    using 11(1) by blast
  obtain n2 where n2: "bp_add v (objs @ n1) = (objs @ n1) @ n2" "n2 \<noteq> []"
      "bp_holds (length (objs @ n1)) n2 (length (objs @ n1)) v"
    using 11(2) n1(1) by metis
  obtain krefs vrefs n3 where n3:
      "bp_add_entries es ((objs @ n1) @ n2) = (krefs, vrefs, ((objs @ n1) @ n2) @ n3)"
      "length es \<le> length n3"
      "list_all2 (bp_holds (length ((objs @ n1) @ n2)) n3) krefs (map (\<lambda>e. VStr (fst e)) es)"
      "list_all2 (bp_holds (length ((objs @ n1) @ n2)) n3) vrefs (map snd es)"
    using 11(3) n1(1) n2(1) by metis
  have "list_all2 (bp_holds (length objs) (n1 @ n2 @ n3)) krefs (map (\<lambda>e. VStr (fst e)) es)"
       "list_all2 (bp_holds (length objs) (n1 @ n2 @ n3)) vrefs (map snd es)"
    using n3(3,4) by (auto elim!: list_all2_more simp: bp_holds_shift [of _ _ _ _ _ "n1 @ n2", simplified])
  moreover have "bp_holds (length objs) (n1 @ n2 @ n3) (length objs) (VStr k)"
    using n1(3) by (rule bp_holds_more)
  moreover have "bp_holds (length objs) (n1 @ n2 @ n3) (length objs + length n1) v"
    using n2(3) by (intro bp_holds_shift [where old = n1]) (auto intro: bp_holds_more)
  moreover have "length ((k, v) # es) \<le> length (n1 @ n2 @ n3)"
    using n1(2) n2(2) n3(2) by (cases n1; cases n2) simp_all
  ultimately show ?case
    using n1(1) n2(1) n3(1)
    by (intro exI [of _ "length objs # krefs"] exI [of _ "(length objs + length n1) # vrefs"]
        exI [of _ "n1 @ n2 @ n3"]) (simp add: Let_def)
qed (auto simp: bp_holds_leaf)

section \<open>Reading at an offset\<close>

definition at :: "bytes \<Rightarrow> nat \<Rightarrow> bytes \<Rightarrow> bool" where
  "at data p bs \<longleftrightarrow> p + length bs \<le> length data \<and> take (length bs) (drop p data) = bs"

lemma at_append: "at data p (xs @ ys) \<longleftrightarrow> at data p xs \<and> at data (p + length xs) ys"
proof
  assume a: "at data p (xs @ ys)"
  then have t: "take (length xs + length ys) (drop p data) = xs @ ys" and
    l: "p + (length xs + length ys) \<le> length data" by (auto simp: at_def)
  have "take (length xs) (drop p data) = take (length xs) (take (length xs + length ys) (drop p data))"
    by simp
  moreover have "take (length ys) (drop (length xs) (drop p data))
      = drop (length xs) (take (length xs + length ys) (drop p data))"
    by (simp add: drop_take)
  ultimately show "at data p xs \<and> at data (p + length xs) ys"
    using t l by (simp add: at_def add.commute)
next
  assume "at data p xs \<and> at data (p + length xs) ys"
  then show "at data p (xs @ ys)"
    by (auto simp: at_def take_add add.commute)
qed

lemma at_Cons: "at data p (x # xs) \<longleftrightarrow> p < length data \<and> data ! p = x \<and> at data (p + 1) xs"
  using at_append [of data p "[x]" xs] by (auto simp: at_def take_Suc_conv_app_nth hd_drop_conv_nth
      take_Suc Suc_le_eq)

lemma at_Nil [simp]: "at data p [] \<longleftrightarrow> p \<le> length data"
  by (simp add: at_def)

lemma at_nth: "at data p bs \<Longrightarrow> i < length bs \<Longrightarrow> data ! (p + i) = bs ! i"
proof -
  assume a: "at data p bs" and i: "i < length bs"
  then have "bs ! i = drop p data ! i" by (metis at_def nth_take)
  with a i show ?thesis by (simp add: at_def)
qed

lemma at_take: "at data p bs \<Longrightarrow> take (length bs) (drop p data) = bs"
  by (simp add: at_def)

lemma at_le: "at data p bs \<Longrightarrow> p + length bs \<le> length data"
  by (simp add: at_def)

lemma at_concat_nth:
  assumes "at data p (concat (map f xs))" and "i < length xs" and "\<And>x. x \<in> set xs \<Longrightarrow> length (f x) = n"
  shows "at data (p + i * n) (f (xs ! i))"
proof -
  have "concat (map f xs) = concat (map f (take i xs)) @ f (xs ! i) @ concat (map f (drop (Suc i) xs))"
    using assms(2) by (metis append_Cons append_take_drop_id concat.simps(2) concat_append
        id_take_nth_drop list.simps(9) map_append)
  moreover have "length (concat (map f (take i xs))) = i * n"
    using assms(2,3) length_concat_map_const [of "take i xs" f n]
    by (auto simp: mult.commute dest: in_set_takeD)
  ultimately show ?thesis using assms(1) by (simp add: at_append)
qed

lemma of_nat_le_64: "p < 2 ^ 64 \<Longrightarrow> q < 2 ^ 64 \<Longrightarrow> (of_nat p :: 64 word) \<le> of_nat q \<longleftrightarrow> p \<le> q"
  by (simp add: word_le_nat_alt unat_word_of_nat)

lemma unat_of_nat_64: "p < 2 ^ 64 \<Longrightarrow> unat (of_nat p :: 64 word) = p"
  by (simp add: unat_word_of_nat)

lemma dsize_le: "p < 2 ^ 64 \<Longrightarrow> length data < 2 ^ 64 \<Longrightarrow> dsize data \<le> of_nat p \<longleftrightarrow> length data \<le> p"
  by (simp add: dsize_def of_nat_le_64)

lemma readBE_loop_ok:
  assumes "length data < 2 ^ 64"
  shows "p + i + n \<le> length data \<Longrightarrow>
    readBE_loop data (of_nat p) i n v = Some (foldl be_step v (take n (drop (p + i) data)))"
proof (induction n arbitrary: i v)
  case 0
  then show ?case by simp
next
  case (Suc n)
  have e: "(of_nat p :: 64 word) + of_nat i = of_nat (p + i)" by simp
  have b: "p + i < 2 ^ 64" "p + i < length data" using Suc.prems assms by linarith+
  have "readBE_loop data (of_nat p) i (Suc n) v
      = readBE_loop data (of_nat p) (Suc i) n (be_step v (data ! (p + i)))"
    using b assms by (simp only: readBE_loop.simps e dsize_le unat_of_nat_64) simp
  also have "\<dots> = Some (foldl be_step (be_step v (data ! (p + i))) (take n (drop (Suc (p + i)) data)))"
    using Suc.IH [of "Suc i"] Suc.prems by simp
  finally show ?case using b by (simp add: Cons_nth_drop_Suc [symmetric])
qed

lemma readBE_at:
  assumes "at data p bs" and "length data < 2 ^ 64" and "n = length bs"
  shows "readBE data (of_nat p) n ok = (be_val bs, ok)"
  using readBE_loop_ok [OF assms(2), of p 0 "length bs" 0] at_le [OF assms(1)] at_take [OF assms(1)]
  by (simp add: readBE_def be_val_def assms(3))

lemma be_val_nat:
  "k < 2 ^ 64 \<Longrightarrow> k < 2 ^ (8 * n) \<Longrightarrow> be_val (be_bytes n (of_nat k :: 64 word)) = of_nat k"
  by (simp add: be_val_be_bytes take_bit_small_word unat_word_of_nat)

lemma unat_sint: "0 \<le> sint (v :: 64 word) \<Longrightarrow> int (unat v) = sint v"
proof -
  assume "0 \<le> sint v"
  moreover have "sint v < 2 ^ 63" using sint_lt [of v] by simp
  ultimately have "take_bit 64 (sint v) = sint v" by (intro take_bit_int_eq_self) simp_all
  then show ?thesis by (simp add: uint_sint [of v])
qed

lemma encodeInt_shape:
  "\<exists>e < 4. encodeInt v = (0x10 + of_nat e) # be_bytes (2 ^ e) v \<and> be_val (be_bytes (2 ^ e) v) = v"
proof -
  have w: "be_val (be_bytes n v) = v" if "0 \<le> sint v" "sint v < 2 ^ (8 * n)" for n
  proof -
    have "unat v < 2 ^ (8 * n)"
      using that unat_sint [of v] by (metis of_nat_less_iff of_nat_numeral of_nat_power)
    then show ?thesis by (simp add: be_val_be_bytes take_bit_small_word)
  qed
  consider (b1) "0 \<le> sint v" "sint v \<le> 0xFF" | (b2) "0 \<le> sint v" "\<not> sint v \<le> 0xFF" "sint v \<le> 0xFFFF"
    | (b4) "0 \<le> sint v" "\<not> sint v \<le> 0xFFFF" "sint v \<le> 0xFFFFFFFF"
    | (b8) "\<not> (0 \<le> sint v \<and> sint v \<le> 0xFFFFFFFF)" by linarith
  then show ?thesis
  proof cases
    case b1
    then show ?thesis using w [of 1] by (intro exI [of _ 0]) (simp add: encodeInt_def)
  next
    case b2
    then show ?thesis using w [of 2] by (intro exI [of _ 1]) (simp add: encodeInt_def)
  next
    case b4
    then show ?thesis using w [of 4] by (intro exI [of _ 2]) (simp add: encodeInt_def)
  next
    case b8
    then show ?thesis by (intro exI [of _ 3]) (auto simp: encodeInt_def)
  qed
qed

lemma encodeInt_read:
  assumes "at data p (encodeInt v)" and "length data < 2 ^ 64"
  obtains m where "p < length data" "data ! p = m" "m AND 0xF0 = 0x10"
    "readBE data (of_nat p + 1) (2 ^ unat (m AND 0x0F)) ok = (v, ok)"
    "2 ^ unat (m AND 0x0F) = length (encodeInt v) - 1"
proof -
  obtain e where e: "e < 4" "encodeInt v = (0x10 + of_nat e) # be_bytes (2 ^ e) v"
      "be_val (be_bytes (2 ^ e) v) = v"
    using encodeInt_shape by blast
  have m: "(0x10 + of_nat e :: byte) AND 0xF0 = 0x10" "unat ((0x10 + of_nat e :: byte) AND 0x0F) = e"
  proof -
    have "e = 0 \<or> e = 1 \<or> e = 2 \<or> e = 3" using e(1) by linarith
    then show "(0x10 + of_nat e :: byte) AND 0xF0 = 0x10" "unat ((0x10 + of_nat e :: byte) AND 0x0F) = e"
      by (elim disjE; simp)+
  qed
  have a: "p < length data" "data ! p = 0x10 + of_nat e" "at data (p + 1) (be_bytes (2 ^ e) v)"
    using assms(1) e(2) by (simp_all add: at_Cons)
  have "readBE data (of_nat (p + 1)) (2 ^ e) ok = (v, ok)"
    using readBE_at [OF a(3) assms(2)] e(3) by simp
  with a m e that show thesis by (simp add: add.commute)
qed

lemma low_count_bits:
  "n < 15 \<Longrightarrow> (of_nat n :: byte) AND 0xF0 = 0 \<and> of_nat n AND 0x0F = (of_nat n :: byte) \<and> (of_nat n :: byte) \<noteq> 0x0F"
proof -
  assume n: "n < 15"
  have "\<forall>n \<in> set [0..<15]. (of_nat n :: byte) AND 0xF0 = 0 \<and> of_nat n AND 0x0F = (of_nat n :: byte)
      \<and> (of_nat n :: byte) \<noteq> 0x0F"
    by code_simp
  with n show ?thesis by simp
qed

lemma readCount_marker:
  assumes "at data p (encodeMarkerLen m len)" and "m AND 0xF0 = m" and "m AND 0x0F = 0"
    and "length data < 2 ^ 32" and "len < 2 ^ 32"
  obtains mk where "p < length data" "data ! p = mk" "mk AND 0xF0 = m"
    "readCount data (mk AND 0x0F) (of_nat p + 1) ok
       = (of_nat len, of_nat (p + length (encodeMarkerLen m len)), ok)"
proof (cases "len < 15")
  case True
  have "(m OR of_nat len) AND 0xF0 = m" "(m OR of_nat len) AND 0x0F = of_nat len"
    using low_count_bits [OF True] assms(2,3) by (simp_all add: bit.conj_disj_distrib2)
  moreover have "ucast (of_nat len :: byte) = (of_nat len :: 64 word)"
    using True by (simp add: word_unat_eq_iff unat_word_of_nat unsigned_ucast_eq take_bit_nat_eq_self)
  ultimately show thesis
    using assms(1) True low_count_bits [OF True]
    by (intro that [of "m OR of_nat len"]) (auto simp: encodeMarkerLen_def at_Cons readCount_def add.commute)
next
  case False
  then have a: "p < length data" "data ! p = m OR 0x0F" "at data (p + 1) (encodeInt (of_nat len))"
    using assms(1) by (simp_all add: encodeMarkerLen_def at_Cons)
  have l: "length data < 2 ^ 64" using assms(4) by simp
  obtain im where im: "p + 1 < length data" "data ! (p + 1) = im"
      "readBE data (of_nat (p + 1) + 1) (2 ^ unat (im AND 0x0F)) ok = (of_nat len, ok)"
      "2 ^ unat (im AND 0x0F) = length (encodeInt (of_nat len)) - 1"
    using encodeInt_read [OF a(3) l] by metis
  have ne: "length (encodeInt (of_nat len)) \<ge> 1"
    by (simp add: encodeInt_def)
  have lo: "(m OR 0x0F) AND 0xF0 = m" "(m OR 0x0F) AND 0x0F = 0x0F"
    using assms(2,3) by (simp_all add: bit.conj_disj_distrib2)
  have up: "unat (of_nat p + 1 :: 64 word) = p + 1"
    using unat_of_nat_64 [of "p + 1"] im(1) l by (simp add: add.commute)
  have ds: "\<not> dsize data \<le> of_nat p + 1"
    using dsize_le [of "p + 1" data] im(1) l by (simp add: add.commute)
  have "readCount data 0x0F (of_nat p + 1) ok
      = (of_nat len, of_nat p + 1 + 1 + of_nat (2 ^ unat (im AND 0x0F)), ok)"
    using im(2,3) ds up unfolding readCount_def Let_def by (simp add: add.commute del: of_nat_power)
  also have "of_nat p + 1 + 1 + of_nat (2 ^ unat (im AND 0x0F))
      = (of_nat (p + length (encodeMarkerLen m len)) :: 64 word)"
  proof -
    have "p + 1 + 1 + 2 ^ unat (im AND 0x0F) = p + length (encodeMarkerLen m len)"
      using im(4) ne False by (simp add: encodeMarkerLen_def)
    then show ?thesis by (metis of_nat_1 of_nat_add)
  qed
  finally show thesis using a lo by (intro that [of "m OR 0x0F"]) simp_all
qed

lemma be_bytes_widen: "be_bytes n (ucast (w :: 32 word) :: 64 word) = be_bytes n w"
proof (induction n)
  case (Suc n)
  have "(ucast (drop_bit (8 * n) (ucast w :: 64 word)) :: byte) = ucast (drop_bit (8 * n) w)"
    by (rule bit_word_eqI) (auto simp: bit_simps dest: bit_imp_le_length)
  with Suc show ?case by simp
qed simp

lemma be_val_appendRef: "r < 2 ^ 32 \<Longrightarrow> be_val (appendRef r) = of_nat r"
proof -
  assume r: "r < 2 ^ 32"
  have "(ucast (of_nat r :: 32 word) :: 64 word) = of_nat r"
    using r by (simp add: word_unat_eq_iff unat_word_of_nat unsigned_ucast_eq take_bit_nat_eq_self)
  then have "appendRef r = be_bytes 4 (of_nat r :: 64 word)"
    unfolding appendRef_def by (metis be_bytes_widen)
  with r show ?thesis by (simp add: be_val_nat)
qed

lemma length_appendRef [simp, wire_length]: "length (appendRef r) = 4"
  by (simp add: appendRef_def)

lemma arr_loop_ok:
  "(\<And>i. i \<in> set is \<Longrightarrow> ref i True = (r i, True) \<and> obj (r i) True = (Some (vs ! i), True)) \<Longrightarrow>
    arr_loop obj ref is True = (Some (map (nth vs) is), True)"
  by (induction "is") auto

lemma dict_loop_ok:
  "(\<And>i. i \<in> set is \<Longrightarrow> kref i True = (kr i, True) \<and> vref i True = (vr i, True)
     \<and> obj (kr i) True = (Some (VStr (fst (es ! i))), True) \<and> obj (vr i) True = (Some (snd (es ! i)), True)) \<Longrightarrow>
    dict_loop obj kref vref is True = (Some (map (nth es) is), True)"
  by (induction "is") (auto simp: asStr_def)

section \<open>Decoding a stored table\<close>

fun bp_depth :: "pvalue \<Rightarrow> nat" where
  "bp_depth (VArr vs) = Suc (foldr max (map bp_depth vs) 0)"
| "bp_depth (VDict es) = Suc (foldr max (map (\<lambda>e. bp_depth (snd e)) es) 0)"
| "bp_depth v = 1"

lemma foldr_max_ge: "x \<in> set xs \<Longrightarrow> (x :: nat) \<le> foldr max xs 0"
  by (induction xs) auto

lemma bp_depth_pos: "1 \<le> bp_depth v"
  by (cases v) auto

lemma bp_depth_arr: "j < length vs \<Longrightarrow> bp_depth (vs ! j) < bp_depth (VArr vs)"
  using foldr_max_ge [of "bp_depth (vs ! j)" "map bp_depth vs"] by (auto simp: less_Suc_eq_le)

lemma bp_depth_dict: "j < length es \<Longrightarrow> bp_depth (snd (es ! j)) < bp_depth (VDict es)"
  using foldr_max_ge [of "bp_depth (snd (es ! j))" "map (\<lambda>e. bp_depth (snd e)) es"]
  by (auto simp: less_Suc_eq_le)

definition bp_view :: "Decoder \<Rightarrow> bytes list \<Rightarrow> bool" where
  "bp_view D T \<longleftrightarrow> length (dec_d D) < 2 ^ 32 \<and> refSize D = 4 \<and> numObjects D = of_nat (length T)
     \<and> length T \<le> length (dec_d D)
     \<and> (\<forall>i < length T. \<exists>p. dec_offsets D ! i = of_nat p \<and> p < length (dec_d D) \<and> at (dec_d D) p (T ! i))"

lemma dsize_less: "p < 2 ^ 64 \<Longrightarrow> length data < 2 ^ 64 \<Longrightarrow> dsize data < of_nat p \<longleftrightarrow> length data < p"
  by (simp add: dsize_def word_less_nat_alt unat_word_of_nat)

lemma bp_view_entry:
  assumes "bp_view D T" and "i < length T"
  obtains p where "\<not> numObjects D \<le> of_nat i" "dec_offsets D ! unat (of_nat i :: 64 word) = of_nat p"
    "\<not> dsize (dec_d D) \<le> of_nat p" "unat (of_nat p :: 64 word) = p" "at (dec_d D) p (T ! i)"
    "p < length (dec_d D)" "length (dec_d D) < 2 ^ 32"
proof -
  obtain p where p: "dec_offsets D ! i = of_nat p" "p < length (dec_d D)" "at (dec_d D) p (T ! i)"
    using assms by (auto simp: bp_view_def)
  have b: "length (dec_d D) < 2 ^ 32" "length T \<le> length (dec_d D)" "numObjects D = of_nat (length T)"
    using assms(1) by (auto simp: bp_view_def)
  show thesis
  proof (rule that)
    show "\<not> numObjects D \<le> of_nat i"
      using b assms(2) by (simp add: of_nat_le_64)
    show "dec_offsets D ! unat (of_nat i :: 64 word) = of_nat p"
      using p(1) b assms(2) by (simp add: unat_of_nat_64)
    show "\<not> dsize (dec_d D) \<le> of_nat p"
      using p(2) b(1) by (simp add: dsize_le)
    show "unat (of_nat p :: 64 word) = p"
      using p(2) b(1) by (simp add: unat_of_nat_64)
  qed (use p b in auto)
qed

lemma readBE_refs:
  assumes "at data p (concat (map appendRef refs))" and "j < length refs" and "length data < 2 ^ 32"
    and "refs ! j < 2 ^ 32" and "k = p + j * 4"
  shows "readBE data (of_nat k) 4 ok = (of_nat (refs ! j), ok)"
proof -
  have "at data k (appendRef (refs ! j))"
    unfolding assms(5) by (rule at_concat_nth [OF assms(1,2)]) simp
  moreover have "length data < 2 ^ 64" using assms(3) by simp
  ultimately have "readBE data (of_nat k) 4 ok = (be_val (appendRef (refs ! j)), ok)"
    by (rule readBE_at) simp
  then show ?thesis by (simp only: be_val_appendRef [OF assms(4)])
qed

lemma bp_object_leaf:
  assumes "bp_view D T" and "i < length T" and "bp_leaf v = Some (T ! i)" and "levels \<noteq> 0"
  shows "bp_object levels D (of_nat i) True = (Some v, True)"
proof -
  obtain l where l: "levels = Suc l" using assms(4) by (cases levels) auto
  obtain p where p: "\<not> numObjects D \<le> of_nat i" "dec_offsets D ! unat (of_nat i :: 64 word) = of_nat p"
      "\<not> dsize (dec_d D) \<le> of_nat p" "unat (of_nat p :: 64 word) = p" "at (dec_d D) p (T ! i)"
      "p < length (dec_d D)" "length (dec_d D) < 2 ^ 32"
    using bp_view_entry [OF assms(1,2)] by metis
  have ld: "length (dec_d D) < 2 ^ 64" using p(7) by simp
  note step = l bp_object.simps(2) Let_def p(1-4)
  have blob: "bp_object levels D (of_nat i) True = (Some v', True)"
    if m: "m = 0x40 \<or> m = 0x50" and t: "T ! i = encodeMarkerLen m (length b) @ b"
      and v': "v' = (if m = 0x40 then VData b else VStr (toStr b))" for m b v'
  proof -
    have a: "at (dec_d D) p (encodeMarkerLen m (length b))"
        "at (dec_d D) (p + length (encodeMarkerLen m (length b))) b"
      using p(5) t by (simp_all add: at_append)
    have q: "p + length (encodeMarkerLen m (length b)) + length b \<le> length (dec_d D)"
      using at_le [OF a(2)] by simp
    define q where "q = p + length (encodeMarkerLen m (length b))"
    have ml: "m AND 0xF0 = m" "m AND 0x0F = 0" using m by auto
    obtain mk where mk: "dec_d D ! p = mk" "mk AND 0xF0 = m"
        "readCount (dec_d D) (mk AND 0x0F) (of_nat p + 1) True = (of_nat (length b), of_nat q, True)"
      using readCount_marker [OF a(1) ml p(7), of True] q p(7) q_def by auto
    have c: "\<not> dsize (dec_d D) < of_nat (length b)" "\<not> dsize (dec_d D) < of_nat (q + length b)"
      using q p(7) ld by (simp_all add: dsize_less q_def del: of_nat_add)
    have u: "unat (of_nat (length b) :: 64 word) = length b" "unat (of_nat q :: 64 word) = q"
      using q p(7) by (simp_all add: unat_of_nat_64 q_def del: of_nat_add)
    show ?thesis
      using m mk c u at_take [OF a(2)] v' by (auto simp: step q_def [symmetric])
  qed
  show ?thesis
  proof (cases v)
    case (VBool b)
    with assms(3) p(5) have "dec_d D ! p = (if b then 0x09 else 0x08)" by (auto simp: at_Cons dest!: sym [of _ "T ! i"])
    then show ?thesis using VBool by (cases b) (simp_all add: step)
  next
    case (VInt w)
    with assms(3) p(5) have "at (dec_d D) p (encodeInt w)" by simp
    from encodeInt_read [OF this ld, of True] obtain m where "dec_d D ! p = m" "m AND 0xF0 = 0x10"
        "readBE (dec_d D) (of_nat p + 1) (2 ^ unat (m AND 0x0F)) True = (w, True)" by metis
    then show ?thesis using VInt by (simp add: step)
  next
    case (VReal w)
    with assms(3) p(5) have a: "dec_d D ! p = 0x23" "at (dec_d D) (p + 1) (be_bytes 8 w)"
      by (auto simp: at_Cons dest!: sym [of _ "T ! i"])
    have "readBE (dec_d D) (of_nat p + 1) 8 True = (w, True)"
      using readBE_at [OF a(2) ld, of 8 True] by (simp add: add.commute)
    then show ?thesis using VReal a by (simp add: step)
  next
    case (VStr s)
    with assms(3) blob [of "0x50" "toBytes s" v] show ?thesis by simp
  next
    case (VData b)
    with assms(3) blob [of "0x40" b v] show ?thesis by simp
  qed (use assms(3) in simp_all)
qed

lemma bp_stored_index: "bp_stored T i v \<Longrightarrow> i < length T"
  by (induction rule: bp_stored.induct) simp_all

text \<open>The state of the decoder in front of the references of a container with \<open>n\<close> children.\<close>

lemma bp_container:
  assumes "bp_view D T" and "i < length T" and "T ! i = encodeMarkerLen m n @ bs"
    and "m AND 0xF0 = m" and "m AND 0x0F = 0" and "n \<le> length T"
  obtains p q mk where
    "\<not> numObjects D \<le> of_nat i" "dec_offsets D ! unat (of_nat i :: 64 word) = of_nat p"
    "\<not> dsize (dec_d D) \<le> of_nat p" "unat (of_nat p :: 64 word) = p"
    "dec_d D ! p = mk" "mk AND 0xF0 = m"
    "readCount (dec_d D) (mk AND 0x0F) (of_nat p + 1) True = (of_nat n, of_nat q, True)"
    "at (dec_d D) q bs" "\<not> numObjects D < of_nat n" "unat (of_nat n :: 64 word) = n" "refSize D = 4"
    "\<not> dsize (dec_d D) < of_nat (q + length bs)"
proof -
  obtain p where p: "\<not> numObjects D \<le> of_nat i" "dec_offsets D ! unat (of_nat i :: 64 word) = of_nat p"
      "\<not> dsize (dec_d D) \<le> of_nat p" "unat (of_nat p :: 64 word) = p" "at (dec_d D) p (T ! i)"
      "p < length (dec_d D)" "length (dec_d D) < 2 ^ 32"
    using bp_view_entry [OF assms(1,2)] by metis
  have b: "length T \<le> length (dec_d D)" "numObjects D = of_nat (length T)" "refSize D = 4"
    using assms(1) by (auto simp: bp_view_def)
  have a: "at (dec_d D) p (encodeMarkerLen m n)" "at (dec_d D) (p + length (encodeMarkerLen m n)) bs"
    using p(5) assms(3) by (simp_all add: at_append)
  have n: "n < 2 ^ 32" using assms(6) b(1) p(7) by linarith
  obtain mk where mk: "dec_d D ! p = mk" "mk AND 0xF0 = m"
      "readCount (dec_d D) (mk AND 0x0F) (of_nat p + 1) True
         = (of_nat n, of_nat (p + length (encodeMarkerLen m n)), True)"
    using readCount_marker [OF a(1) assms(4,5) p(7) n, of True] by metis
  have "\<not> numObjects D < of_nat n" "unat (of_nat n :: 64 word) = n"
    using assms(6) b p(7) n by (simp_all add: word_less_nat_alt unat_word_of_nat)
  moreover have "\<not> dsize (dec_d D) < of_nat (p + length (encodeMarkerLen m n) + length bs)"
    using at_le [OF a(2)] p(7) by (subst dsize_less) (simp_all)
  ultimately show thesis using p(1-4) mk a(2) b(3) that by metis
qed

lemma word_mult_4: "(of_nat q :: 64 word) + of_nat j * 4 = of_nat (q + j * 4)"
  by simp

lemma bp_object_arr:
  assumes v: "bp_view D T" and i: "i < length T" and n: "length vs \<le> length T"
    and t: "T ! i = encodeMarkerLen 0xA0 (length refs) @ concat (map appendRef refs)"
    and len: "length refs = length vs"
    and ok: "\<And>j. j < length vs \<Longrightarrow> refs ! j < length T
      \<and> bp_object l D (of_nat (refs ! j)) True = (Some (vs ! j), True)"
  shows "bp_object (Suc l) D (of_nat i) True = (Some (VArr vs), True)"
proof -
  have mm: "(0xA0 :: byte) AND 0xF0 = 0xA0" "(0xA0 :: byte) AND 0x0F = 0" by simp_all
  obtain p q mk where c: "\<not> numObjects D \<le> of_nat i"
      "dec_offsets D ! unat (of_nat i :: 64 word) = of_nat p" "\<not> dsize (dec_d D) \<le> of_nat p"
      "unat (of_nat p :: 64 word) = p" "dec_d D ! p = mk" "mk AND 0xF0 = 0xA0"
      "readCount (dec_d D) (mk AND 0x0F) (of_nat p + 1) True = (of_nat (length vs), of_nat q, True)"
      "at (dec_d D) q (concat (map appendRef refs))" "\<not> numObjects D < of_nat (length vs)"
      "unat (of_nat (length vs) :: 64 word) = length vs" "refSize D = 4"
      "\<not> dsize (dec_d D) < of_nat (q + length (concat (map appendRef refs)))"
    using bp_container [OF v i t [unfolded len] mm n] by blast
  have dl: "length (dec_d D) < 2 ^ 32" "length T \<le> length (dec_d D)"
    using v by (auto simp: bp_view_def)
  have sz: "\<not> dsize (dec_d D) < of_nat q + of_nat (length vs) * 4"
    using c(12) length_concat_map_const [of refs appendRef 4] len by (simp add: mult.commute)
  have rd: "readBE (dec_d D) (of_nat q + of_nat j * 4) 4 True = (of_nat (refs ! j), True)"
    if "j < length vs" for j
    unfolding word_mult_4 by (rule readBE_refs [OF c(8)]) (use that len dl ok [OF that] in auto)
  have "arr_loop (bp_object l D) (\<lambda>j. readBE (dec_d D) (of_nat q + of_nat j * 4) 4) [0..<length vs] True
      = (Some (map (nth vs) [0..<length vs]), True)"
    by (rule arr_loop_ok [where r = "\<lambda>j. of_nat (refs ! j)"]) (simp add: rd ok)
  then show ?thesis
    using c sz by (simp add: bp_object.simps(2) Let_def map_nth)
qed

lemma bp_object_dict:
  assumes v: "bp_view D T" and i: "i < length T" and n: "length es \<le> length T"
    and t: "T ! i = encodeMarkerLen 0xD0 (length es) @ concat (map appendRef krefs)
      @ concat (map appendRef vrefs)"
    and len: "length krefs = length es" "length vrefs = length es"
    and ok: "\<And>j. j < length es \<Longrightarrow> krefs ! j < length T \<and> vrefs ! j < length T
      \<and> bp_object l D (of_nat (krefs ! j)) True = (Some (VStr (fst (es ! j))), True)
      \<and> bp_object l D (of_nat (vrefs ! j)) True = (Some (snd (es ! j)), True)"
  shows "bp_object (Suc l) D (of_nat i) True = (Some (VDict es), True)"
proof -
  have mm: "(0xD0 :: byte) AND 0xF0 = 0xD0" "(0xD0 :: byte) AND 0x0F = 0" by simp_all
  obtain p q mk where c: "\<not> numObjects D \<le> of_nat i"
      "dec_offsets D ! unat (of_nat i :: 64 word) = of_nat p" "\<not> dsize (dec_d D) \<le> of_nat p"
      "unat (of_nat p :: 64 word) = p" "dec_d D ! p = mk" "mk AND 0xF0 = 0xD0"
      "readCount (dec_d D) (mk AND 0x0F) (of_nat p + 1) True = (of_nat (length es), of_nat q, True)"
      "at (dec_d D) q (concat (map appendRef krefs) @ concat (map appendRef vrefs))"
      "\<not> numObjects D < of_nat (length es)"
      "unat (of_nat (length es) :: 64 word) = length es" "refSize D = 4"
      "\<not> dsize (dec_d D) < of_nat (q + length (concat (map appendRef krefs) @ concat (map appendRef vrefs)))"
    using bp_container [OF v i t mm n] by blast
  have dl: "length (dec_d D) < 2 ^ 32" "length T \<le> length (dec_d D)"
    using v by (auto simp: bp_view_def)
  have kl: "length (concat (map appendRef krefs)) = length es * 4"
      "length (concat (map appendRef vrefs)) = length es * 4"
    using length_concat_map_const [of krefs appendRef 4] length_concat_map_const [of vrefs appendRef 4] len
    by (simp_all add: mult.commute)
  have a: "at (dec_d D) q (concat (map appendRef krefs))"
      "at (dec_d D) (q + length es * 4) (concat (map appendRef vrefs))"
    using c(8) kl by (simp_all add: at_append)
  have "q + length es * 4 + length es * 4 = q + 2 * length es * 4" by simp
  then have sz: "\<not> dsize (dec_d D) < of_nat q + 2 * of_nat (length es) * 4"
    using c(12) kl by (metis add.assoc length_append of_nat_add of_nat_mult of_nat_numeral)
  have rk: "readBE (dec_d D) (of_nat q + of_nat j * 4) 4 True = (of_nat (krefs ! j), True)"
    if "j < length es" for j
    unfolding word_mult_4 by (rule readBE_refs [OF a(1)]) (use that len dl ok [OF that] in auto)
  have rv: "readBE (dec_d D) (of_nat q + (of_nat (length es) + of_nat j) * 4) 4 True = (of_nat (vrefs ! j), True)"
    if "j < length es" for j
    unfolding of_nat_add [symmetric] word_mult_4
    by (rule readBE_refs [OF a(2), of j]) (use that len dl ok [OF that] in auto)
  have "dict_loop (bp_object l D) (\<lambda>j. readBE (dec_d D) (of_nat q + of_nat j * 4) 4)
        (\<lambda>j. readBE (dec_d D) (of_nat q + (of_nat (length es) + of_nat j) * 4) 4) [0..<length es] True
      = (Some (map (nth es) [0..<length es]), True)"
    by (rule dict_loop_ok [where kr = "\<lambda>j. of_nat (krefs ! j)" and vr = "\<lambda>j. of_nat (vrefs ! j)"])
      (simp add: rk rv [unfolded distrib_right] ok)
  then show ?thesis
    using c sz by (simp add: bp_object.simps(2) Let_def map_nth)
qed

lemma bp_object_stored:
  assumes "bp_stored T i v" and "bp_view D T" and "bp_depth v \<le> levels"
  shows "bp_object levels D (of_nat i) True = (Some v, True)"
  using assms(1,3)
proof (induction arbitrary: levels rule: bp_stored.induct)
  case (leaf i v)
  with assms(2) bp_depth_pos [of v] show ?case by (intro bp_object_leaf) auto
next
  case (arr i refs vs)
  then obtain l where l: "levels = Suc l" by (cases levels) auto
  show ?case unfolding l
  proof (rule bp_object_arr [OF assms(2) arr.hyps])
    fix j assume j: "j < length vs"
    have d: "bp_depth (vs ! j) \<le> l" using bp_depth_arr [OF j] arr.prems l by linarith
    from arr.IH j have "bp_stored T (refs ! j) (vs ! j) \<and>
        (\<forall>x. bp_depth (vs ! j) \<le> x \<longrightarrow> bp_object x D (of_nat (refs ! j)) True = (Some (vs ! j), True))"
      by (auto dest: list_all2_nthD2)
    with d show "refs ! j < length T \<and> bp_object l D (of_nat (refs ! j)) True = (Some (vs ! j), True)"
      by (auto dest: bp_stored_index)
  qed (use arr.IH in \<open>simp add: list_all2_lengthD\<close>)
next
  case (dict i krefs es vrefs)
  then obtain l where l: "levels = Suc l" by (cases levels) auto
  have kl: "length krefs = length es" "length vrefs = length es"
    using dict.IH by (auto dest: list_all2_lengthD)
  show ?case unfolding l
  proof (rule bp_object_dict [OF assms(2) dict.hyps kl])
    fix j assume j: "j < length es"
    have d: "bp_depth (snd (es ! j)) \<le> l" using bp_depth_dict [OF j] dict.prems l by linarith
    have d1: "bp_depth (VStr k) \<le> l" for k
      using d bp_depth_pos [of "snd (es ! j)"] by simp
    from dict.IH(1) j d1 have "krefs ! j < length T \<and>
        bp_object l D (of_nat (krefs ! j)) True = (Some (VStr (fst (es ! j))), True)"
      by (auto dest!: list_all2_nthD2 [where p = j] dest: bp_stored_index)
    moreover from dict.IH(2) j d have "vrefs ! j < length T \<and>
        bp_object l D (of_nat (vrefs ! j)) True = (Some (snd (es ! j)), True)"
      by (auto dest!: list_all2_nthD2 [where p = j] dest: bp_stored_index)
    ultimately show "krefs ! j < length T \<and> vrefs ! j < length T
        \<and> bp_object l D (of_nat (krefs ! j)) True = (Some (VStr (fst (es ! j))), True)
        \<and> bp_object l D (of_nat (vrefs ! j)) True = (Some (snd (es ! j)), True)" by blast
  qed
qed

section \<open>The whole file\<close>

lemma length_bp_header [simp]: "length bp_header = 8"
  by (simp add: bp_header_def)

lemma length_bp_trailer [simp]: "length (bp_trailer n s) = 32"
  by (simp add: bp_trailer_def)

lemma length_bp_offsets [simp]: "length (bp_offsets s T) = length T"
  by (induction T arbitrary: s) auto

lemma bp_offsets_nth:
  "i < length T \<Longrightarrow> bp_offsets s T ! i = s + length (concat (take i T))"
  by (induction T arbitrary: s i) (auto simp: nth_Cons split: nat.splits)

lemma concat_at:
  assumes "i < length T" and "at data p (concat T)"
  shows "at data (p + length (concat (take i T))) (T ! i)"
proof -
  have "concat T = concat (take i T) @ T ! i @ concat (drop (Suc i) T)"
    using assms(1) by (metis concat.simps(2) concat_append id_take_nth_drop)
  with assms(2) show ?thesis by (simp add: at_append)
qed

lemma length_take_concat: "length (concat (take i T)) \<le> length (concat T)"
  by (metis append_take_drop_id concat_append le_add1 length_append)

abbreviation bp_offtab :: "bytes list \<Rightarrow> bytes" where
  "bp_offtab T \<equiv> concat (map (\<lambda>off. be_bytes 4 (of_nat off :: 64 word)) (bp_offsets 8 T))"

definition bp_file :: "bytes list \<Rightarrow> bytes" where
  "bp_file T = bp_header @ concat T @ bp_offtab T @ bp_trailer (length T) (8 + length (concat T))"

lemma bp_encode_file: "bp_encode v = bp_file (bp_add v [])"
  by (simp add: bp_encode_def bp_file_def Let_def)

lemma length_bp_offtab: "length (bp_offtab T) = 4 * length T"
  using length_concat_map_const [of "bp_offsets 8 T" "\<lambda>off. be_bytes 4 (of_nat off :: 64 word)" 4] by simp

lemma length_bp_file: "length (bp_file T) = 40 + length (concat T) + 4 * length T"
  by (simp add: bp_file_def length_bp_offtab)

lemma at_bp_file:
  "at (bp_file T) 0 bp_header" "at (bp_file T) 8 (concat T)"
  "at (bp_file T) (8 + length (concat T)) (bp_offtab T)"
  "at (bp_file T) (length (bp_file T) - 32) (bp_trailer (length T) (8 + length (concat T)))"
proof -
  have "at (bp_file T) 0 (bp_file T)" by (simp add: at_def)
  then have a: "at (bp_file T) 0 (bp_header @ concat T @ bp_offtab T
      @ bp_trailer (length T) (8 + length (concat T)))"
    by (simp only: bp_file_def [of T])
  then show "at (bp_file T) 0 bp_header" "at (bp_file T) 8 (concat T)"
      "at (bp_file T) (8 + length (concat T)) (bp_offtab T)"
    by (simp_all only: at_append length_bp_header) simp_all
  have "length (bp_file T) - 32 = 8 + length (concat T) + length (bp_offtab T)"
    by (simp add: length_bp_file length_bp_offtab)
  with a show "at (bp_file T) (length (bp_file T) - 32) (bp_trailer (length T) (8 + length (concat T)))"
    by (simp only: at_append length_bp_header) simp
qed

lemma bp_read_offsets_file:
  assumes "length (bp_file T) < 2 ^ 32" and "\<And>i. i \<in> set is \<Longrightarrow> i < length T"
  shows "bp_read_offsets (bp_file T) (of_nat (8 + length (concat T))) 4 is True
    = (map (\<lambda>i. of_nat (bp_offsets 8 T ! i)) is, True)"
  using assms(2)
proof (induction "is")
  case (Cons i "is")
  then have i: "i < length T" by simp
  let ?f = "\<lambda>off. be_bytes 4 (of_nat off :: 64 word)"
  have "at (bp_file T) (8 + length (concat T) + i * 4) (?f (bp_offsets 8 T ! i))"
    by (rule at_concat_nth [OF at_bp_file(3)]) (simp_all add: i)
  moreover have "length (bp_file T) < 2 ^ 64" using assms(1) by simp
  ultimately have "readBE (bp_file T) (of_nat (8 + length (concat T) + i * 4)) 4 True
      = (be_val (?f (bp_offsets 8 T ! i)), True)"
    by (rule readBE_at) simp
  moreover have "bp_offsets 8 T ! i < 2 ^ 32"
    using bp_offsets_nth [OF i, of 8] length_take_concat [of i T] assms(1) by (simp add: length_bp_file)
  ultimately have "readBE (bp_file T) (of_nat (8 + length (concat T)) + of_nat i * ucast (4 :: byte)) (unat (4 :: byte)) True
      = (of_nat (bp_offsets 8 T ! i), True)"
    by (simp add: be_val_nat)
  with Cons show ?case by simp
qed simp

lemma parseTrailer_file:
  assumes "length (bp_file T) < 2 ^ 32"
  shows "parseTrailer (bp_file T) = Some \<lparr>dec_d = bp_file T, offsetSize = 4, refSize = 4,
    numObjects = of_nat (length T), dec_offsets = map of_nat (bp_offsets 8 T)\<rparr>"
proof -
  let ?d = "bp_file T" and ?s = "8 + length (concat T)"
  define tr where "tr = length (bp_file T) - 32"
  have L: "length ?d = 40 + length (concat T) + 4 * length T" "length ?d < 2 ^ 64"
    using assms by (simp_all add: length_bp_file)
  have a: "at ?d tr (replicate 6 0 @ [4, 4] @ be_bytes 8 (of_nat (length T) :: 64 word)
      @ be_bytes 8 (0 :: 64 word) @ be_bytes 8 (of_nat ?s :: 64 word))"
    using at_bp_file(4) [of T] by (simp only: bp_trailer_def tr_def)
  then have b: "?d ! (tr + 6) = 4" "?d ! (tr + 7) = 4"
      "at ?d (tr + 8) (be_bytes 8 (of_nat (length T) :: 64 word))"
      "at ?d (tr + 24) (be_bytes 8 (of_nat ?s :: 64 word))"
    by (auto simp: at_append at_Cons add.assoc add.commute [of tr])
  have hd: "take 8 ?d = bp_header"
    using at_take [OF at_bp_file(1) [of T]] by simp
  have n: "readBE ?d (of_nat (tr + 8)) 8 True = (of_nat (length T), True)"
    using readBE_at [OF b(3) L(2), of 8 True] by simp
  have s: "readBE ?d (of_nat (tr + 24)) 8 True = (of_nat ?s, True)"
    using readBE_at [OF b(4) L(2), of 8 True] by simp
  have le: "\<not> dsize ?d < of_nat ?s" "\<not> dsize ?d < of_nat (length T)"
    using L by (simp_all add: dsize_less del: of_nat_add)
  have "unat (dsize ?d - of_nat ?s) = length ?d - ?s"
    using L by (subst unat_sub) (simp_all add: dsize_def of_nat_le_64 unat_of_nat_64 del: of_nat_add)
  then have "\<not> unat ((dsize ?d - of_nat ?s) div 4) < length T"
    using L by (simp add: unat_div)
  then have dv: "\<not> (dsize ?d - of_nat ?s) div 4 < of_nat (length T)"
    using L by (simp add: word_less_nat_alt unat_of_nat_64)
  have off: "bp_read_offsets ?d (of_nat ?s) 4 [0..<length T] True = (map of_nat (bp_offsets 8 T), True)"
  proof -
    have "map (\<lambda>i. of_nat (bp_offsets 8 T ! i)) [0..<length T] = (map of_nat (bp_offsets 8 T) :: 64 word list)"
      by (rule nth_equalityI) simp_all
    then show ?thesis using bp_read_offsets_file [OF assms, of "[0..<length T]"] by simp
  qed
  have u: "unat (of_nat (length T) :: 64 word) = length T"
    using L by (simp add: unat_of_nat_64)
  show ?thesis
    using L hd b n s le dv off u unfolding parseTrailer_def tr_def [symmetric] Let_def
    by (simp del: of_nat_add)
qed

lemma bp_decode_stored:
  assumes "bp_stored T 0 v" and "length (bp_file T) < 2 ^ 32" and "bp_depth v \<le> 33"
  shows "bp_decode (bp_file T) = Some v"
proof -
  let ?D = "\<lparr>dec_d = bp_file T, offsetSize = 4, refSize = 4,
    numObjects = of_nat (length T), dec_offsets = map of_nat (bp_offsets 8 T)\<rparr>"
  have "bp_view ?D T"
    unfolding bp_view_def
  proof (intro conjI allI impI)
    fix i assume i: "i < length T"
    have "at (bp_file T) (bp_offsets 8 T ! i) (T ! i)"
      using concat_at [OF i at_bp_file(2)] bp_offsets_nth [OF i, of 8] by simp
    moreover have "bp_offsets 8 T ! i < length (bp_file T)"
      using bp_offsets_nth [OF i, of 8] length_take_concat [of i T] by (simp add: length_bp_file)
    ultimately show "\<exists>p. dec_offsets ?D ! i = of_nat p \<and> p < length (dec_d ?D) \<and> at (dec_d ?D) p (T ! i)"
      using i by auto
  qed (use assms(2) in \<open>simp_all add: length_bp_file\<close>)
  from bp_object_stored [OF assms(1) this assms(3)] show ?thesis
    by (simp add: bp_decode_def parseTrailer_file [OF assms(2)])
qed

lemma bp_decode_encode:
  assumes "bp_depth v \<le> 33" and "length (bp_encode v) < 2 ^ 32"
  shows "bp_decode (bp_encode v) = Some v"
proof -
  obtain T where T: "bp_add v [] = T" "bp_holds 0 T 0 v"
    using bp_add_table(1) [of v "[]"] by auto
  from bp_holdsD [OF T(2), of "[]" "[]"] have "bp_stored T 0 v" by simp
  with assms show ?thesis by (simp add: bp_encode_file T(1) bp_decode_stored)
qed

interpretation bplist: codec bp_encode bp_decode "\<lambda>v. bp_depth v \<le> 33 \<and> length (bp_encode v) < 2 ^ 32"
  by unfold_locales (simp add: bp_decode_encode)

text \<open>
  C25. A binary property list survives encoding: any value nested no deeper than the decoder's
  limit (32 levels below the root) whose encoding stays under the 4-byte offset range is
  decoded to itself.
\<close>

theorem bplist_roundtrip:
  assumes "bp_depth v \<le> 33" and "length (bp_encode v) < 2 ^ 32"
  shows "bp_decode (bp_encode v) = Some v"
  using assms by (intro bplist.dec_enc) simp

text \<open>A dictionary inside an array inside a dictionary, as a SETUP request has it.\<close>

definition bp_sample :: pvalue where
  "bp_sample = VDict [(''streams'', VArr [VDict [(''type'', VInt 96), (''shk'', VData [1, 2, 3])]]),
     (''isMultiSelectAirPlay'', VBool True), (''rate'', VInt (- 1)), (''name'', VStr ''a longer string than 14'')]"

theorem bplist_roundtrip_witness:
  "bp_depth bp_sample \<le> 33 \<and> length (bp_encode bp_sample) < 2 ^ 32 \<and> bp_decode (bp_encode bp_sample) = Some bp_sample"
proof -
  have "bp_depth bp_sample \<le> 33" by code_simp
  moreover have "length (bp_encode bp_sample) = 243" by code_simp
  ultimately show ?thesis using bplist_roundtrip [of bp_sample] by simp
qed

section \<open>What the bounds do not catch\<close>

text \<open>
  A file of \<open>n\<close> arrays, each referring twice to the next, and one boolean. Every array passes
  the decoder's checks on its own; the values share nothing once decoded.
\<close>

fun bp_doubling :: "nat \<Rightarrow> pvalue" where
  "bp_doubling 0 = VBool True"
| "bp_doubling (Suc n) = VArr [bp_doubling n, bp_doubling n]"

definition bp_doubling_table :: "nat \<Rightarrow> bytes list" where
  "bp_doubling_table n = map (\<lambda>i. 0xA2 # appendRef (i + 1) @ appendRef (i + 1)) [0..<n] @ [[0x09]]"

fun bp_leaves :: "pvalue \<Rightarrow> nat" where
  "bp_leaves (VArr vs) = sum_list (map bp_leaves vs)"
| "bp_leaves (VDict es) = sum_list (map (\<lambda>e. bp_leaves (snd e)) es)"
| "bp_leaves v = 1"

lemma bp_doubling_stored:
  "k \<le> n \<Longrightarrow> bp_stored (bp_doubling_table n) (n - k) (bp_doubling k)"
proof (induction k)
  case 0
  show ?case by (rule bp_stored.leaf) (simp_all add: bp_doubling_table_def nth_append)
next
  case (Suc k)
  have "n - Suc k + 1 = n - k" using Suc.prems by simp
  then show ?case
    using Suc unfolding bp_doubling.simps
    by (intro bp_stored.arr [where refs = "[n - k, n - k]"])
      (auto simp: bp_doubling_table_def nth_append encodeMarkerLen_def)
qed

lemma bp_doubling_depth: "bp_depth (bp_doubling n) = Suc n"
  by (induction n) auto

text \<open>
  C33. The checks that the decoder's comments call a guard against denial of service do not
  bound its work: for every \<open>n\<close> up to the nesting limit there is a file of \<open>45 + 13 * n\<close> bytes
  that decodes to a value with \<open>2 ^ n\<close> leaves (461 bytes give more than four billion).
\<close>

theorem bplist_decode_exponential:
  assumes "n \<le> 32"
  shows "\<exists>data v. length data = 45 + 13 * n \<and> bp_decode data = Some v \<and> bp_leaves v = 2 ^ n"
proof -
  let ?T = "bp_doubling_table n"
  have c: "length (concat ?T) = 9 * n + 1" "length ?T = n + 1"
    by (simp_all add: bp_doubling_table_def length_concat comp_def sum_list_triv)
  have "bp_stored ?T 0 (bp_doubling n)" using bp_doubling_stored [of n n] by simp
  moreover have l: "length (bp_file ?T) = 45 + 13 * n" using c by (simp add: length_bp_file)
  ultimately have "bp_decode (bp_file ?T) = Some (bp_doubling n)"
    using assms by (intro bp_decode_stored) (simp_all add: bp_doubling_depth)
  moreover have "bp_leaves (bp_doubling n) = 2 ^ n" by (induction n) auto
  ultimately show ?thesis using l by blast
qed

theorem bplist_decode_exponential_witness:
  "\<exists>data v. length data = 461 \<and> bp_decode data = Some v \<and> bp_leaves v = 4294967296"
  using bplist_decode_exponential [of 32] by simp

text \<open>
  A number whose bytes run past the end of the file is not an error: the read clears the
  decoder's \<open>ok\<close> flag, nobody looks at it again, and the number decodes as 0. (The file's
  one object is its own last byte, \<open>0x13\<close>: an 8-byte integer with no byte left.)
\<close>

lemma bplist_overrun_reads_zero:
  "bp_decode (bp_header @ replicate 11 0 @ [0, 0, 0, 54] @ bp_trailer 1 19) = Some (VInt 0)"
  by code_simp

end
