(* ===== verification/Crypto.thy ===== *)
theory Crypto
  imports Creds
begin

text \<open>
  The crypto core, \<open>src/src/airplay_crypto.cpp\<close>: the AEAD wrapper with the HAP nonce layout, the
  X25519 wrapper with its small-order check, the Ed25519 wrappers, the SRP-6a client and the
  MD5 digest response. Mbed TLS and the vendored curve code are not under test here: their
  primitives are the fields of a record \<open>crypto\<close> every definition takes, and what is relied on
  of them is the named hypothesis \<open>crypto_ok\<close>. Bignums are natural numbers (Mbed TLS's are
  exact), with the two places where the code lets Mbed TLS refuse an operand written out.
\<close>

section \<open>Failures and primitives\<close>

text \<open>
  A thrown exception, a null pointer, a read past the end of a buffer: nothing in the library
  catches the first. \<open>Out_of_fuel\<close> marks the bound of a modelled loop and is not in the code.
\<close>

datatype fault = Exception string | Null_deref | Out_of_bounds | Out_of_fuel

type_synonym 'a result = "fault + 'a"

record crypto =
  c_sha512 :: "bytes \<Rightarrow> bytes"
  c_hkdf :: "string \<Rightarrow> string \<Rightarrow> bytes \<Rightarrow> nat \<Rightarrow> bytes"
  c_seal :: "bytes \<Rightarrow> bytes \<Rightarrow> bytes \<Rightarrow> bytes \<Rightarrow> bytes \<times> bytes"
  c_open :: "bytes \<Rightarrow> bytes \<Rightarrow> bytes \<Rightarrow> bytes \<Rightarrow> bytes \<Rightarrow> bytes option"
  c_x25519_base :: "bytes \<Rightarrow> bytes"
  c_x25519 :: "bytes \<Rightarrow> bytes \<Rightarrow> bytes"
  c_ed_keypair :: "bytes \<Rightarrow> bytes \<times> bytes"
  c_ed_sign :: "bytes \<Rightarrow> bytes \<Rightarrow> bytes \<Rightarrow> bytes"
  c_ed_verify :: "bytes \<Rightarrow> bytes \<Rightarrow> bytes \<Rightarrow> bool"
  c_md5 :: "bytes \<Rightarrow> bytes"
  c_random :: "nat \<Rightarrow> nat \<Rightarrow> bytes"
  c_mpi_max :: nat

text \<open>
  \<open>c_seal key nonce aad plaintext\<close> is ciphertext and tag, \<open>c_open key nonce aad ciphertext
  tag\<close> the authenticated plaintext; \<open>c_random k n\<close> the \<open>n\<close> bytes of the \<open>k\<close>-th draw;
  \<open>c_mpi_max\<close> the most bytes Mbed TLS reads into a bignum. What the sender relies on:
\<close>

definition crypto_ok :: "crypto \<Rightarrow> bool" where
  "crypto_ok C \<longleftrightarrow>
     (\<forall>key nonce aad pt. length (fst (c_seal C key nonce aad pt)) = length pt
        \<and> length (snd (c_seal C key nonce aad pt)) = 16
        \<and> c_open C key nonce aad (fst (c_seal C key nonce aad pt)) (snd (c_seal C key nonce aad pt)) = Some pt)
     \<and> (\<forall>salt info ikm n. length (c_hkdf C salt info ikm n) = n)
     \<and> (\<forall>b. length (c_sha512 C b) = 64)
     \<and> (\<forall>k n. length (c_random C k n) = n)
     \<and> (\<forall>a b. length (c_x25519 C a b) = 32) \<and> (\<forall>a. length (c_x25519_base C a) = 32)
     \<and> 384 \<le> c_mpi_max C"

lemma crypto_ok_simps:
  assumes "crypto_ok C"
  shows "length (fst (c_seal C key nonce aad pt)) = length pt"
    and "length (snd (c_seal C key nonce aad pt)) = 16"
    and "c_open C key nonce aad (fst (c_seal C key nonce aad pt)) (snd (c_seal C key nonce aad pt)) = Some pt"
    and "length (c_hkdf C salt info ikm n) = n" and "length (c_sha512 C b) = 64"
    and "length (c_random C k n) = n" and "length (c_x25519 C a b) = 32"
    and "length (c_x25519_base C a) = 32" and "384 \<le> c_mpi_max C"
  using assms by (simp_all add: crypto_ok_def)

section \<open>ChaCha20-Poly1305\<close>

definition counterNonce8 :: "64 word \<Rightarrow> bytes" where
  "counterNonce8 counter = map (\<lambda>i. ucast (drop_bit (8 * i) counter)) [0..<8]"

definition pad12 :: "bytes \<Rightarrow> bytes" where
  "pad12 nonce8 = replicate 4 0 @ take 8 nonce8 @ replicate (8 - min 8 (length nonce8)) 0"

definition chacha20Poly1305Encrypt :: "crypto \<Rightarrow> bytes \<Rightarrow> bytes \<Rightarrow> bytes \<Rightarrow> bytes \<Rightarrow> bytes result" where
  "chacha20Poly1305Encrypt C key nonce8 plaintext aad =
     (if length key \<noteq> 32 then Inl (Exception ''chacha key size'')
      else let (ct, tag) = c_seal C key (pad12 nonce8) aad plaintext in Inr (ct @ tag))"

definition chacha20Poly1305Decrypt :: "crypto \<Rightarrow> bytes \<Rightarrow> bytes \<Rightarrow> bytes \<Rightarrow> bytes \<Rightarrow> bytes option" where
  "chacha20Poly1305Decrypt C key nonce8 ct aad =
     (if length ct < 16 \<or> length key \<noteq> 32 then None
      else let plen = length ct - 16 in c_open C key (pad12 nonce8) aad (take plen ct) (drop plen ct))"

section \<open>Curves\<close>

record X25519KeyPair =
  kp_pub :: bytes
  kp_priv :: bytes

text \<open>The clamped copy of the drawn bytes is the private key.\<close>

definition x25519Generate :: "crypto \<Rightarrow> bytes \<Rightarrow> X25519KeyPair" where
  "x25519Generate C drawn =
     (let priv = drawn[0 := drawn ! 0 AND 248];
          priv = priv[31 := priv ! 31 AND 127];
          priv = priv[31 := priv ! 31 OR 64]
      in \<lparr>kp_pub = c_x25519_base C priv, kp_priv = priv\<rparr>)"

definition x25519SharedSecret :: "crypto \<Rightarrow> bytes \<Rightarrow> bytes \<Rightarrow> bytes" where
  "x25519SharedSecret C ourPriv32 theirPub32 =
     (if length ourPriv32 \<noteq> 32 \<or> length theirPub32 \<noteq> 32 then []
      else let out = c_x25519 C ourPriv32 theirPub32; acc = foldl (OR) 0 out
           in if acc = 0 then [] else out)"

definition ed25519PublicFromSeed :: "crypto \<Rightarrow> bytes \<Rightarrow> bytes result" where
  "ed25519PublicFromSeed C seed32 =
     (if length seed32 < 32 then Inl Out_of_bounds else Inr (fst (c_ed_keypair C (take 32 seed32))))"

definition ed25519Sign :: "crypto \<Rightarrow> bytes \<Rightarrow> bytes \<Rightarrow> bytes result" where
  "ed25519Sign C seed32 msg =
     (if length seed32 < 32 then Inl Out_of_bounds
      else let (pub, priv) = c_ed_keypair C (take 32 seed32) in Inr (c_ed_sign C msg pub priv))"

definition ed25519Verify :: "crypto \<Rightarrow> bytes \<Rightarrow> bytes \<Rightarrow> bytes \<Rightarrow> bool" where
  "ed25519Verify C pub32 msg sig64 =
     (if length pub32 \<noteq> 32 \<or> length sig64 \<noteq> 64 then False else c_ed_verify C sig64 msg pub32)"

section \<open>Bignums\<close>

function nat_bytes :: "nat \<Rightarrow> bytes" where
  "nat_bytes n = (if n = 0 then [] else nat_bytes (n div 256) @ [of_nat (n mod 256)])"
  by pat_completeness auto
termination by (relation "measure id") auto

declare nat_bytes.simps [simp del]

definition mpiToBytes :: "nat \<Rightarrow> bytes" where
  "mpiToBytes m = (if m = 0 then [0] else nat_bytes m)"

definition mpiToBytesPadded :: "nat \<Rightarrow> nat \<Rightarrow> bytes result" where
  "mpiToBytesPadded m len =
     (if len < length (nat_bytes m) then Inl (Exception ''airplay crypto: mpi_write_binary pad'')
      else Inr (replicate (len - length (nat_bytes m)) 0 @ nat_bytes m))"

definition bytes_nat :: "bytes \<Rightarrow> nat" where
  "bytes_nat b = foldl (\<lambda>v x. v * 256 + unat x) 0 b"

definition bytesToMpi :: "crypto \<Rightarrow> bytes \<Rightarrow> nat result" where
  "bytesToMpi C b =
     (if c_mpi_max C < length b then Inl (Exception ''airplay crypto: mpi_read_binary'') else Inr (bytes_nat b))"

text \<open>\<open>mbedtls_mpi_exp_mod\<close> by repeated squaring.\<close>

function pow_mod :: "nat \<Rightarrow> nat \<Rightarrow> nat \<Rightarrow> nat" where
  "pow_mod n b e =
     (if e = 0 then 1 mod n
      else let h = pow_mod n (b * b mod n) (e div 2) in if even e then h else h * b mod n)"
  by pat_completeness auto
termination by (relation "measure (\<lambda>(n, b, e). e)") auto

declare pow_mod.simps [simp del]

lemma pow_mod_eq: "pow_mod n b e = b ^ e mod n"
proof (induction n b e rule: pow_mod.induct)
  case (1 n b e)
  show ?case
  proof (cases "e = 0")
    case True
    then show ?thesis by (simp add: pow_mod.simps [of n b 0])
  next
    case False
    have h: "pow_mod n (b * b mod n) (e div 2) = b ^ (2 * (e div 2)) mod n"
      using "1.IH" [OF False] by (simp add: power_mult power2_eq_square power_mod)
    show ?thesis
    proof (cases "even e")
      case True
      then show ?thesis using h False by (simp add: pow_mod.simps [of n b e])
    next
      case odd: False
      then have "e = Suc (2 * (e div 2))" by presburger
      then have "b ^ e = b ^ (2 * (e div 2)) * b" by (metis power_Suc2)
      then show ?thesis using h False odd by (simp add: pow_mod.simps [of n b e] mod_mult_left_eq)
    qed
  qed
qed

section \<open>SRP-6a, client side\<close>

text \<open>The 3072-bit group of RFC 5054 (\<open>kSrpN3072\<close>) with generator 5, and its size in bytes.\<close>

definition kSrpN3072 :: nat where
  "kSrpN3072 = 0xFFFFFFFFFFFFFFFFC90FDAA22168C234C4C6628B80DC1CD129024E088A67CC74020BBEA63B139B22514A08798E3404DDEF9519B3CD3A431B302B0A6DF25F14374FE1356D6D51C245E485B576625E7EC6F44C42E9A637ED6B0BFF5CB6F406B7EDEE386BFB5A899FA5AE9F24117C4B1FE649286651ECE45B3DC2007CB8A163BF0598DA48361C55D39A69163FA8FD24CF5F83655D23DCA3AD961C62F356208552BB9ED529077096966D670C354E4ABC9804F1746C08CA18217C32905E462E36CE3BE39E772C180E86039B2783A2EC07A28FB5C55DF06F4C52C9DE2BCBF6955817183995497CEA956AE515D2261898FA051015728E5A8AAAC42DAD33170D04507A33A85521ABDF1CBA64ECFB850458DBEF0A8AEA71575D060C7DB3970F85A6E1E4C7ABF5AE8CDB0933D71E8C94E04A25619DCEE3D2261AD2EE6BF12FFA06D98A0864D87602733EC86A64521F2B18177B200CBBE117577A615D6C770988C0BAD946E208E24FA074E5AB3143DB5BFCE0FD108E4B82D120A93AD2CAFFFFFFFFFFFFFFFF"

definition kSrpNBytes :: nat where
  "kSrpNBytes = 384"

definition srp_g :: nat where
  "srp_g = 5"

record SrpClient =
  srp_a :: nat
  srp_A :: nat
  srp_B :: nat
  srp_salt :: bytes
  srp_password :: string
  srp_K :: bytes
  srp_M1 :: bytes
  srp_processed :: bool

definition hashTwoPadded :: "crypto \<Rightarrow> nat \<Rightarrow> nat \<Rightarrow> bytes result" where
  "hashTwoPadded C a b =
     (case mpiToBytesPadded a kSrpNBytes of Inl e \<Rightarrow> Inl e
      | Inr pa \<Rightarrow> (case mpiToBytesPadded b kSrpNBytes of Inl e \<Rightarrow> Inl e
      | Inr pb \<Rightarrow> Inr (c_sha512 C (pa @ pb))))"

definition srp_start :: "crypto \<Rightarrow> string \<Rightarrow> bytes \<Rightarrow> SrpClient" where
  "srp_start C password aBytes =
     (let a = bytes_nat aBytes
      in \<lparr>srp_a = a, srp_A = pow_mod kSrpN3072 srp_g a, srp_B = 0, srp_salt = [],
          srp_password = password, srp_K = [], srp_M1 = [], srp_processed = False\<rparr>)"

definition srp_publicA :: "SrpClient \<Rightarrow> bytes" where
  "srp_publicA d = mpiToBytes (srp_A d)"

text \<open>\<open>x = H(salt | H(username ":" password))\<close>.\<close>

definition srp_x :: "crypto \<Rightarrow> bytes \<Rightarrow> string \<Rightarrow> nat" where
  "srp_x C salt password =
     bytes_nat (c_sha512 C (salt @ c_sha512 C (toBytes (''Pair-Setup:'' @ password))))"

definition srp_client_S :: "nat \<Rightarrow> nat \<Rightarrow> nat \<Rightarrow> nat \<Rightarrow> nat \<Rightarrow> nat" where
  "srp_client_S k u x a B =
     (let N = kSrpN3072;
          gx = pow_mod N srp_g x;
          kgx = (k * gx) mod N;
          base = nat ((int B - int kgx) mod int N)
      in pow_mod N base (a + u * x))"

definition srp_proof :: "crypto \<Rightarrow> bytes \<Rightarrow> nat \<Rightarrow> nat \<Rightarrow> bytes \<Rightarrow> bytes" where
  "srp_proof C salt A B K =
     (let hN = c_sha512 C (mpiToBytes kSrpN3072);
          hg = c_sha512 C (mpiToBytes srp_g);
          hXor = map (\<lambda>i. hN ! i XOR hg ! i) [0..<64];
          hI = c_sha512 C (toBytes ''Pair-Setup'')
      in c_sha512 C (hXor @ hI @ salt @ mpiToBytes A @ mpiToBytes B @ K))"

definition srp_process :: "crypto \<Rightarrow> SrpClient \<Rightarrow> bytes \<Rightarrow> bytes \<Rightarrow> (SrpClient \<times> bool) result" where
  "srp_process C d salt serverB =
     (case bytesToMpi C serverB of Inl e \<Rightarrow> Inl e
      | Inr B \<Rightarrow>
        if B mod kSrpN3072 = 0 then Inr (d\<lparr>srp_salt := salt, srp_B := B\<rparr>, False)
        else
          (case hashTwoPadded C kSrpN3072 srp_g of Inl e \<Rightarrow> Inl e
           | Inr hk \<Rightarrow> (case hashTwoPadded C (srp_A d) B of Inl e \<Rightarrow> Inl e
           | Inr hu \<Rightarrow>
             let k = bytes_nat hk; u = bytes_nat hu; x = srp_x C salt (srp_password d);
                 S = srp_client_S k u x (srp_a d) B;
                 K = c_sha512 C (mpiToBytes S)
             in Inr (d\<lparr>srp_salt := salt, srp_B := B, srp_K := K,
                  srp_M1 := srp_proof C salt (srp_A d) B K, srp_processed := True\<rparr>, True))))"

text \<open>
  \<open>verifyServerProof\<close> compares in constant time: the differences of all bytes are or-ed together.
\<close>

definition verifyServerProof :: "crypto \<Rightarrow> SrpClient \<Rightarrow> bytes \<Rightarrow> bool" where
  "verifyServerProof C d serverM2 =
     (if \<not> srp_processed d then False
      else let m2 = c_sha512 C (mpiToBytes (srp_A d) @ srp_M1 d @ srp_K d)
           in if length m2 \<noteq> length serverM2 then False
              else foldl (\<lambda>diff i. diff OR (m2 ! i XOR serverM2 ! i)) 0 [0..<length m2] = 0)"

section \<open>MD5 digest response\<close>

definition md5Hex :: "crypto \<Rightarrow> string \<Rightarrow> string" where
  "md5Hex C s =
     concat (map (\<lambda>c. [hex_lower (unat (drop_bit 4 c)), hex_lower (unat (c AND 0xF))]) (c_md5 C (toBytes s)))"

definition dquote :: string where
  "dquote = [CHR 0x22]"

definition digestAuthResponse :: "crypto \<Rightarrow> string \<Rightarrow> string \<Rightarrow> string \<Rightarrow> string \<Rightarrow> string \<Rightarrow> string \<Rightarrow> string" where
  "digestAuthResponse C method uri username realm password nonce =
     (let ha1 = md5Hex C (username @ '':'' @ realm @ '':'' @ password);
          ha2 = md5Hex C (method @ '':'' @ uri);
          resp = md5Hex C (ha1 @ '':'' @ nonce @ '':'' @ ha2)
      in ''Digest username='' @ dquote @ username @ dquote @ '', realm='' @ dquote @ realm
         @ dquote @ '', nonce='' @ dquote @ nonce @ dquote @ '', uri='' @ dquote @ uri
         @ dquote @ '', response='' @ dquote @ resp @ dquote)"

end
