(* ===== verification/Crypto_Srp.thy ===== *)
theory Crypto_Srp
  imports Crypto
begin

text \<open>
  The SRP-6a client of \<open>Crypto\<close> against the accessory's side of the protocol (written from RFC
  5054, as the receiver is not part of the repository): both derive the same session key, the
  constant-time proof check is an equality, and a public value too large for the group throws.
  \<open>demo_crypto\<close> is the instance of the primitives on which witnesses run.
\<close>

section \<open>Bignum lemmas\<close>

lemma bytes_nat_append: "bytes_nat (xs @ [x]) = bytes_nat xs * 256 + unat x"
  by (simp add: bytes_nat_def)

lemma bytes_nat_nat_bytes [simp]: "bytes_nat (nat_bytes n) = n"
proof (induction n rule: nat_bytes.induct)
  case (1 n)
  show ?case
  proof (cases "n = 0")
    case True
    then show ?thesis by (simp add: nat_bytes.simps [of 0] bytes_nat_def)
  next
    case False
    with 1 show ?thesis by (simp add: nat_bytes.simps [of n] bytes_nat_append)
  qed
qed

lemma bytes_nat_mpiToBytes [simp]: "bytes_nat (mpiToBytes n) = n"
  by (simp add: mpiToBytes_def) (simp add: bytes_nat_def)

lemma bytes_nat_bound: "bytes_nat b < 256 ^ length b"
proof (induction b rule: rev_induct)
  case Nil
  then show ?case by (simp add: bytes_nat_def)
next
  case (snoc x xs)
  have "unat x < 256" by simp
  then have "bytes_nat xs * 256 + unat x < (bytes_nat xs + 1) * 256" by simp
  also have "\<dots> \<le> 256 ^ length xs * 256" using snoc by (intro mult_right_mono) simp_all
  finally show ?case by (simp add: bytes_nat_append)
qed

lemma length_nat_bytes: "length (nat_bytes n) \<le> k \<longleftrightarrow> n < 256 ^ k"
proof (induction n arbitrary: k rule: nat_bytes.induct)
  case (1 n)
  show ?case
  proof (cases "n = 0 \<or> k = 0")
    case True
    then show ?thesis by (auto simp: nat_bytes.simps [of n])
  next
    case False
    then obtain j where j: "k = Suc j" by (cases k) auto
    have "n div 256 < 256 ^ j \<longleftrightarrow> n < 256 ^ j * 256"
      by (simp add: div_less_iff_less_mult)
    with False j 1 [of j] show ?thesis by (simp add: nat_bytes.simps [of n] mult.commute)
  qed
qed

lemma length_mpiToBytes: "0 < k \<Longrightarrow> n < 256 ^ k \<Longrightarrow> length (mpiToBytes n) \<le> k"
  using length_nat_bytes [of n k] by (auto simp: mpiToBytes_def)

lemma mpiToBytesPadded_ok:
  "mpiToBytesPadded m len = (if m < 256 ^ len
     then Inr (replicate (len - length (nat_bytes m)) 0 @ nat_bytes m)
     else Inl (Exception ''airplay crypto: mpi_write_binary pad''))"
  using length_nat_bytes [of m len] by (auto simp: mpiToBytesPadded_def)

lemma kSrpN3072_fits: "kSrpN3072 < 256 ^ kSrpNBytes" "1 < kSrpN3072"
  by (simp_all add: kSrpN3072_def kSrpNBytes_def)

lemma srp_g_fits: "srp_g < 256 ^ kSrpNBytes"
  by (simp add: srp_g_def kSrpNBytes_def)

lemma below_N_fits: "m < kSrpN3072 \<Longrightarrow> m < 256 ^ kSrpNBytes"
  using kSrpN3072_fits(1) by linarith

section \<open>The server's side of SRP\<close>

text \<open>What the accessory computes from the verifier \<open>v = g ^ x\<close> and its secret \<open>b\<close> (RFC 5054).\<close>

definition srp_verifier :: "crypto \<Rightarrow> bytes \<Rightarrow> string \<Rightarrow> nat" where
  "srp_verifier C salt password = srp_g ^ srp_x C salt password mod kSrpN3072"

definition srp_server_B :: "nat \<Rightarrow> nat \<Rightarrow> nat \<Rightarrow> nat" where
  "srp_server_B k v b = (k * v + srp_g ^ b) mod kSrpN3072"

definition srp_server_S :: "nat \<Rightarrow> nat \<Rightarrow> nat \<Rightarrow> nat \<Rightarrow> nat" where
  "srp_server_S A v u b = (A * v ^ u) ^ b mod kSrpN3072"

lemma srp_exponents: "(g :: nat) ^ (b * (a + u * x)) = (g ^ a * (g ^ x) ^ u) ^ b"
  by (simp only: distrib_left power_add power_mult_distrib power_mult [symmetric] mult_ac)

lemma srp_residues:
  "((p :: nat) mod n * (v mod n) ^ u) ^ b mod n = (p * v ^ u) ^ b mod n"
proof -
  have "(p mod n * (v mod n) ^ u) mod n = (p * v ^ u) mod n"
    by (rule mod_mult_cong) (simp_all add: power_mod)
  then have "(p mod n * (v mod n) ^ u) ^ b mod n = ((p * v ^ u) mod n) ^ b mod n"
    by (metis power_mod)
  then show ?thesis by (simp only: power_mod)
qed

lemma srp_secrets_agree:
  "srp_client_S k u x a (srp_server_B k (srp_g ^ x mod kSrpN3072) b)
     = srp_server_S (srp_g ^ a mod kSrpN3072) (srp_g ^ x mod kSrpN3072) u b"
proof -
  let ?N = kSrpN3072 and ?g = srp_g
  define kgx where "kgx = (k * (?g ^ x mod ?N)) mod ?N"
  have "srp_server_B k (?g ^ x mod ?N) b = (kgx + ?g ^ b) mod ?N"
    unfolding srp_server_B_def kgx_def by (rule mod_add_left_eq [symmetric])
  then have "int (srp_server_B k (?g ^ x mod ?N) b) = (int kgx + int (?g ^ b)) mod int ?N"
    by (simp only: of_nat_mod of_nat_add)
  then have "(int (srp_server_B k (?g ^ x mod ?N) b) - int kgx) mod int ?N = int (?g ^ b) mod int ?N"
    by (simp add: mod_diff_left_eq)
  then have "nat ((int (srp_server_B k (?g ^ x mod ?N) b) - int kgx) mod int ?N) = ?g ^ b mod ?N"
    by (metis nat_int of_nat_mod)
  then have "srp_client_S k u x a (srp_server_B k (?g ^ x mod ?N) b) = (?g ^ b mod ?N) ^ (a + u * x) mod ?N"
    by (simp add: srp_client_S_def Let_def pow_mod_eq kgx_def)
  also have "\<dots> = ?g ^ (b * (a + u * x)) mod ?N"
    by (simp only: power_mod power_mult)
  also have "?g ^ (b * (a + u * x)) = (?g ^ a * (?g ^ x) ^ u) ^ b" by (rule srp_exponents)
  also have "\<dots> mod ?N = ((?g ^ a mod ?N) * (?g ^ x mod ?N) ^ u) ^ b mod ?N"
    by (rule srp_residues [symmetric])
  finally show ?thesis by (simp add: srp_server_S_def)
qed

definition srp_hash :: "crypto \<Rightarrow> nat \<Rightarrow> nat \<Rightarrow> nat" where
  "srp_hash C a b = (case hashTwoPadded C a b of Inl e \<Rightarrow> 0 | Inr h \<Rightarrow> bytes_nat h)"

lemma hashTwoPadded_ok:
  "a < 256 ^ kSrpNBytes \<Longrightarrow> b < 256 ^ kSrpNBytes \<Longrightarrow> \<exists>h. hashTwoPadded C a b = Inr h \<and> srp_hash C a b = bytes_nat h"
  by (simp add: hashTwoPadded_def srp_hash_def mpiToBytesPadded_ok)

lemma srp_A_start: "srp_A (srp_start C password aB) = srp_g ^ bytes_nat aB mod kSrpN3072"
  by (simp add: srp_start_def Let_def pow_mod_eq)

lemma srp_A_below_N: "srp_A (srp_start C password aB) < kSrpN3072"
  using kSrpN3072_fits(2) by (simp add: srp_A_start)

lemma srp_process_accepts:
  assumes "length serverB \<le> c_mpi_max C" and "bytes_nat serverB < 256 ^ kSrpNBytes"
    and "bytes_nat serverB mod kSrpN3072 \<noteq> 0" and "srp_A d < 256 ^ kSrpNBytes"
  shows "srp_process C d salt serverB =
    (let B = bytes_nat serverB;
         S = srp_client_S (srp_hash C kSrpN3072 srp_g) (srp_hash C (srp_A d) B)
               (srp_x C salt (srp_password d)) (srp_a d) B;
         K = c_sha512 C (mpiToBytes S)
     in Inr (d\<lparr>srp_salt := salt, srp_B := B, srp_K := K,
          srp_M1 := srp_proof C salt (srp_A d) B K, srp_processed := True\<rparr>, True))"
proof -
  obtain hk where hk: "hashTwoPadded C kSrpN3072 srp_g = Inr hk" "srp_hash C kSrpN3072 srp_g = bytes_nat hk"
    using hashTwoPadded_ok [OF kSrpN3072_fits(1) srp_g_fits] by blast
  obtain hu where hu: "hashTwoPadded C (srp_A d) (bytes_nat serverB) = Inr hu"
      "srp_hash C (srp_A d) (bytes_nat serverB) = bytes_nat hu"
    using hashTwoPadded_ok [OF assms(4,2)] by blast
  from hk hu assms show ?thesis by (simp add: srp_process_def bytesToMpi_def Let_def)
qed

lemma srp_process_refuses:
  "length serverB \<le> c_mpi_max C \<Longrightarrow> bytes_nat serverB mod kSrpN3072 = 0 \<Longrightarrow>
    srp_process C d salt serverB = Inr (d\<lparr>srp_salt := salt, srp_B := bytes_nat serverB\<rparr>, False)"
  by (simp add: srp_process_def bytesToMpi_def)

text \<open>A public value that does not fit the 384 bytes of the group makes the padding throw.\<close>

lemma srp_process_throws:
  assumes "256 ^ kSrpNBytes \<le> bytes_nat serverB" and "bytes_nat serverB mod kSrpN3072 \<noteq> 0"
  shows "\<exists>e. srp_process C d salt serverB = Inl e"
proof (cases "hashTwoPadded C kSrpN3072 srp_g")
  case (Inl e)
  with assms show ?thesis by (auto simp: srp_process_def bytesToMpi_def)
next
  case (Inr hk)
  have "hashTwoPadded C (srp_A d) (bytes_nat serverB) = Inl (Exception ''airplay crypto: mpi_write_binary pad'')
      \<or> (\<exists>e. hashTwoPadded C (srp_A d) (bytes_nat serverB) = Inl e)"
    using assms(1) by (auto simp: hashTwoPadded_def mpiToBytesPadded_ok)
  with assms Inr show ?thesis by (auto simp: srp_process_def bytesToMpi_def)
qed

lemma foldl_or_zero: "foldl (\<lambda>acc i. acc OR f i) (a :: byte) is = 0 \<longleftrightarrow> a = 0 \<and> (\<forall>i \<in> set is. f i = 0)"
proof (induction "is" arbitrary: a)
  case (Cons i "is")
  have "a OR f i = 0 \<longleftrightarrow> a = 0 \<and> f i = 0"
    by (metis or.right_neutral or_eq_0_iff)
  with Cons show ?case by auto
qed simp

lemma xor_zero: "(a :: byte) XOR b = 0 \<longleftrightarrow> a = b"
  by (auto simp: bit_eq_iff bit_simps)

lemma verifyServerProof_eq:
  "verifyServerProof C d m2 \<longleftrightarrow>
     srp_processed d \<and> m2 = c_sha512 C (mpiToBytes (srp_A d) @ srp_M1 d @ srp_K d)"
proof -
  have e: "n = m \<longleftrightarrow> length m = length n \<and> (\<forall>i < length m. m ! i XOR n ! i = 0)" for m n :: bytes
    unfolding xor_zero by (metis list_eq_iff_nth_eq)
  show ?thesis
    unfolding verifyServerProof_def Let_def foldl_or_zero e by (auto simp: Ball_def)
qed

text \<open>
  C27. Both ends of pair-setup derive the same session key: for every password, salt and pair of
  ephemeral secrets, the client run on the public value of an accessory that knows the same
  password never fails; it refuses the value exactly when it is 0, and otherwise its key is the
  hash of the accessory's shared secret and it accepts the accessory's proof of that key.
\<close>

theorem srp_agreement:
  assumes "crypto_ok C"
  shows "let d = srp_start C password aBytes; A = srp_A d;
             k = srp_hash C kSrpN3072 srp_g; v = srp_verifier C salt password;
             B = srp_server_B k v b; u = srp_hash C A B;
             K = c_sha512 C (mpiToBytes (srp_server_S A v u b))
         in map_sum id (\<lambda>(d', ok). (ok, ok \<and> srp_K d' = K
               \<and> verifyServerProof C d' (c_sha512 C (mpiToBytes A @ srp_M1 d' @ K))))
              (srp_process C d salt (mpiToBytes B)) = Inr (B \<noteq> 0, B \<noteq> 0)"
proof -
  define d where "d = srp_start C password aBytes"
  define k where "k = srp_hash C kSrpN3072 srp_g"
  define x where "x = srp_x C salt password"
  define B where "B = srp_server_B k (srp_verifier C salt password) b"
  define u where "u = srp_hash C (srp_A d) B"
  define K where "K = c_sha512 C (mpiToBytes (srp_server_S (srp_A d) (srp_verifier C salt password) u b))"
  have A: "srp_A d = srp_g ^ srp_a d mod kSrpN3072" "srp_A d < 256 ^ kSrpNBytes" "srp_password d = password"
    using below_N_fits [OF srp_A_below_N] by (simp_all add: d_def srp_start_def Let_def pow_mod_eq)
  have BN: "B < kSrpN3072" using kSrpN3072_fits(2) by (simp add: B_def srp_server_B_def)
  have S: "srp_client_S k u x (srp_a d) B = srp_server_S (srp_A d) (srp_verifier C salt password) u b"
    unfolding B_def A(1) srp_verifier_def x_def by (rule srp_secrets_agree)
  have "length (mpiToBytes B) \<le> 384"
    using length_mpiToBytes [of 384 B] below_N_fits [OF BN] by (simp add: kSrpNBytes_def)
  then have L: "length (mpiToBytes B) \<le> c_mpi_max C"
    using crypto_ok_simps(9) [OF assms] by linarith
  have "map_sum id (\<lambda>(d', ok). (ok, ok \<and> srp_K d' = K
            \<and> verifyServerProof C d' (c_sha512 C (mpiToBytes (srp_A d) @ srp_M1 d' @ K))))
          (srp_process C d salt (mpiToBytes B)) = Inr (B \<noteq> 0, B \<noteq> 0)"
  proof (cases "B = 0")
    case True
    then show ?thesis using srp_process_refuses [OF L] by simp
  next
    case False
    with BN have "bytes_nat (mpiToBytes B) mod kSrpN3072 \<noteq> 0" by simp
    from srp_process_accepts [OF L _ this A(2)] below_N_fits [OF BN] S False
    show ?thesis by (simp add: Let_def verifyServerProof_eq A(3) K_def k_def u_def x_def)
  qed
  then show ?thesis
    unfolding Let_def d_def [symmetric] k_def [symmetric] B_def [symmetric] u_def [symmetric] K_def [symmetric] .
qed

text \<open>A stand-in for the primitives on which the hypotheses hold: no encryption, a tag over nonce and data.\<close>

definition demo_tag :: "bytes \<Rightarrow> bytes \<Rightarrow> bytes" where
  "demo_tag nonce aad = take 16 (nonce @ aad @ replicate 16 0)"

definition demo_crypto :: crypto where
  "demo_crypto = \<lparr>c_sha512 = (\<lambda>b. take 64 (b @ replicate 64 0)), c_hkdf = (\<lambda>salt info ikm n. take n (toBytes info @ ikm @ replicate n 0)),
     c_seal = (\<lambda>key nonce aad pt. (pt, demo_tag nonce aad)),
     c_open = (\<lambda>key nonce aad ct tag. if tag = demo_tag nonce aad then Some ct else None),
     c_x25519_base = (\<lambda>a. replicate 32 9), c_x25519 = (\<lambda>a b. replicate 32 7),
     c_ed_keypair = (\<lambda>seed. (seed, seed @ seed)), c_ed_sign = (\<lambda>msg pub priv. replicate 64 3),
     c_ed_verify = (\<lambda>sig msg pub. True), c_md5 = (\<lambda>b. take 16 (b @ replicate 16 0)),
     c_random = (\<lambda>k n. replicate n (of_nat (k + 1))), c_mpi_max = 80000\<rparr>"

lemma demo_crypto_ok [simp]: "crypto_ok demo_crypto"
  by (auto simp: crypto_ok_def demo_crypto_def demo_tag_def min_def)

theorem srp_agreement_witness:
  "let d = srp_start demo_crypto ''3939'' [7]; A = srp_A d;
             k = srp_hash demo_crypto kSrpN3072 srp_g; v = srp_verifier demo_crypto [1, 2] ''3939'';
             B = srp_server_B k v 11; u = srp_hash demo_crypto A B;
             K = c_sha512 demo_crypto (mpiToBytes (srp_server_S A v u 11))
         in map_sum id (\<lambda>(d', ok). (ok, ok \<and> srp_K d' = K
               \<and> verifyServerProof demo_crypto d' (c_sha512 demo_crypto (mpiToBytes A @ srp_M1 d' @ K))))
              (srp_process demo_crypto d [1, 2] (mpiToBytes B)) = Inr (B \<noteq> 0, B \<noteq> 0)"
  by (rule srp_agreement) simp


text \<open>
  The constant-time comparison decides equality: a server proof is accepted exactly when the
  exchange was run and the proof is the hash of the client's public value, its own proof and
  the session key.
\<close>

theorem verifyServerProof_iff:
  "verifyServerProof C d m2 \<longleftrightarrow>
     srp_processed d \<and> m2 = c_sha512 C (mpiToBytes (srp_A d) @ srp_M1 d @ srp_K d)"
  by (rule verifyServerProof_eq)

end
