(* ===== verification/Channel.thy ===== *)
theory Channel
  imports Crypto_Srp
begin

text \<open>
  The encrypted record layer of the control and the event channel (\<open>writeRtsp_\<close>, and the
  decrypting loops of \<open>onRtspReadyRead_\<close> and \<open>onEventReadyRead_\<close>, \<open>src/src/raop_sender.cpp\<close>):
  a frame is a little-endian 16-bit length, that many bytes of ciphertext and a 16-byte tag;
  the length bytes are authenticated too, and the nonce is a counter per direction.
\<close>

section \<open>Frames\<close>

definition length_prefix :: "nat \<Rightarrow> bytes" where
  "length_prefix len = [of_nat len AND 0xFF, of_nat (len div 256) AND 0xFF]"

definition seal_frame :: "crypto \<Rightarrow> bytes \<Rightarrow> 64 word \<Rightarrow> string \<Rightarrow> string result" where
  "seal_frame C key ctr pt =
     (let lp = length_prefix (length pt);
          nonce8 = map (\<lambda>i. ucast (drop_bit (8 * i) ctr)) [0..<8]
      in map_sum id (\<lambda>ct. toStr lp @ toStr ct) (chacha20Poly1305Encrypt C key nonce8 (toBytes pt) lp))"

text \<open>The loop of \<open>writeRtsp_\<close> over the rest of the data; the second result is the counter after it.\<close>

function seal_frames :: "crypto \<Rightarrow> bytes \<Rightarrow> 64 word \<Rightarrow> string \<Rightarrow> (string \<times> 64 word) result" where
  "seal_frames C key ctr data =
     (if data = [] then Inr ([], ctr)
      else let len = min 1024 (length data)
           in case seal_frame C key ctr (take len data) of
                Inl e \<Rightarrow> Inl e
              | Inr fr \<Rightarrow> map_sum id (\<lambda>(out, c). (fr @ out, c)) (seal_frames C key (ctr + 1) (drop len data)))"
  by pat_completeness auto
termination by (relation "measure (\<lambda>(C, key, ctr, data). length data)") auto

declare seal_frames.simps [simp del]

text \<open>
  The decrypting loop: whole frames are taken off the front of the buffer. The result says
  whether all of them were authentic, and gives the plaintext, the counter after them (the
  counter of a frame that failed is spent) and the bytes left in the buffer.
\<close>

function open_frames :: "crypto \<Rightarrow> bytes \<Rightarrow> 64 word \<Rightarrow> string \<Rightarrow> bool \<times> string \<times> 64 word \<times> string" where
  "open_frames C key ctr buf =
     (if length buf < 2 then (True, [], ctr, buf)
      else
        let lp = [char_byte (buf ! 0), char_byte (buf ! 1)];
            len = unat (lp ! 0) + 256 * unat (lp ! 1);
            need = 2 + len + 16
        in if length buf < need then (True, [], ctr, buf)
           else
             let nonce8 = map (\<lambda>i. ucast (drop_bit (8 * i) ctr)) [0..<8];
                 ctTag = toBytes (take (len + 16) (drop 2 buf))
             in case chacha20Poly1305Decrypt C key nonce8 ctTag lp of
                  None \<Rightarrow> (False, [], ctr + 1, buf)
                | Some dec \<Rightarrow>
                    (let (ok, plain, c, rest) = open_frames C key (ctr + 1) (drop need buf)
                     in (ok, toStr dec @ plain, c, rest)))"
  by pat_completeness auto
termination by (relation "measure (\<lambda>(C, key, ctr, buf). length buf)") auto

declare open_frames.simps [simp del]

section \<open>One frame\<close>

lemma byte_and_FF: "(x :: byte) AND 0xFF = x"
proof -
  have "(0xFF :: byte) = - 1" by simp
  then show ?thesis by (simp only: and.right_neutral)
qed

lemma length_prefix_read:
  assumes "len < 65536"
  shows "unat (length_prefix len ! 0) + 256 * unat (length_prefix len ! 1) = len"
proof -
  have a: "unat ((of_nat len :: byte) AND 0xFF) = len mod 256"
    by (simp add: byte_and_FF unat_of_nat take_bit_eq_mod)
  have "(of_nat (len div 256) :: byte) AND 0xFF = of_nat (len div 256)"
    by (simp add: byte_and_FF)
  then have b: "unat ((of_nat (len div 256) :: byte) AND 0xFF) = len div 256"
    using assms by (simp add: unat_of_nat take_bit_eq_mod div_less_iff_less_mult)
  show ?thesis by (simp add: length_prefix_def a b)
qed

lemma length_length_prefix [simp]: "length (length_prefix n) = 2"
  by (simp add: length_prefix_def)

lemma seal_frame_opens:
  assumes "crypto_ok C" and "length key = 32"
  obtains ct where "seal_frame C key ctr pt = Inr (toStr (length_prefix (length pt)) @ toStr ct)"
    "length ct = length pt + 16"
    "chacha20Poly1305Decrypt C key (map (\<lambda>i. ucast (drop_bit (8 * i) ctr)) [0..<8]) ct
       (length_prefix (length pt)) = Some (toBytes pt)"
proof -
  let ?n = "map (\<lambda>i. ucast (drop_bit (8 * i) ctr)) [0..<8]" and ?lp = "length_prefix (length pt)"
  obtain c t where s: "c_seal C key (pad12 ?n) ?lp (toBytes pt) = (c, t)" by fastforce
  have l: "length c = length pt" "length t = 16" "c_open C key (pad12 ?n) ?lp c t = Some (toBytes pt)"
    using crypto_ok_simps(1-3) [OF assms(1), of key "pad12 ?n" ?lp "toBytes pt"] s by simp_all
  show thesis
  proof (rule that [of "c @ t"])
    show "seal_frame C key ctr pt = Inr (toStr ?lp @ toStr (c @ t))"
      using assms(2) s unfolding seal_frame_def chacha20Poly1305Encrypt_def Let_def by simp
    show "chacha20Poly1305Decrypt C key ?n (c @ t) ?lp = Some (toBytes pt)"
      using assms(2) l unfolding chacha20Poly1305Decrypt_def Let_def by simp
  qed (use l in simp)
qed

lemma open_frames_short: "length buf < 2 \<Longrightarrow> open_frames C key ctr buf = (True, [], ctr, buf)"
  by (simp add: open_frames.simps [of C key ctr buf])

definition frame_len :: "string \<Rightarrow> nat" where
  "frame_len buf = unat (char_byte (buf ! 0)) + 256 * unat (char_byte (buf ! 1))"

lemma open_frames_part:
  "length buf < 2 \<or> length buf < 18 + frame_len buf \<Longrightarrow> open_frames C key ctr buf = (True, [], ctr, buf)"
  by (subst open_frames.simps) (auto simp: Let_def frame_len_def)

lemma open_frames_whole:
  "\<not> length buf < 2 \<Longrightarrow> \<not> length buf < 18 + frame_len buf \<Longrightarrow>
   open_frames C key ctr buf =
     (case chacha20Poly1305Decrypt C key (map (\<lambda>i. ucast (drop_bit (8 * i) ctr)) [0..<8])
         (toBytes (take (frame_len buf + 16) (drop 2 buf))) [char_byte (buf ! 0), char_byte (buf ! 1)] of
        None \<Rightarrow> (False, [], ctr + 1, buf)
      | Some dec \<Rightarrow> (let (ok, plain, c, rest) = open_frames C key (ctr + 1) (drop (18 + frame_len buf) buf)
                      in (ok, toStr dec @ plain, c, rest)))"
  by (subst open_frames.simps) (simp add: Let_def frame_len_def cong: option.case_cong)

lemma open_one_frame:
  assumes "crypto_ok C" and "length key = 32" and "length pt < 65536"
    and "seal_frame C key ctr pt = Inr fr"
  shows "open_frames C key ctr (fr @ rest)
    = (let (ok, plain, c, r) = open_frames C key (ctr + 1) rest in (ok, pt @ plain, c, r))"
proof -
  obtain ct where ct: "fr = toStr (length_prefix (length pt)) @ toStr ct" "length ct = length pt + 16"
      "chacha20Poly1305Decrypt C key (map (\<lambda>i. ucast (drop_bit (8 * i) ctr)) [0..<8]) ct
         (length_prefix (length pt)) = Some (toBytes pt)"
    using seal_frame_opens [OF assms(1,2), of ctr pt] assms(4) by (metis sum.inject(2))
  obtain b0 b1 where lp: "length_prefix (length pt) = [b0, b1]" by (simp add: length_prefix_def)
  have len: "unat b0 + 256 * unat b1 = length pt"
    using length_prefix_read [OF assms(3)] lp by simp
  have fr: "fr = byte_char b0 # byte_char b1 # toStr ct" using ct(1) lp by (simp add: toStr_def)
  have fl: "frame_len (fr @ rest) = length pt" using len by (simp add: frame_len_def fr)
  have dr: "take (length pt + 16) (drop 2 (fr @ rest)) = toStr ct" "drop (18 + length pt) (fr @ rest) = rest"
    using ct(2) by (simp_all add: fr numeral_eq_Suc)
  have "open_frames C key ctr (fr @ rest)
      = (case chacha20Poly1305Decrypt C key (map (\<lambda>i. ucast (drop_bit (8 * i) ctr)) [0..<8]) ct [b0, b1] of
           None \<Rightarrow> (False, [], ctr + 1, fr @ rest)
         | Some dec \<Rightarrow> (let (ok, plain, c, r) = open_frames C key (ctr + 1) rest in (ok, toStr dec @ plain, c, r)))"
  proof -
    have w: "\<not> length (fr @ rest) < 2" "\<not> length (fr @ rest) < 18 + frame_len (fr @ rest)"
      using ct(2) by (simp_all add: fl, simp_all add: fr)
    have hd: "char_byte ((fr @ rest) ! 0) = b0" "char_byte ((fr @ rest) ! 1) = b1"
      by (simp_all add: fr)
    show ?thesis using open_frames_whole [OF w, of C key ctr] unfolding fl dr hd toBytes_toStr .
  qed
  then show ?thesis using ct(3) lp by simp
qed

lemma open_sealed:
  assumes "crypto_ok C" and "length key = 32"
  shows "\<exists>out c'. seal_frames C key ctr data = Inr (out, c') \<and>
    (\<forall>rest. open_frames C key ctr (out @ rest)
       = (let (ok, plain, c, r) = open_frames C key c' rest in (ok, data @ plain, c, r)))"
proof (induction "length data" arbitrary: data ctr rule: less_induct)
  case less
  show ?case
  proof (cases "data = []")
    case True
    then show ?thesis by (simp add: seal_frames.simps [of C key ctr "[]"] split: prod.split)
  next
    case False
    define len where "len = min 1024 (length data)"
    have l: "length (take len data) < 65536" "length (drop len data) < length data"
      using False by (auto simp: len_def)
    obtain fr where fr: "seal_frame C key ctr (take len data) = Inr fr"
      using seal_frame_opens [OF assms] by metis
    obtain out c' where o: "seal_frames C key (ctr + 1) (drop len data) = Inr (out, c')"
        "\<And>rest. open_frames C key (ctr + 1) (out @ rest)
           = (let (ok, plain, c, r) = open_frames C key c' rest in (ok, drop len data @ plain, c, r))"
      using less [OF l(2)] by blast
    have "seal_frames C key ctr data = Inr (fr @ out, c')"
      using False fr o(1) by (simp add: seal_frames.simps [of C key ctr data] Let_def len_def)
    moreover have "open_frames C key ctr ((fr @ out) @ rest)
        = (let (ok, plain, c, r) = open_frames C key c' rest in (ok, data @ plain, c, r))" for rest
      using open_one_frame [OF assms l(1) fr, of "out @ rest"] o(2) [of rest]
      by (simp split: prod.splits)
    ultimately show ?thesis by blast
  qed
qed

section \<open>Segments\<close>

text \<open>
  Bytes arrive in whatever pieces TCP makes of them; each piece is appended to the buffer and
  the loop runs again, and the first frame that is not authentic ends it.
\<close>

fun recv_segments :: "crypto \<Rightarrow> bytes \<Rightarrow> 64 word \<Rightarrow> string \<Rightarrow> string list \<Rightarrow> bool \<times> string \<times> 64 word \<times> string" where
  "recv_segments C key ctr buf [] = (True, [], ctr, buf)"
| "recv_segments C key ctr buf (seg # segs) =
     (case open_frames C key ctr (buf @ seg) of
        (False, plain, c, r) \<Rightarrow> (False, plain, c, r)
      | (True, plain, c, r) \<Rightarrow>
          (let (ok, plain', c', r') = recv_segments C key c r segs in (ok, plain @ plain', c', r')))"

lemma open_frames_append:
  "open_frames C key ctr a = (ok, p, c, r) \<Longrightarrow>
     open_frames C key ctr (a @ b) =
       (if ok then (let (ok', p', c', r') = open_frames C key c (r @ b) in (ok', p @ p', c', r'))
        else (False, p, c, r @ b))"
proof (induction "length a" arbitrary: a ctr ok p c r rule: less_induct)
  case less
  show ?case
  proof (cases "length a < 2 \<or> length a < 18 + frame_len a")
    case True
    with less.prems show ?thesis by (simp add: open_frames_part split: prod.split)
  next
    case False
    then have w: "\<not> length a < 2" "\<not> length a < 18 + frame_len a" by simp_all
    have ab: "(a @ b) ! 0 = a ! 0" "(a @ b) ! 1 = a ! 1" using w(1) by (auto simp: nth_append)
    have fl: "frame_len (a @ b) = frame_len a" by (simp only: frame_len_def ab)
    have w': "\<not> length (a @ b) < 2" "\<not> length (a @ b) < 18 + frame_len (a @ b)"
      using w by (simp_all add: fl)
    have td: "take (frame_len a + 16) (drop 2 (a @ b)) = take (frame_len a + 16) (drop 2 a)"
        "drop (18 + frame_len a) (a @ b) = drop (18 + frame_len a) a @ b"
      using w by simp_all
    define D where "D = chacha20Poly1305Decrypt C key (map (\<lambda>i. ucast (drop_bit (8 * i) ctr)) [0..<8])
        (toBytes (take (frame_len a + 16) (drop 2 a))) [char_byte (a ! 0), char_byte (a ! 1)]"
    note one = open_frames_whole [OF w, of C key ctr, folded D_def]
    note two = open_frames_whole [OF w', of C key ctr, unfolded fl ab td, folded D_def]
    show ?thesis
    proof (cases D)
      case None
      with one two less.prems show ?thesis by auto
    next
      case (Some dec)
      obtain ok1 p1 c1 r1 where r: "open_frames C key (ctr + 1) (drop (18 + frame_len a) a) = (ok1, p1, c1, r1)"
        by (metis prod_cases4)
      have "length (drop (18 + frame_len a) a) < length a" using w by simp
      from less.hyps [OF this r] one two r Some less.prems show ?thesis by (auto split: prod.splits)
    qed
  qed
qed

lemma open_frames_rest:
  "open_frames C key ctr a = (ok, p, c, r) \<Longrightarrow> ok \<Longrightarrow> open_frames C key c r = (True, [], c, r)"
proof (induction "length a" arbitrary: a ctr ok p c r rule: less_induct)
  case less
  show ?case
  proof (cases "length a < 2 \<or> length a < 18 + frame_len a")
    case True
    with less.prems open_frames_part [OF True, of C key] show ?thesis by simp
  next
    case False
    then have w: "\<not> length a < 2" "\<not> length a < 18 + frame_len a" by simp_all
    obtain dec where dec: "chacha20Poly1305Decrypt C key (map (\<lambda>i. ucast (drop_bit (8 * i) ctr)) [0..<8])
        (toBytes (take (frame_len a + 16) (drop 2 a))) [char_byte (a ! 0), char_byte (a ! 1)] = Some dec"
      using open_frames_whole [OF w, of C key ctr] less.prems by (auto split: option.splits)
    obtain ok1 p1 c1 r1 where r: "open_frames C key (ctr + 1) (drop (18 + frame_len a) a) = (ok1, p1, c1, r1)"
      by (metis prod_cases4)
    have "length (drop (18 + frame_len a) a) < length a" using w by simp
    from less.hyps [OF this r] open_frames_whole [OF w, of C key ctr] dec r less.prems show ?thesis by simp
  qed
qed

lemma recv_segments_from:
  "open_frames C key ctr buf = (True, [], ctr, buf) \<Longrightarrow>
   (let (ok, plain, c, r) = recv_segments C key ctr buf segs in (ok, plain, c))
     = (let (ok, plain, c, r) = open_frames C key ctr (buf @ concat segs) in (ok, plain, c))"
proof (induction segs arbitrary: ctr buf)
  case Nil
  then show ?case by simp
next
  case (Cons seg segs)
  obtain ok p c r where o: "open_frames C key ctr (buf @ seg) = (ok, p, c, r)" by (metis prod_cases4)
  note app = open_frames_append [OF o, of "concat segs"]
  show ?case
  proof (cases ok)
    case False
    with o app show ?thesis by simp
  next
    case True
    have self: "open_frames C key c r = (True, [], c, r)"
      using open_frames_rest [OF o] True by simp
    from Cons.IH [OF this] o app True show ?thesis by (auto split: prod.splits)
  qed
qed

text \<open>
  TCP segmentation does not matter, for any bytes whatsoever: however the received stream is
  cut into pieces, the same plaintext comes out, the same frame is the first one refused, and
  the same number of nonces is spent as if it had arrived at once.
\<close>

lemma recv_segmentation:
  "(let (ok, plain, c, r) = recv_segments C key ctr [] segs in (ok, plain, c))
     = (let (ok, plain, c, r) = open_frames C key ctr (concat segs) in (ok, plain, c))"
  using recv_segments_from [of C key ctr "[]" segs] by (simp add: open_frames_short)

text \<open>
  C20. What one end writes on an encrypted channel the other end reads: for any data and any
  segmentation of the frames on the way, every frame is authentic, the plaintext is the data
  and both ends have spent the same nonces.
\<close>

theorem channel_roundtrip:
  assumes "crypto_ok C" and "length key = 32"
  shows "\<exists>out c. seal_frames C key ctr data = Inr (out, c) \<and>
    (\<forall>segs. concat segs = out \<longrightarrow>
       (let (ok, plain, c', r) = recv_segments C key ctr [] segs in (ok, plain, c')) = (True, data, c))"
proof -
  obtain out c where o: "seal_frames C key ctr data = Inr (out, c)"
      "\<And>rest. open_frames C key ctr (out @ rest)
         = (let (ok, plain, c, r) = open_frames C key c rest in (ok, data @ plain, c, r))"
    using open_sealed [OF assms] by blast
  have "open_frames C key ctr out = (True, data, c, [])"
    using o(2) [of "[]"] by (simp add: open_frames_short)
  moreover have "(let (ok, plain, c', r) = recv_segments C key ctr [] segs in (ok, plain, c'))
      = (let (ok, plain, c', r) = open_frames C key ctr (concat segs) in (ok, plain, c'))" for segs
    using recv_segments_from [of C key ctr "[]" segs] by (simp add: open_frames_short)
  ultimately show ?thesis using o(1) by auto
qed

theorem channel_roundtrip_witness:
  "\<exists>out c. seal_frames demo_crypto (replicate 32 5) 0 (replicate 3000 CHR ''a'') = Inr (out, c) \<and>
    (\<forall>segs. concat segs = out \<longrightarrow>
       (let (ok, plain, c', r) = recv_segments demo_crypto (replicate 32 5) 0 [] segs in (ok, plain, c'))
         = (True, replicate 3000 CHR ''a'', c))"
  by (rule channel_roundtrip) simp_all

section \<open>Nonces\<close>

text \<open>How many frames a write takes, and the nonces they use.\<close>

definition frame_count :: "string \<Rightarrow> nat" where
  "frame_count data = (length data + 1023) div 1024"

lemma seal_frames_counter:
  "seal_frames C key ctr data = Inr (out, c) \<Longrightarrow> c = ctr + of_nat (frame_count data)"
proof (induction "length data" arbitrary: data ctr out c rule: less_induct)
  case less
  show ?case
  proof (cases "data = []")
    case True
    with less.prems show ?thesis by (simp add: seal_frames.simps [of C key ctr "[]"] frame_count_def)
  next
    case False
    define len where "len = min 1024 (length data)"
    have l: "length (drop len data) < length data" using False by (auto simp: len_def)
    obtain out' where "seal_frames C key (ctr + 1) (drop len data) = Inr (out', c)"
    proof (cases "seal_frames C key (ctr + 1) (drop len data)")
      case (Inl e)
      with less.prems False show thesis
        by (simp add: seal_frames.simps [of C key ctr data] Let_def len_def split: sum.splits)
    next
      case (Inr oc)
      with less.prems False have "snd oc = c"
        by (simp add: seal_frames.simps [of C key ctr data] Let_def len_def split: sum.splits prod.splits)
      with Inr that [of "fst oc"] show thesis by (cases oc) simp
    qed
    from less.hyps [OF l this] have "c = ctr + 1 + of_nat (frame_count (drop len data))" .
    moreover have "frame_count data = Suc (frame_count (drop len data))"
    proof (cases "length data \<le> 1024")
      case True
      have "1 \<le> length data" using False by (cases data) auto
      with True have "(length data + 1023) div 1024 = 1" by (intro div_nat_eqI) simp_all
      with True show ?thesis by (simp add: frame_count_def len_def)
    next
      case False
      then have "length data + 1023 = 1024 + (length data - 1024 + 1023)" by simp
      then have "(length data + 1023) div 1024 = Suc ((length data - 1024 + 1023) div 1024)"
        by (metis div_add_self1 zero_neq_numeral Suc_eq_plus1)
      with False show ?thesis by (simp add: frame_count_def len_def)
    qed
    ultimately show ?thesis by simp
  qed
qed

end
