(* ===== verification/Rtp.thy ===== *)
theory Rtp
  imports Text_Util
begin

text \<open>
  The stream clock and the packet formats of \<open>src/src/raop_sender.cpp\<close>: NTP and RTP time, the
  RTP header, sync, timing and retransmit packets, the pacer's frame budget and the bit writer
  of the uncompressed ALAC frames. Everything is on machine words of the code's widths.
\<close>

section \<open>Constants and clock\<close>

definition kFramesPerPacket :: nat where "kFramesPerPacket = 352"
definition kRaopRate :: "32 word" where "kRaopRate = 44100"
definition kChannels :: nat where "kChannels = 2"
definition kBacklogSize :: nat where "kBacklogSize = 1024"
definition kMaxPacketsPerTick :: nat where "kMaxPacketsPerTick = 16"
definition kInBufMaxFrames :: nat where "kInBufMaxFrames = 8192"
definition kLatency :: "32 word" where "kLatency = 22050 + 44100"

definition ntp2ts :: "64 word \<Rightarrow> 32 word \<Rightarrow> 64 word" where
  "ntp2ts ntp rate = drop_bit 16 (drop_bit 16 ntp * ucast rate)"

definition ts2ntp :: "64 word \<Rightarrow> 32 word \<Rightarrow> 64 word" where
  "ts2ntp ts rate = push_bit 16 (push_bit 16 ts div ucast rate)"

text \<open>\<open>ntpNow_\<close> from the microseconds of the wall clock.\<close>

definition ntp_of_us :: "64 word \<Rightarrow> 64 word" where
  "ntp_of_us us =
     (let sec = us div 1000000; frac = us mod 1000000
      in push_bit 32 (sec + 0x83AA7E80) OR push_bit 32 frac div 1000000)"

definition rtptime32 :: "64 word \<Rightarrow> 32 word" where
  "rtptime32 framesSent = ucast (ucast kLatency + framesSent)"

text \<open>The frames that should be on the wire after \<open>elapsedNs\<close>: the product is 64 bits wide.\<close>

definition pacer_target :: "64 word \<Rightarrow> 64 word" where
  "pacer_target elapsedNs = elapsedNs * ucast kRaopRate div 1000000000"

section \<open>Packets\<close>

definition rtp_header :: "bool \<Rightarrow> 16 word \<Rightarrow> 32 word \<Rightarrow> 32 word \<Rightarrow> string" where
  "rtp_header firstAudio seqno rtptime ssrc =
     (let h = b8 [] 0x80;
          h = b8 h (if firstAudio then 0xE0 else 0x60);
          h = be16 h seqno;
          h = be32 h rtptime
      in be32 h ssrc)"

definition l16_payload :: "16 word list \<Rightarrow> string" where
  "l16_payload samples =
     concat (map (\<lambda>s. [byte_char (ucast (drop_bit 8 s)), byte_char (ucast (s AND 0xFF))]) samples)"

definition sync_packet :: "bool \<Rightarrow> 32 word \<Rightarrow> 64 word \<Rightarrow> string" where
  "sync_packet first now curNtp =
     (let p = b8 [] (if first then 0x90 else 0x80);
          p = b8 p 0xD4;
          p = be16 p 0x0007;
          p = be32 p (now - kLatency);
          p = be32 p (ucast (drop_bit 32 curNtp));
          p = be32 p (ucast (curNtp AND 0xFFFFFFFF))
      in be32 p now)"

definition timing_reply :: "bytes \<Rightarrow> 64 word \<Rightarrow> string" where
  "timing_reply dg now =
     (let r = [byte_char (dg ! 0)];
          r = b8 r 0xD3;
          r = be16 r 0x0007;
          r = be32 r 0;
          r = r @ toStr (take 8 (drop 24 dg));
          r = be32 r (ucast (drop_bit 32 now));
          r = be32 r (ucast (now AND 0xFFFFFFFF));
          r = be32 r (ucast (drop_bit 32 now))
      in be32 r (ucast (now AND 0xFFFFFFFF)))"

definition retransmit_reply :: "16 word \<Rightarrow> string \<Rightarrow> string" where
  "retransmit_reply s pkt = be16 (b8 (b8 [] 0x80) 0xD6) s @ pkt"

section \<open>ALAC\<close>

text \<open>The bit writer \<open>put\<close>: finished bytes, the byte being filled and the bits in it.\<close>

record bit_writer =
  bw_out :: string
  bw_cur :: byte
  bw_filled :: nat

definition put_bit :: "bool \<Rightarrow> bit_writer \<Rightarrow> bit_writer" where
  "put_bit b w =
     (let cur = push_bit 1 (bw_cur w) OR (if b then 1 else 0); filled = bw_filled w + 1
      in if filled = 8 then \<lparr>bw_out = bw_out w @ [byte_char cur], bw_cur = 0, bw_filled = 0\<rparr>
         else \<lparr>bw_out = bw_out w, bw_cur = cur, bw_filled = filled\<rparr>)"

fun put :: "32 word \<Rightarrow> nat \<Rightarrow> bit_writer \<Rightarrow> bit_writer" where
  "put v 0 w = w"
| "put v (Suc i) w = put v i (put_bit (drop_bit i v AND 1 = 1) w)"

definition encodeAlacFrame :: "16 word list \<Rightarrow> string" where
  "encodeAlacFrame samples =
     (let w = \<lparr>bw_out = [], bw_cur = 0, bw_filled = 0\<rparr>;
          w = put 1 3 w;
          w = put 0 4 w;
          w = put 0 12 w;
          w = put 0 1 w;
          w = put 0 2 w;
          w = put 1 1 w;
          w = fold (\<lambda>s. put (ucast s) 16) samples w;
          w = put 7 3 w
      in if 0 < bw_filled w then bw_out w @ [byte_char (push_bit (8 - bw_filled w) (bw_cur w))] else bw_out w)"

section \<open>What the bit writer writes\<close>

fun word_bits :: "'a::len word \<Rightarrow> nat \<Rightarrow> bool list" where
  "word_bits v 0 = []"
| "word_bits v (Suc n) = bit v n # word_bits v n"

definition string_bits :: "string \<Rightarrow> bool list" where
  "string_bits s = concat (map (\<lambda>c. word_bits (char_byte c) 8) s)"

definition bw_bits :: "bit_writer \<Rightarrow> bool list" where
  "bw_bits w = string_bits (bw_out w) @ word_bits (bw_cur w) (bw_filled w)"

lemma length_word_bits [simp]: "length (word_bits v n) = n"
  by (induction n) auto

lemma bit_shift_in:
  fixes c :: byte
  shows "bit (push_bit 1 c OR (if b then 1 else 0)) 0 = b"
    and "Suc n < 8 \<Longrightarrow> bit (push_bit 1 c OR (if b then 1 else 0)) (Suc n) = bit c n"
  by (simp_all only: bit_or_iff bit_push_bit_iff) (auto simp: bit_1_iff)

lemma word_bits_shift:
  fixes c :: byte
  shows "n < 8 \<Longrightarrow> word_bits (push_bit 1 c OR (if b then 1 else 0)) (Suc n) = word_bits c n @ [b]"
proof (induction n)
  case 0
  show ?case by (simp only: word_bits.simps bit_shift_in(1)) simp
next
  case (Suc n)
  from Suc.prems have l: "Suc n < 8" "n < 8" by simp_all
  from Suc.IH [OF l(2)] show ?case
    by (simp only: word_bits.simps(2) [of _ "Suc n"] word_bits.simps(2) [of c n] bit_shift_in(2) [OF l(1)]) simp
qed

lemma put_bit_bits:
  assumes "bw_filled w < 8"
  shows "bw_bits (put_bit b w) = bw_bits w @ [b] \<and> bw_filled (put_bit b w) < 8"
proof (cases "bw_filled w + 1 = 8")
  case True
  then have f: "Suc (bw_filled w) = 8" by simp
  show ?thesis
    using word_bits_shift [OF assms, of "bw_cur w" b] True unfolding f
    by (simp add: put_bit_def bw_bits_def Let_def string_bits_def)
next
  case False
  then show ?thesis
    using assms word_bits_shift [OF assms, of "bw_cur w" b]
    by (simp only: put_bit_def bw_bits_def Let_def if_False bit_writer.simps) simp
qed

lemma put_bits:
  "bw_filled w < 8 \<Longrightarrow> bw_bits (put v n w) = bw_bits w @ word_bits v n \<and> bw_filled (put v n w) < 8"
proof (induction n arbitrary: w)
  case 0
  then show ?case by simp
next
  case (Suc n)
  have "(drop_bit n v AND 1 = 1) = bit v n"
    by (simp add: and_one_eq bit_iff_odd_drop_bit odd_iff_mod_2_eq_one)
  with Suc put_bit_bits [of w "bit v n"] show ?case by simp
qed

lemma length_string_bits [simp]: "length (string_bits s) = 8 * length s"
  by (induction s) (simp_all add: string_bits_def)

lemma length_bw_bits: "length (bw_bits w) = 8 * length (bw_out w) + bw_filled w"
  by (simp add: bw_bits_def)

lemma word_bits_pad:
  fixes c :: byte
  shows "k + n \<le> 8 \<Longrightarrow> word_bits (push_bit k c) (k + n) = word_bits c n @ replicate k False"
proof (induction n)
  case 0
  have "word_bits (push_bit k c) m = replicate m False" if "m \<le> k" for m
    using that by (induction m) (auto simp: bit_push_bit_iff)
  then show ?case by simp
next
  case (Suc n)
  then have "bit (push_bit k c) (k + n) = bit c n" by (simp add: bit_push_bit_iff)
  with Suc show ?case by simp
qed

lemma word_bits_ucast: "n \<le> 16 \<Longrightarrow> word_bits (ucast (s :: 16 word) :: 32 word) n = word_bits s n"
  by (induction n) (simp_all add: bit_ucast_iff)

lemma fold_put_bits:
  "bw_filled w < 8 \<Longrightarrow>
   bw_bits (fold (\<lambda>s. put (ucast s) 16) samples w) = bw_bits w @ concat (map (\<lambda>s. word_bits (s :: 16 word) 16) samples)
     \<and> bw_filled (fold (\<lambda>s. put (ucast s) 16) samples w) < 8"
proof (induction samples arbitrary: w)
  case (Cons s samples)
  with put_bits [of w "ucast s" 16] show ?case by (simp add: word_bits_ucast)
qed simp

definition alac_head_bits :: "bool list" where
  "alac_head_bits = [False, False, True] @ replicate 4 False @ replicate 12 False @ [False]
     @ replicate 2 False @ [True]"

lemma alac_head:
  "bw_bits (put 1 1 (put 0 2 (put 0 1 (put 0 12 (put 0 4 (put 1 3 \<lparr>bw_out = [], bw_cur = 0, bw_filled = 0\<rparr>))))))
     = alac_head_bits"
  "bw_filled (put 1 1 (put 0 2 (put 0 1 (put 0 12 (put 0 4 (put 1 3 \<lparr>bw_out = [], bw_cur = 0, bw_filled = 0\<rparr>)))))) < 8"
  by code_simp+

lemma encodeAlacFrame_bits:
  "string_bits (encodeAlacFrame samples) =
     alac_head_bits @ concat (map (\<lambda>s. word_bits s 16) samples) @ [True, True, True] @ replicate 6 False"
proof -
  define w0 where "w0 = put 1 1 (put 0 2 (put 0 1 (put 0 12 (put 0 4 (put 1 3 \<lparr>bw_out = [], bw_cur = 0, bw_filled = 0\<rparr>)))))"
  define w1 where "w1 = put 7 3 (fold (\<lambda>s. put (ucast s) 16) samples w0)"
  have w0: "bw_bits w0 = alac_head_bits" "bw_filled w0 < 8"
    unfolding w0_def by (rule alac_head)+
  have t: "word_bits (7 :: 32 word) 3 = [True, True, True]" by code_simp
  have w1: "bw_bits w1 = alac_head_bits @ concat (map (\<lambda>s. word_bits s 16) samples) @ [True, True, True]"
      "bw_filled w1 < 8"
    using fold_put_bits [OF w0(2), of samples] put_bits [of "fold (\<lambda>s. put (ucast s) 16) samples w0" 7 3]
    by (simp_all add: w1_def w0(1) t)
  have "length (bw_bits w1) = 26 + 16 * length samples"
    unfolding w1(1) by (simp add: alac_head_bits_def length_concat comp_def sum_list_triv)
  then have "8 * length (bw_out w1) + bw_filled w1 = 26 + 16 * length samples"
    by (simp add: length_bw_bits)
  with w1(2) have f: "bw_filled w1 = 2" by presburger
  then have "encodeAlacFrame samples = bw_out w1 @ [byte_char (push_bit 6 (bw_cur w1))]"
    by (simp add: encodeAlacFrame_def Let_def w1_def w0_def)
  then have "string_bits (encodeAlacFrame samples) = bw_bits w1 @ replicate 6 False"
    using word_bits_pad [of 6 2 "bw_cur w1"] f by (simp add: string_bits_def bw_bits_def)
  with w1(1) show ?thesis by simp
qed

lemma length_encodeAlacFrame: "length (encodeAlacFrame samples) = 2 * length samples + 4"
proof -
  have "8 * length (encodeAlacFrame samples) = length (string_bits (encodeAlacFrame samples))" by simp
  also have "\<dots> = 32 + 16 * length samples"
    unfolding encodeAlacFrame_bits by (simp add: alac_head_bits_def length_concat comp_def sum_list_triv)
  finally show ?thesis by simp
qed

text \<open>
  C31. The ALAC escape frame is bit-exact for every packet of samples: the 23 header bits of an
  uncompressed stereo element, each sample's sixteen bits most significant first, the end tag
  and six padding bits, in \<open>2 n + 4\<close> bytes.
\<close>

theorem alac_frame_layout:
  "string_bits (encodeAlacFrame samples) =
     alac_head_bits @ concat (map (\<lambda>s. word_bits s 16) samples) @ [True, True, True] @ replicate 6 False
   \<and> length (encodeAlacFrame samples) = 2 * length samples + 4"
  by (simp add: encodeAlacFrame_bits length_encodeAlacFrame)

section \<open>The two clocks\<close>

lemma unat_ntp2ts: "unat (ntp2ts ntp kRaopRate) = unat ntp div 65536 * 44100 div 65536"
proof -
  have b: "unat ntp div 65536 < 2 ^ 48" using unsigned_less [of ntp] by (simp add: div_less_iff_less_mult)
  have "unat (drop_bit 16 ntp * ucast kRaopRate) = unat ntp div 65536 * 44100"
    using b by (simp add: unat_word_ariths unat_shr kRaopRate_def mod_less)
  then show ?thesis by (simp only: ntp2ts_def unat_shr) simp
qed

lemma unat_ts2ntp:
  assumes "unat ts < 2 ^ 48" shows "unat (ts2ntp ts kRaopRate) = unat ts * 65536 div 44100 * 65536 mod 2 ^ 64"
proof -
  have p: "unat (push_bit n (w :: 64 word)) = unat w * 2 ^ n mod 2 ^ 64" for n w
    by (simp add: unsigned_push_bit_eq take_bit_eq_mod) (simp add: push_bit_eq_mult)
  have "unat (push_bit 16 ts) = unat ts * 65536"
    unfolding p using assms by simp
  then have "unat (push_bit 16 ts div ucast kRaopRate) = unat ts * 65536 div 44100"
    by (simp only: unat_div) (simp add: kRaopRate_def)
  then show ?thesis by (simp only: ts2ntp_def p) simp
qed

text \<open>
  The NTP time a sync packet carries is the one the timeline was started from: converting
  any 64-bit NTP time to frames at 44100 Hz and back never overflows, never gives a later time,
  and loses less than three units of 2^-16 s (46 microseconds, two frames).
\<close>

theorem ntp_roundtrip:
  "unat (ts2ntp (ntp2ts ntp kRaopRate) kRaopRate) \<le> unat ntp
   \<and> unat ntp < unat (ts2ntp (ntp2ts ntp kRaopRate) kRaopRate) + 3 * 2 ^ 16"
proof -
  define a where "a = unat ntp div 65536"
  define t where "t = a * 44100 div 65536"
  define b where "b = t * 65536 div 44100"
  have a: "a < 2 ^ 48" using unsigned_less [of ntp] by (simp add: a_def div_less_iff_less_mult)
  have t: "unat (ntp2ts ntp kRaopRate) = t" by (simp add: unat_ntp2ts t_def a_def)
  have "t < 2 ^ 48" using a by (simp add: t_def div_less_iff_less_mult)
  have q: "x div m * m \<le> x" "x < x div m * m + m" if "0 < m" for x m :: nat
    using that mod_less_divisor [of m x] div_mult_mod_eq [of x m] by linarith+
  have "t * 65536 \<le> a * 44100" "a * 44100 < t * 65536 + 65536" "b * 44100 \<le> t * 65536" "t * 65536 < b * 44100 + 44100"
    using q [of 65536 "a * 44100"] q [of 44100 "t * 65536"] by (simp_all add: t_def b_def)
  then have le: "b \<le> a" and ge: "a \<le> b + 2" by linarith+
  have "unat (ts2ntp (ntp2ts ntp kRaopRate) kRaopRate) = b * 65536"
    using unat_ts2ntp [of "ntp2ts ntp kRaopRate"] t \<open>t < 2 ^ 48\<close> le a by (simp add: b_def)
  moreover have "unat ntp < (a + 1) * 65536" "a * 65536 \<le> unat ntp"
    using q [of 65536 "unat ntp"] by (simp_all add: a_def)
  ultimately show ?thesis using le ge by simp
qed

section \<open>Packet layouts\<close>

lemma be_bytes_Suc: "be_bytes (Suc n) w = ucast (drop_bit (8 * n) w) # be_bytes n w"
  by simp

lemma be32_halves:
  "be_bytes 4 (ucast (drop_bit 32 w) :: 32 word) @ be_bytes 4 (ucast (w AND 0xFFFFFFFF) :: 32 word)
     = be_bytes 8 (w :: 64 word)"
proof -
  have hi: "(ucast (drop_bit k (ucast (drop_bit 32 w) :: 32 word)) :: byte) = ucast (drop_bit (k + 32) w)"
    if "k \<le> 24" for k
    using that by (intro bit_word_eqI) (auto simp: bit_simps ac_simps)
  have m: "w AND 0xFFFFFFFF = take_bit 32 w"
    by (rule bit_word_eqI) (simp add: take_bit_eq_mask mask_numeral)
  have lo: "(ucast (drop_bit k (ucast (w AND 0xFFFFFFFF) :: 32 word)) :: byte) = ucast (drop_bit k w)"
    if "k \<le> 24" for k
    unfolding m using that by (intro bit_word_eqI) (auto simp: bit_simps)
  show ?thesis
    using hi [of 24] hi [of 16] hi [of 8] hi [of 0] lo [of 24] lo [of 16] lo [of 8] lo [of 0]
    by (simp add: eval_nat_numeral)
qed

text \<open>
  The reply to a timing request: 32 bytes in which the request's own send time (its bytes 24
  to 31) comes back as the reference time, followed by our NTP time as receive and as send time.
\<close>

theorem timing_reply_layout:
  assumes "32 \<le> length dg"
  shows "toBytes (timing_reply dg now) =
     [dg ! 0, 0xD3, 0, 7, 0, 0, 0, 0] @ take 8 (drop 24 dg) @ be_bytes 8 now @ be_bytes 8 now
   \<and> length (timing_reply dg now) = 32"
proof -
  have "be_bytes 2 (7 :: 16 word) = [0, 7]" "be_bytes 4 (0 :: 32 word) = [0, 0, 0, 0]" by code_simp+
  then have r: "toBytes (timing_reply dg now) =
     [dg ! 0, 0xD3, 0, 7, 0, 0, 0, 0] @ take 8 (drop 24 dg) @ be_bytes 8 now @ be_bytes 8 now"
    by (simp add: timing_reply_def Let_def be32_halves [symmetric] toBytes_def [of "[_]"])
  have "length (timing_reply dg now) = length (toBytes (timing_reply dg now))" by simp
  also have "\<dots> = 32" unfolding r using assms by simp
  finally show ?thesis using r by simp
qed

theorem timing_reply_layout_witness:
  "toBytes (timing_reply (replicate 32 1) 5) =
     [1, 0xD3, 0, 7, 0, 0, 0, 0] @ replicate 8 1 @ be_bytes 8 (5 :: 64 word) @ be_bytes 8 (5 :: 64 word)
   \<and> length (timing_reply (replicate 32 1) 5) = 32"
  using timing_reply_layout [of "replicate 32 1" 5] by simp

text \<open>
  The sync packet: 20 bytes carrying the play-out position, the 64-bit NTP time and the
  position of the frame just sent, the two positions exactly one latency apart (modulo 2^32).
\<close>

theorem sync_packet_layout:
  "toBytes (sync_packet first now ntp) =
     [if first then 0x90 else 0x80, 0xD4, 0, 7] @ be_bytes 4 (now - 66150) @ be_bytes 8 ntp @ be_bytes 4 now"
proof -
  have "be_bytes 2 (7 :: 16 word) = [0, 7]" by code_simp
  moreover have "kLatency = 66150" by (simp add: kLatency_def)
  moreover have "toBytes [] = []" by (simp add: toBytes_def)
  ultimately show ?thesis by (simp add: sync_packet_def Let_def be32_halves [symmetric])
qed

section \<open>The pacer's arithmetic\<close>

text \<open>
  Until the product of the elapsed nanoseconds and the rate leaves 64 bits, the pacer's
  target is the exact number of frames due.
\<close>

theorem pacer_target_exact:
  assumes "unat elapsedNs \<le> 418293516410647"
  shows "unat (pacer_target elapsedNs) = unat elapsedNs * 44100 div 1000000000"
proof -
  have "unat (elapsedNs * ucast kRaopRate) = unat elapsedNs * 44100"
    using assms by (simp add: unat_word_ariths kRaopRate_def mod_less)
  then show ?thesis by (simp only: pacer_target_def unat_div) simp
qed

theorem pacer_target_exact_witness: "unat (pacer_target 8000000) = 352"
  using pacer_target_exact [of 8000000] by simp

text \<open>
  One nanosecond later, after four days and twenty hours of streaming, the product wraps and
  the target falls from 18446744073 frames to 0: no packet is due any more.
\<close>

lemma pacer_target_wraps:
  "pacer_target 418293516410647 = 18446744073 \<and> pacer_target 418293516410648 = 0"
  by (simp add: pacer_target_def kRaopRate_def)

end
