(* ===== verification/Resampler.thy ===== *)
theory Resampler
  imports Complex_Main Ring_Buffer Rtp
begin

text \<open>
  \<open>fillFrames_\<close> of \<open>src/src/raop_sender.cpp\<close>: the next 352 stereo frames out of the PCM ring,
  passed through at 44100 Hz, otherwise linearly interpolated from the device rate. The
  \<open>double\<close> arithmetic is exact rational arithmetic here; the conversion back to 16 bits
  truncates as in the code. What the ring holds and how it is popped is \<open>Ring_Buffer\<close>'s model.
\<close>

section \<open>The staging state\<close>

record resampler =
  rs_ring :: "16 word RingBuffer option"
  rs_inputRate :: "32 word"
  rs_inBuf :: "16 word list"
  rs_srcPhase :: rat

text \<open>\<open>int16_t(x)\<close> of a \<open>double\<close>: truncation toward zero.\<close>

definition trunc :: "rat \<Rightarrow> int" where
  "trunc x = (if 0 \<le> x then \<lfloor>x\<rfloor> else - \<lfloor>- x\<rfloor>)"

definition lerp :: "16 word \<Rightarrow> 16 word \<Rightarrow> rat \<Rightarrow> 16 word" where
  "lerp a b t = word_of_int (trunc (of_int (sint a) + of_int (sint b - sint a) * t))"

text \<open>
  The interpolation loop: \<open>n\<close> frames wanted, \<open>bufFrames\<close> staged; it stops when the frame at the
  phase has no right neighbour.
\<close>

fun interpolate :: "nat \<Rightarrow> 16 word list \<Rightarrow> nat \<Rightarrow> rat \<Rightarrow> rat \<Rightarrow> 16 word list \<times> rat" where
  "interpolate 0 buf bufFrames step phase = ([], phase)"
| "interpolate (Suc n) buf bufFrames step phase =
     (let i0 = nat \<lfloor>phase\<rfloor>
      in if i0 + 1 \<ge> bufFrames then ([], phase)
         else let t = phase - of_nat i0;
                  l = lerp (buf ! (i0 * 2)) (buf ! (i0 * 2 + 2)) t;
                  r = lerp (buf ! (i0 * 2 + 1)) (buf ! (i0 * 2 + 3)) t;
                  (out, ph) = interpolate n buf bufFrames step (phase + step)
              in (l # r # out, ph))"

definition pad_silence :: "nat \<Rightarrow> 16 word list \<Rightarrow> 16 word list" where
  "pad_silence n xs = xs @ replicate (n - length xs) 0"

text \<open>Topping up the staging buffer from the ring: the frames staged then, the buffer, the ring.\<close>

definition top_up :: "16 word list \<Rightarrow> 16 word RingBuffer \<Rightarrow> nat \<times> 16 word list \<times> 16 word RingBuffer" where
  "top_up inBuf ring =
     (let bufFrames = length inBuf div kChannels;
          room = (if kInBufMaxFrames > bufFrames then kInBufMaxFrames - bufFrames else 0);
          ringFrames = unat (availableRead ring) div kChannels;
          pull = min room ringFrames
      in if 0 < pull then
           (case tryPop ring (pull * kChannels) of
              None \<Rightarrow> (bufFrames + pull, inBuf @ replicate (pull * kChannels) 0, ring)
            | Some (xs, ring') \<Rightarrow> (bufFrames + pull, inBuf @ xs, ring'))
         else (bufFrames, inBuf, ring))"

text \<open>
  A pop of as many samples as the reader just saw available; should the ring refuse, the
  destination is left as it was (uninitialised on the stack in the pass-through case).
\<close>

definition fillFrames :: "resampler \<Rightarrow> nat \<Rightarrow> (16 word list \<times> resampler) option" where
  "fillFrames R want =
     (case rs_ring R of
        None \<Rightarrow> Some (replicate (want * kChannels) 0, R)
      | Some ring \<Rightarrow>
        if rs_inputRate R = kRaopRate then
          (let availFrames = unat (availableRead ring) div kChannels;
               take' = min availFrames want
           in if 0 < take' then
                (case tryPop ring (take' * kChannels) of
                   None \<Rightarrow> None
                 | Some (xs, ring') \<Rightarrow> Some (pad_silence (want * kChannels) xs, R\<lparr>rs_ring := Some ring'\<rparr>))
              else Some (replicate (want * kChannels) 0, R))
        else
          (let step = of_nat (unat (rs_inputRate R)) / of_nat (unat kRaopRate);
               (bufFrames, inBuf, ring') = top_up (rs_inBuf R) ring;
               (out, phase) = interpolate want inBuf bufFrames step (rs_srcPhase R);
               keepFrom = nat \<lfloor>phase\<rfloor>;
               drop' = min keepFrom bufFrames
           in Some (pad_silence (want * kChannels) out,
                R\<lparr>rs_ring := Some ring', rs_inBuf := drop (drop' * kChannels) inBuf,
                  rs_srcPhase := phase - of_nat drop'\<rparr>)))"

section \<open>The invariant\<close>

text \<open>
  A well-formed ring with an even number of samples to read is not needed: the samples are
  popped in pairs. The staging buffer holds whole frames, at most 8192, and the phase is never
  negative.
\<close>

definition resampler_ok :: "resampler \<Rightarrow> bool" where
  "resampler_ok R \<longleftrightarrow> (case rs_ring R of None \<Rightarrow> True | Some ring \<Rightarrow> ring_inv ring)
     \<and> even (length (rs_inBuf R)) \<and> length (rs_inBuf R) \<le> kInBufMaxFrames * kChannels
     \<and> 0 \<le> rs_srcPhase R"

lemma available_contents: "ring_inv ring \<Longrightarrow> unat (availableRead ring) = length (ring_contents ring)"
  by (simp add: ring_contents_def availableRead_def)

lemma interpolate_length: "length (fst (interpolate n buf m step ph)) \<le> 2 * n"
proof (induction n arbitrary: ph)
  case (Suc n)
  obtain o1 p1 where "interpolate n buf m step (ph + step) = (o1, p1)" by fastforce
  with Suc [of "ph + step"] show ?case by (simp add: Let_def)
qed simp

lemma interpolate_phase: "0 \<le> step \<Longrightarrow> 0 \<le> ph \<Longrightarrow> 0 \<le> snd (interpolate n buf m step ph)"
proof (induction n arbitrary: ph)
  case (Suc n)
  then have i: "0 \<le> snd (interpolate n buf m step (ph + step))" by simp
  obtain o1 p1 where "interpolate n buf m step (ph + step) = (o1, p1)" by fastforce
  with Suc.prems i show ?case by (simp add: Let_def)
qed simp

lemma length_pad_silence: "length xs \<le> n \<Longrightarrow> length (pad_silence n xs) = n"
  by (simp add: pad_silence_def)

lemma ring_pop_some:
  assumes "ring_inv ring" and "n \<le> unat (availableRead ring)"
  obtains ring' where "tryPop ring n = Some (take n (ring_contents ring), ring')" "ring_inv ring'"
    "ring_contents ring' = drop n (ring_contents ring)"
  using ring.pop_available [OF assms(1)] assms(2) available_contents [OF assms(1)] by metis

text \<open>Pass-through: what the ring has, then silence.\<close>

lemma fillFrames_pass:
  assumes "rs_ring R = Some ring" and "ring_inv ring" and "rs_inputRate R = kRaopRate"
  shows "\<exists>ring'. fillFrames R want = Some
      (let n = min (length (ring_contents ring) div 2) want * 2
       in take n (ring_contents ring) @ replicate (want * 2 - n) 0, R\<lparr>rs_ring := Some ring'\<rparr>)
    \<and> ring_inv ring'
    \<and> ring_contents ring' = drop (min (length (ring_contents ring) div 2) want * 2) (ring_contents ring)"
proof -
  define n where "n = min (length (ring_contents ring) div 2) want"
  note av = available_contents [OF assms(2)]
  show ?thesis
  proof (cases "0 < n")
    case True
    have le: "n * 2 \<le> unat (availableRead ring)" unfolding av n_def
      by (metis div_times_less_eq_dividend min.cobounded1 mult_le_mono1 order_trans)
    obtain ring' where r: "tryPop ring (n * 2) = Some (take (n * 2) (ring_contents ring), ring')" "ring_inv ring'"
        "ring_contents ring' = drop (n * 2) (ring_contents ring)"
      using ring_pop_some [OF assms(2) le] by metis
    have "length (take (n * 2) (ring_contents ring)) = n * 2" using le av by simp
    moreover have "want \<noteq> 0" using True by (auto simp: n_def)
    ultimately show ?thesis
      using True r assms by (intro exI [of _ ring'])
        (simp add: fillFrames_def Let_def kChannels_def av n_def [symmetric] pad_silence_def)
  next
    case False
    then have "length (ring_contents ring) div 2 = 0 \<or> want = 0" by (simp add: n_def)
    with False show ?thesis
      using assms by (intro exI [of _ ring])
        (auto simp: fillFrames_def Let_def kChannels_def av)
  qed
qed

lemma top_up_ok:
  assumes "ring_inv ring" and "even (length buf)" and "length buf \<le> kInBufMaxFrames * kChannels"
  obtains m buf' ring' where "top_up buf ring = (m, buf', ring')" "length buf' = m * 2" "m \<le> kInBufMaxFrames"
    "ring_inv ring'" "buf' @ ring_contents ring' = buf @ ring_contents ring"
proof -
  define bufFrames where "bufFrames = length buf div kChannels"
  define room where "room = (if kInBufMaxFrames > bufFrames then kInBufMaxFrames - bufFrames else 0)"
  define pull where "pull = min room (unat (availableRead ring) div kChannels)"
  have len: "length buf = bufFrames * 2" using assms(2) by (simp add: bufFrames_def kChannels_def)
  have cap: "bufFrames + pull \<le> kInBufMaxFrames"
    using assms(3) len by (auto simp: pull_def room_def kChannels_def)
  have "pull * 2 \<le> unat (availableRead ring)"
    unfolding pull_def kChannels_def
    by (metis div_times_less_eq_dividend min.cobounded2 mult_le_mono1 order_trans)
  then obtain xs ring' where p: "tryPop ring (pull * 2) = Some (xs, ring')" "ring_inv ring'" "length xs = pull * 2"
      "xs @ ring_contents ring' = ring_contents ring"
    using ring_pop_some [OF assms(1)] available_contents [OF assms(1)]
    by (metis append_take_drop_id length_take min.absorb2)
  note unfold = top_up_def Let_def bufFrames_def [symmetric] room_def [symmetric] pull_def [symmetric]
  show thesis
  proof (cases "0 < pull")
    case True
    then have "top_up buf ring = (bufFrames + pull, buf @ xs, ring')"
      using p(1) kChannels_def unfolding unfold by simp
    from that [OF this _ cap p(2)] len p show thesis by simp
  next
    case False
    then have "top_up buf ring = (bufFrames, buf, ring)" unfolding unfold by simp
    from that [OF this _ _ assms(1)] len cap show thesis by simp
  qed
qed

lemma fillFrames_resample:
  assumes R: "resampler_ok R" and ring: "rs_ring R = Some ring" and rate: "rs_inputRate R \<noteq> kRaopRate"
  shows "\<exists>out R'. fillFrames R want = Some (out, R') \<and> length out = want * kChannels \<and> resampler_ok R'"
proof -
  have inv: "ring_inv ring" "even (length (rs_inBuf R))" "length (rs_inBuf R) \<le> kInBufMaxFrames * kChannels"
      "0 \<le> rs_srcPhase R"
    using R ring by (simp_all add: resampler_ok_def)
  obtain m buf ring' where t: "top_up (rs_inBuf R) ring = (m, buf, ring')" "length buf = m * 2"
      "m \<le> kInBufMaxFrames" "ring_inv ring'"
    using top_up_ok [OF inv(1-3)] by metis
  define step :: rat where "step = of_nat (unat (rs_inputRate R)) / of_nat (unat kRaopRate)"
  have st: "0 \<le> step"
    unfolding step_def by (rule divide_nonneg_nonneg; rule of_nat_0_le_iff)
  obtain out phase where o: "interpolate want buf m step (rs_srcPhase R) = (out, phase)"
    by fastforce
  define drop' where "drop' = min (nat \<lfloor>phase\<rfloor>) m"
  have ph: "0 \<le> phase"
    using interpolate_phase [of step "rs_srcPhase R" want buf m] inv(4) o st by simp
  have out: "length out \<le> want * 2"
    using interpolate_length [of want buf m step "rs_srcPhase R"] o by simp
  have "(of_nat drop' :: rat) \<le> of_nat (nat \<lfloor>phase\<rfloor>)" by (simp only: of_nat_le_iff drop'_def min.cobounded1)
  also have "\<dots> \<le> phase" using ph by (simp add: of_nat_nat)
  finally have ph': "0 \<le> phase - of_nat drop'" by simp
  define R' where "R' = R\<lparr>rs_ring := Some ring', rs_inBuf := drop (drop' * kChannels) buf,
      rs_srcPhase := phase - of_nat drop'\<rparr>"
  have "fillFrames R want = Some (pad_silence (want * kChannels) out, R')"
    unfolding fillFrames_def Let_def step_def [symmetric]
    using ring rate t(1) o by (simp add: R'_def drop'_def)
  moreover have "resampler_ok R'"
    using t ph' by (simp add: resampler_ok_def R'_def kChannels_def)
  ultimately show ?thesis using out by (simp add: length_pad_silence kChannels_def)
qed

lemma fillFrames_total:
  assumes "resampler_ok R"
  shows "\<exists>out R'. fillFrames R want = Some (out, R') \<and> length out = want * kChannels \<and> resampler_ok R'"
proof (cases "rs_ring R")
  case None
  with assms show ?thesis by (simp add: fillFrames_def)
next
  case (Some ring)
  show ?thesis
  proof (cases "rs_inputRate R = kRaopRate")
    case True
    have inv: "ring_inv ring" using assms Some by (simp add: resampler_ok_def)
    from fillFrames_pass [OF Some inv True, of want] show ?thesis
      using assms by (auto simp: Let_def kChannels_def resampler_ok_def min_def split: if_splits)
  next
    case False
    then show ?thesis by (rule fillFrames_resample [OF assms Some])
  qed
qed

section \<open>Properties\<close>

text \<open>
  Filling a packet always succeeds and always gives exactly the wanted number of samples,
  whatever the ring holds: the staging buffer keeps whole frames within its bound of 8192, the
  phase never goes negative, and no pop asks for more than was seen available.
\<close>

lemma fillFrames_safe:
  assumes "resampler_ok R"
  shows "\<exists>out R'. fillFrames R want = Some (out, R') \<and> length out = want * 2 \<and> resampler_ok R'"
  using fillFrames_total [OF assms, of want] by (simp add: kChannels_def)

definition resampler_example :: resampler where
  "resampler_example = \<lparr>rs_ring = None, rs_inputRate = 48000, rs_inBuf = [1, 2, 3, 4], rs_srcPhase = 0\<rparr>"

lemma fillFrames_safe_witness:
  "\<exists>out R'. fillFrames resampler_example 352 = Some (out, R') \<and> length out = 704 \<and> resampler_ok R'"
  using fillFrames_safe [of resampler_example 352]
  by (simp add: resampler_example_def resampler_ok_def kInBufMaxFrames_def kChannels_def)

text \<open>The interpolated sample lies between its neighbours, so the 16-bit conversion never wraps.\<close>

lemma trunc_between:
  assumes "of_int lo \<le> x" and "x \<le> of_int hi" shows "lo \<le> trunc x \<and> trunc x \<le> hi"
proof (cases "0 \<le> x")
  case True
  then show ?thesis using assms by (simp add: trunc_def le_floor_iff floor_le_iff)
next
  case False
  have "of_int (- hi) \<le> - x" "- x \<le> of_int (- lo)" using assms by simp_all
  then have "- hi \<le> \<lfloor>- x\<rfloor>" "\<lfloor>- x\<rfloor> \<le> - lo" by (simp_all add: le_floor_iff floor_le_iff)
  with False show ?thesis by (simp add: trunc_def)
qed

lemma sint_of_int_16: "- 32768 \<le> i \<Longrightarrow> i \<le> 32767 \<Longrightarrow> sint (word_of_int i :: 16 word) = i"
  by (simp add: sint_sbintrunc' signed_take_bit_int_eq_self)

lemma lerp_between_aux:
  fixes a b :: int and t :: rat
  assumes "0 \<le> t" and "t \<le> 1" and "a \<le> b"
  shows "of_int a \<le> of_int a + of_int (b - a) * t" and "of_int a + of_int (b - a) * t \<le> of_int b"
proof -
  have d: "(0 :: rat) \<le> of_int (b - a)" using assms(3) by simp
  have "of_int (b - a) * t \<le> of_int (b - a) * 1" by (rule mult_left_mono [OF assms(2) d])
  then show "of_int a + of_int (b - a) * t \<le> of_int b" by simp
  show "of_int a \<le> of_int a + of_int (b - a) * t" using mult_nonneg_nonneg [OF d assms(1)] by simp
qed

lemma lerp_between_aux':
  fixes a b :: int and t :: rat
  assumes "0 \<le> t" and "t \<le> 1" and "b \<le> a"
  shows "of_int b \<le> of_int a + of_int (b - a) * t" and "of_int a + of_int (b - a) * t \<le> of_int a"
proof -
  have "of_int (b - a) * t = - (of_int (a - b) * t)" by (simp add: algebra_simps)
  moreover have "of_int b + of_int (a - b) * t \<le> of_int a" and "of_int b \<le> of_int b + of_int (a - b) * t"
    using lerp_between_aux [OF assms] by simp_all
  ultimately show "of_int b \<le> of_int a + of_int (b - a) * t" and "of_int a + of_int (b - a) * t \<le> of_int a"
    using assms by (simp_all add: algebra_simps)
qed

text \<open>
  Interpolation cannot overflow a sample: at any fraction between 0 and 1 the 16-bit result
  lies between the two neighbouring samples.
\<close>

theorem lerp_between:
  assumes "0 \<le> t" and "t \<le> 1"
  shows "min (sint a) (sint b) \<le> sint (lerp a b t) \<and> sint (lerp a b t) \<le> max (sint a) (sint b)"
proof -
  let ?x = "of_int (sint a) + of_int (sint b - sint a) * t :: rat"
  have b: "of_int (min (sint a) (sint b)) \<le> ?x" "?x \<le> of_int (max (sint a) (sint b))"
    using lerp_between_aux [OF assms, of "sint a" "sint b"] lerp_between_aux' [OF assms, of "sint b" "sint a"]
    by (cases "sint a \<le> sint b"; simp add: min_def max_def)+
  note t = trunc_between [OF b]
  have "- 32768 \<le> min (sint a) (sint b)" "max (sint a) (sint b) \<le> 32767"
    using sint_ge [of a] sint_ge [of b] sint_lt [of a] sint_lt [of b] by simp_all
  with t have "sint (lerp a b t) = trunc ?x"
    unfolding lerp_def by (intro sint_of_int_16) linarith+
  with t show ?thesis by simp
qed

theorem lerp_between_witness:
  "min (sint (100 :: 16 word)) (sint (- 100 :: 16 word)) \<le> sint (lerp 100 (- 100) (1 / 3))
   \<and> sint (lerp 100 (- 100) (1 / 3)) \<le> max (sint (100 :: 16 word)) (sint (- 100 :: 16 word))"
  by (rule lerp_between) simp_all

text \<open>Packet boundaries: the loop stopped after \<open>n\<close> frames goes on where it was, also on a rebased buffer.\<close>

lemma interpolate_add:
  "interpolate n buf m step ph = (o1, ph1) \<Longrightarrow> length o1 = 2 * n \<Longrightarrow>
   interpolate (n + k) buf m step ph = (let (o2, ph2) = interpolate k buf m step ph1 in (o1 @ o2, ph2))"
proof (induction n arbitrary: ph o1)
  case 0
  then show ?case by (simp split: prod.split)
next
  case (Suc n)
  obtain o' p' where i: "interpolate n buf m step (ph + step) = (o', p')" by fastforce
  show ?case
  proof (cases "nat \<lfloor>ph\<rfloor> + 1 \<ge> m")
    case True
    with Suc.prems show ?thesis by (simp add: Let_def)
  next
    case False
    with Suc.prems i have o': "length o' = 2 * n" "p' = ph1" by (auto simp: Let_def)
    with Suc.IH [OF i [unfolded o'(2)]] False Suc.prems i show ?thesis
      by (auto simp: Let_def split: prod.splits)
  qed
qed

lemma interpolate_rebase:
  assumes "0 \<le> step"
  shows "of_nat k \<le> ph \<Longrightarrow> k \<le> m \<Longrightarrow> length buf = m * 2 \<Longrightarrow>
   interpolate n (drop (k * 2) buf) (m - k) step (ph - of_nat k)
     = (let (o2, ph2) = interpolate n buf m step ph in (o2, ph2 - of_nat k))"
proof (induction n arbitrary: ph)
  case (Suc n)
  have f: "nat \<lfloor>ph - of_nat k\<rfloor> = nat \<lfloor>ph\<rfloor> - k"
    by (simp add: floor_diff_of_int [of ph "int k", simplified])
  have "int k \<le> \<lfloor>ph\<rfloor>" using Suc.prems(1) by (simp add: le_floor_iff)
  then have kf: "k \<le> nat \<lfloor>ph\<rfloor>" by simp
  have IH: "interpolate n (drop (k * 2) buf) (m - k) step (ph - of_nat k + step)
      = (let (o2, ph2) = interpolate n buf m step (ph + step) in (o2, ph2 - of_nat k))"
    using Suc.IH [of "ph + step"] Suc.prems assms by (simp add: algebra_simps)
  define i where "i = nat \<lfloor>ph\<rfloor> - k"
  have i: "nat \<lfloor>ph\<rfloor> = k + i" using kf by (simp add: i_def)
  show ?case
  proof (cases "nat \<lfloor>ph\<rfloor> + 1 \<ge> m")
    case True
    then have "m - k \<le> i + 1" using i by linarith
    with True show ?thesis using f i by (simp add: Let_def)
  next
    case False
    then have "(k + i) * 2 + 3 < length buf" using Suc.prems(3) i by simp
    with False f i IH show ?thesis
      by (auto simp: Let_def algebra_simps split: prod.splits)
  qed
qed (simp add: split_beta)

text \<open>
  Resampling is seamless across packets: a packet of \<open>n\<close> frames followed by one of \<open>k\<close>
  frames from the compacted buffer with the rebased phase gives the same samples as one packet
  of \<open>n + k\<close> frames, for every input rate.
\<close>

lemma resample_seamless:
  assumes "0 \<le> step" and "0 \<le> ph" and "length buf = m * 2"
    and "interpolate n buf m step ph = (o1, ph1)" and "length o1 = 2 * n"
  defines "gone \<equiv> min (nat \<lfloor>ph1\<rfloor>) m"
  shows "fst (interpolate (n + k) buf m step ph)
    = o1 @ fst (interpolate k (drop (gone * 2) buf) (m - gone) step (ph1 - of_nat gone))"
proof -
  have p: "0 \<le> ph1" using interpolate_phase [OF assms(1,2), of n buf m] assms(4) by simp
  have "(of_nat gone :: rat) \<le> of_nat (nat \<lfloor>ph1\<rfloor>)" by (simp only: gone_def of_nat_le_iff min.cobounded1)
  also have "\<dots> \<le> ph1" using p by (simp add: of_nat_nat)
  finally have "of_nat gone \<le> ph1" .
  from interpolate_rebase [OF assms(1) this _ assms(3), of k] interpolate_add [OF assms(4,5), of k]
  show ?thesis by (simp add: gone_def split_beta)
qed

lemma resample_seamless_witness:
  "fst (interpolate (1 + 1) [10, 20, 30, 40, 50, 60, 70, 80] 4 (3 / 2) 0)
    = [10, 20] @ fst (interpolate 1 (drop (1 * 2) [10, 20, 30, 40, 50, 60, 70, 80]) (4 - 1) (3 / 2) (3 / 2 - 1))"
proof -
  have i: "interpolate 1 [10, 20, 30, 40, 50, 60, 70, 80 :: 16 word] 4 (3 / 2) 0 = ([10, 20], 3 / 2)"
    by (simp add: lerp_def trunc_def)
  have "\<lfloor>3 / 2 :: rat\<rfloor> = 1" by (rule floor_unique) simp_all
  then have g: "min (nat \<lfloor>3 / 2 :: rat\<rfloor>) 4 = 1" by simp
  show ?thesis
    using resample_seamless [of "3 / 2" 0 "[10, 20, 30, 40, 50, 60, 70, 80]" 4 1 "[10, 20]" "3 / 2" 1] i
    unfolding g by simp
qed

end
