(* ===== verification/Log_Format.thy ===== *)
theory Log_Format
  imports Text_Util
begin

text \<open>
  \<open>raopFormat\<close> of \<open>src/src/raop_log.h\<close>, which builds the log lines and the error texts handed to
  the application, with the rendering of its arguments and the sink that log lines go to. What
  \<open>raopFormat\<close> takes here are the rendered arguments.
\<close>

section \<open>Arguments\<close>

text \<open>
  The overloads of \<open>appendArg\<close>: texts, C strings that may be null, truth values, characters and
  integers; an integer of any width, \<open>uint8_t\<close> included, prints as a number. The program formats
  nothing else.
\<close>

datatype log_arg = Arg_text string | Arg_cstr "string option" | Arg_bool bool | Arg_char char | Arg_int int

fun appendArg :: "string \<Rightarrow> log_arg \<Rightarrow> string" where
  "appendArg out (Arg_text v) = out @ v"
| "appendArg out (Arg_cstr v) = out @ (case v of None \<Rightarrow> ''(null)'' | Some t \<Rightarrow> t)"
| "appendArg out (Arg_bool b) = out @ (if b then ''true'' else ''false'')"
| "appendArg out (Arg_char c) = out @ [c]"
| "appendArg out (Arg_int i) = out @ to_string i"

section \<open>Formats\<close>

fun format_plain :: "string \<Rightarrow> string" where
  "format_plain (c # d # s) =
     (if (c = CHR ''{'' \<or> c = CHR ''}'') \<and> d = c then c # format_plain s else c # format_plain (d # s))"
| "format_plain s = s"

function format_args :: "string \<Rightarrow> string list \<Rightarrow> string" where
  "format_args fmt [] = format_plain fmt"
| "format_args [] (a # args) = []"
| "format_args (c # s) (a # args) =
     (if c = CHR ''{'' then
        (if starts_with s ''{'' then CHR ''{'' # format_args (tl s) (a # args)
         else case find_chr s (CHR ''}'') of
                None \<Rightarrow> c # s
              | Some j \<Rightarrow> a @ format_args (drop (j + 1) s) args)
      else if c = CHR ''}'' \<and> starts_with s ''}'' then CHR ''}'' # format_args (tl s) (a # args)
      else c # format_args s (a # args))"
  by pat_completeness auto
termination by (relation "measure (\<lambda>(fmt, args). length fmt)") auto

definition raopFormat :: "string \<Rightarrow> string list \<Rightarrow> string" where
  "raopFormat fmt args = format_args fmt args"

text \<open>
  \<open>info_\<close> and \<open>warn_\<close> of \<open>RaopSender\<close>: the line is built only when there is a sink; the sink
  is a list of the lines it was given.
\<close>

datatype RaopLogLevel = Log_Info | Log_Warn

type_synonym RaopLogSink = "(RaopLogLevel \<times> string) list option"

definition log_to :: "RaopLogLevel \<Rightarrow> RaopLogSink \<Rightarrow> string \<Rightarrow> log_arg list \<Rightarrow> RaopLogSink" where
  "log_to lvl sink fmt args =
     (case sink of None \<Rightarrow> None | Some lines \<Rightarrow> Some (lines @ [(lvl, raopFormat fmt (map (appendArg []) args))]))"

definition log_info :: "RaopLogSink \<Rightarrow> string \<Rightarrow> log_arg list \<Rightarrow> RaopLogSink" where
  "log_info = log_to Log_Info"

definition log_warn :: "RaopLogSink \<Rightarrow> string \<Rightarrow> log_arg list \<Rightarrow> RaopLogSink" where
  "log_warn = log_to Log_Warn"

section \<open>What a format does\<close>

definition no_brace :: "string \<Rightarrow> bool" where
  "no_brace s \<longleftrightarrow> CHR ''{'' \<notin> set s \<and> CHR ''}'' \<notin> set s"

lemma starts_with_one: "starts_with s [c] \<longleftrightarrow> (\<exists>t. s = c # t)"
  by (cases s) auto

lemma format_plain_id: "no_brace s \<Longrightarrow> format_plain s = s"
  by (induction s rule: format_plain.induct) (auto simp: no_brace_def)

lemma format_args_text: "no_brace s \<Longrightarrow> args \<noteq> [] \<Longrightarrow> format_args (s @ t) args = s @ format_args t args"
  by (induction s) (auto simp: no_brace_def neq_Nil_conv)

lemma format_args_hole: "format_args (''{}'' @ t) (a # args) = a @ format_args t args"
  by (simp add: find_chr_def starts_with_one)

text \<open>The text with its holes filled in order; surplus holes stay, surplus arguments are dropped.\<close>

fun fill_holes :: "string list \<Rightarrow> string list \<Rightarrow> string" where
  "fill_holes [] args = []"
| "fill_holes [t] args = t"
| "fill_holes (t # ts) [] = t @ ''{}'' @ fill_holes ts []"
| "fill_holes (t # ts) (a # args) = t @ a @ fill_holes ts args"

fun with_holes :: "string list \<Rightarrow> string" where
  "with_holes [] = []"
| "with_holes [t] = t"
| "with_holes (t # ts) = t @ ''{}'' @ with_holes ts"

lemma format_plain_holes: "list_all no_brace ts \<Longrightarrow> format_plain (with_holes ts) = with_holes ts"
proof (induction ts rule: with_holes.induct)
  case (3 t t' ts)
  have h: "no_brace t \<Longrightarrow> format_plain (t @ ''{}'' @ u) = t @ ''{}'' @ format_plain u"
    if u: "u = [] \<or> hd u \<noteq> CHR ''}''" for u
  proof (induction t)
    case Nil
    then show ?case using u by (cases u) auto
  next
    case (Cons c t)
    then show ?case by (cases t) (auto simp: no_brace_def)
  qed
  have "with_holes (t' # ts) = [] \<or> hd (with_holes (t' # ts)) \<noteq> CHR ''}''"
    using 3(2) by (cases t'; cases ts) (auto simp: no_brace_def)
  from 3 h [OF this] show ?case by simp
qed (simp_all add: format_plain_id)

text \<open>
  \<open>raopFormat\<close> puts the arguments into the holes in order, whatever characters the
  arguments themselves hold (a receiver's name cannot inject a format); missing arguments
  leave the rest as written and surplus ones are dropped.
\<close>

theorem raopFormat_fills:
  assumes "list_all no_brace ts"
  shows "raopFormat (with_holes ts) args = fill_holes ts args"
  using assms unfolding raopFormat_def
proof (induction ts args rule: fill_holes.induct)
  case (1 args)
  then show ?case by (cases args) simp_all
next
  case (2 t args)
  then show ?case
    using format_args_text [of t args "[]"] by (cases args) (simp_all add: format_plain_id)
next
  case (3 t t' ts)
  then show ?case using format_plain_holes [of "t # t' # ts"] format_plain_holes [of "t' # ts"] by simp
next
  case (4 t t' ts a args)
  then have "format_args (t @ ''{}'' @ with_holes (t' # ts)) (a # args)
      = t @ format_args (''{}'' @ with_holes (t' # ts)) (a # args)"
    by (intro format_args_text) simp_all
  with 4 show ?case by (simp add: format_args_hole [simplified])
qed

theorem raopFormat_fills_witness:
  "raopFormat ''Device refused {} ({})'' [''RE{}CORD'', ''453''] = ''Device refused RE{}CORD (453)''"
  using raopFormat_fills [of "[''Device refused '', '' ('', '')'']" "[''RE{}CORD'', ''453'']"]
  by (simp add: no_brace_def)

end
