(* ===== verification/Sender_State.thy ===== *)
theory Sender_State
  imports Channel Resampler Bplist Tlv8 Log_Format
begin

text \<open>
  The state of \<open>RaopSender\<close> (\<open>src/src/raop_sender.h\<close>): its fields, grouped as the header
  groups them, the host interface it writes to (\<open>src/src/raop_io.h\<close>) as a list of actions, and
  the small vocabulary of the handlers: sequencing that stops at a fault, timers, draws of
  random bytes. The clock, the wall clock and the random source are part of the state, so a
  handler is a function of the state it runs on. Log lines are not modelled.
\<close>

section \<open>The host interface\<close>

datatype RaopTcp = TcpControl | TcpEvent
datatype RaopUdp = UdpAudio | UdpControl | UdpTiming

record RaopEndpoint =
  ep_ip :: string
  ep_port :: "16 word"

text \<open>Calls of \<open>RaopIo\<close> and of the application's \<open>RaopEvents\<close>, in the order they are made.\<close>

datatype action =
    TcpConnect RaopTcp string "16 word"
  | TcpSend RaopTcp string
  | TcpClose RaopTcp bool
  | UdpBind RaopUdp
  | UdpSend RaopUdp RaopEndpoint string
  | UdpClose RaopUdp
  | Ev_launched bool string
  | Ev_closed
  | Ev_pinRequired string
  | Ev_credentials string string

section \<open>Session state\<close>

datatype auth = Auth_None | Auth_Password | Auth_AuthSetup | Auth_LegacyPin | Auth_HapTransient | Auth_HapPin

datatype session_state = Idle | Connecting | Pairing | Handshake | Streaming

datatype pair_stage = PS_None | PS_AuthSetup | PS_PinStart | PS_SetupM2 | PS_SetupM4 | PS_SetupM6
  | PS_VerifyM2 | PS_VerifyDone | PS_Ap2Info | PS_Ap2Session | PS_Ap2Record | PS_Ap2Stream | PS_Done

record RaopIdentity =
  id_name :: string
  id_deviceId :: string
  id_model :: string

text \<open>Times are nanoseconds of the monotonic clock.\<close>

record timer =
  t_interval :: int
  t_repeating :: bool
  t_active :: bool
  t_due :: int

abbreviation ms :: "int \<Rightarrow> int" where
  "ms n \<equiv> n * 1000000"

record RaopAp2State =
  a_srp :: "SrpClient option"
  a_ltSeed :: bytes
  a_ltPub :: bytes
  a_pairingId :: bytes
  a_accessoryId :: bytes
  a_accessoryLtpk :: bytes
  a_verifyKeys :: X25519KeyPair
  a_sharedSecret :: bytes
  a_controlOut :: bytes
  a_controlIn :: bytes
  a_eventOut :: bytes
  a_eventIn :: bytes
  a_audioKey :: bytes
  a_audioNonce :: "64 word"
  a_encryptAudio :: bool
  a_sessionUuid :: string
  a_eventPort :: "16 word"

definition fresh_ap2 :: RaopAp2State where
  "fresh_ap2 = \<lparr>a_srp = None, a_ltSeed = [], a_ltPub = [], a_pairingId = [], a_accessoryId = [],
     a_accessoryLtpk = [], a_verifyKeys = \<lparr>kp_pub = [], kp_priv = []\<rparr>, a_sharedSecret = [],
     a_controlOut = [], a_controlIn = [], a_eventOut = [], a_eventIn = [], a_audioKey = [],
     a_audioNonce = 0, a_encryptAudio = False, a_sessionUuid = [], a_eventPort = 0\<rparr>"

record env_part =
  s_now :: int
  s_wall :: "64 word"
  s_draws :: nat
  s_out :: "action list"

record rtsp_part = env_part +
  s_identity :: RaopIdentity
  s_strictAuth :: bool
  s_rtspConnected :: bool
  s_udpBound :: bool
  s_localIp :: string
  s_hostIp :: string
  s_localControlPort :: "16 word"
  s_localTimingPort :: "16 word"
  s_rxBuf :: string
  s_controlEncrypted :: bool
  s_ctrlSendCtr :: "64 word"
  s_ctrlRecvCtr :: "64 word"
  s_rtspEncBuf :: string
  s_eventSendCtr :: "64 word"
  s_eventRecvCtr :: "64 word"
  s_eventEncBuf :: string
  s_eventPlainBuf :: string
  s_pendingMethods :: "string list"
  s_cseq :: int
  s_sessionId :: "32 word"
  s_dacpId :: string
  s_activeRemote :: "32 word"
  s_rtspSession :: string
  s_host :: string
  s_name :: string
  s_state :: session_state

record stream_part = rtsp_part +
  s_serverPort :: "16 word"
  s_controlPort :: "16 word"
  s_timingPort :: "16 word"
  s_pacer :: timer
  s_syncTimer :: timer
  s_timeout :: timer
  s_pinTimeout :: timer
  s_feedbackTimer :: timer
  s_clockStart :: int
  s_startTs :: "64 word"
  s_framesSent :: "64 word"
  s_seq :: "16 word"
  s_firstAudio :: bool
  s_pendingVolumeDb :: rat
  s_rs :: resampler
  s_backlog :: "string list"
  s_backlogSeq :: "int list"
  s_npTitle :: string
  s_npArtist :: string
  s_npAlbum :: string
  s_npCover :: string
  s_npCoverMime :: string

record sender = stream_part +
  s_pairStage :: pair_stage
  s_authMethod :: auth
  s_airplay2 :: bool
  s_deviceId :: string
  s_credsJson :: string
  s_digestPassword :: string
  s_waitingForPin :: bool
  s_triedTransientAfterPin403 :: bool
  s_srpSalt :: string
  s_srpServerB :: string
  s_pairSetupSessionKey :: bytes
  s_ap2 :: "RaopAp2State option"
  s_pendingIsHttp :: "bool list"
  s_digestRealm :: string
  s_digestNonce :: string
  s_pendingDigestMethod :: string
  s_pendingDigestUri :: string
  s_digestRetried :: bool

definition kNoVolume :: rat where
  "kNoVolume = - 1000"

definition kHandshakeTimeoutMs :: int where "kHandshakeTimeoutMs = 10000"
definition kPinWaitTimeoutMs :: int where "kPinWaitTimeoutMs = 180000"
definition kFeedbackIntervalMs :: int where "kFeedbackIntervalMs = 25000"
definition kPacerMs :: int where "kPacerMs = 8"

section \<open>Sequencing\<close>

text \<open>Statements in order; a fault ends them.\<close>

fun run :: "('s \<Rightarrow> 's result) list \<Rightarrow> 's \<Rightarrow> 's result" where
  "run [] s = Inr s"
| "run (f # fs) s = (case f s of Inl e \<Rightarrow> Inl e | Inr s' \<Rightarrow> run fs s')"

definition emit :: "action \<Rightarrow> sender \<Rightarrow> sender" where
  "emit a s = s\<lparr>s_out := s_out s @ [a]\<rparr>"

definition io :: "action \<Rightarrow> sender \<Rightarrow> sender result" where
  "io a s = Inr (emit a s)"

definition upd :: "(sender \<Rightarrow> sender) \<Rightarrow> sender \<Rightarrow> sender result" where
  "upd f s = Inr (f s)"

definition on_ap2 :: "(RaopAp2State \<Rightarrow> sender \<Rightarrow> sender result) \<Rightarrow> sender \<Rightarrow> sender result" where
  "on_ap2 f s = (case s_ap2 s of None \<Rightarrow> Inl Null_deref | Some a \<Rightarrow> f a s)"

text \<open>\<open>arm_\<close> and \<open>disarm_\<close> take the timer's field.\<close>

definition arm :: "((timer \<Rightarrow> timer) \<Rightarrow> sender \<Rightarrow> sender) \<Rightarrow> sender \<Rightarrow> sender" where
  "arm field s = field (\<lambda>t. t\<lparr>t_due := s_now s + t_interval t, t_active := True\<rparr>) s"

definition disarm :: "((timer \<Rightarrow> timer) \<Rightarrow> sender \<Rightarrow> sender) \<Rightarrow> sender \<Rightarrow> sender" where
  "disarm field s = field (\<lambda>t. t\<lparr>t_active := False\<rparr>) s"

definition stopTimers :: "sender \<Rightarrow> sender" where
  "stopTimers s = disarm s_feedbackTimer_update (disarm s_pinTimeout_update (disarm s_timeout_update
     (disarm s_syncTimer_update (disarm s_pacer_update s))))"

text \<open>One draw from the random source.\<close>

definition draw :: "crypto \<Rightarrow> nat \<Rightarrow> sender \<Rightarrow> bytes \<times> sender" where
  "draw C n s = (c_random C (s_draws s) n, s\<lparr>s_draws := s_draws s + 1\<rparr>)"

definition le_word :: "bytes \<Rightarrow> 'a::len word" where
  "le_word b = foldr (\<lambda>x w. push_bit 8 w OR ucast x) b 0"

definition rand32 :: "crypto \<Rightarrow> sender \<Rightarrow> 32 word \<times> sender" where
  "rand32 C s = (let (b, s) = draw C 4 s in (le_word b, s))"

definition rand64 :: "crypto \<Rightarrow> sender \<Rightarrow> 64 word \<times> sender" where
  "rand64 C s = (let (b, s) = draw C 8 s in (le_word b, s))"

definition rand16 :: "crypto \<Rightarrow> sender \<Rightarrow> 16 word \<times> sender" where
  "rand16 C s = (let (b, s) = draw C 2 s in (le_word b, s))"

definition rtspUri :: "sender \<Rightarrow> string" where
  "rtspUri s = ''rtsp://'' @ s_localIp s @ ''/'' @ to_string (uint (s_sessionId s))"

definition s_rtptime32 :: "sender \<Rightarrow> 32 word" where
  "s_rtptime32 s = rtptime32 (s_framesSent s)"

definition crlf :: string where
  "crlf = [CHR 0x0D, CHR 0x0A]"

text \<open>A freshly constructed sender, before any call.\<close>

definition new_timer :: "int \<Rightarrow> bool \<Rightarrow> timer" where
  "new_timer interval repeating = \<lparr>t_interval = interval, t_repeating = repeating, t_active = False, t_due = 0\<rparr>"

definition new_sender :: "int \<Rightarrow> 64 word \<Rightarrow> sender" where
  "new_sender now wall = \<lparr>s_now = now, s_wall = wall, s_draws = 0, s_out = [],
     s_identity = \<lparr>id_name = ''airplay2-sender-cpp'', id_deviceId = ''AA:BB:CC:DD:EE:FF'', id_model = ''iPhone14,3''\<rparr>,
     s_strictAuth = False, s_rtspConnected = False, s_udpBound = False, s_localIp = [], s_hostIp = [],
     s_localControlPort = 0, s_localTimingPort = 0, s_rxBuf = [], s_controlEncrypted = False,
     s_ctrlSendCtr = 0, s_ctrlRecvCtr = 0, s_rtspEncBuf = [], s_eventSendCtr = 0, s_eventRecvCtr = 0,
     s_eventEncBuf = [], s_eventPlainBuf = [], s_pendingMethods = [], s_cseq = 0, s_sessionId = 0,
     s_dacpId = [], s_activeRemote = 0, s_rtspSession = [], s_host = [], s_name = [], s_state = Idle,
     s_serverPort = 0, s_controlPort = 0, s_timingPort = 0,
     s_pacer = new_timer (ms kPacerMs) True, s_syncTimer = new_timer (ms 1000) True,
     s_timeout = new_timer (ms kHandshakeTimeoutMs) False, s_pinTimeout = new_timer (ms kPinWaitTimeoutMs) False,
     s_feedbackTimer = new_timer (ms kFeedbackIntervalMs) True,
     s_clockStart = 0, s_startTs = 0, s_framesSent = 0, s_seq = 0, s_firstAudio = True,
     s_pendingVolumeDb = kNoVolume,
     s_rs = \<lparr>rs_ring = None, rs_inputRate = kRaopRate, rs_inBuf = [], rs_srcPhase = 0\<rparr>,
     s_backlog = replicate kBacklogSize [], s_backlogSeq = replicate kBacklogSize (- 1),
     s_npTitle = [], s_npArtist = [], s_npAlbum = [], s_npCover = [], s_npCoverMime = [],
     s_pairStage = PS_None, s_authMethod = Auth_None, s_airplay2 = False, s_deviceId = [],
     s_credsJson = [], s_digestPassword = [], s_waitingForPin = False, s_triedTransientAfterPin403 = False,
     s_srpSalt = [], s_srpServerB = [], s_pairSetupSessionKey = [], s_ap2 = None, s_pendingIsHttp = [],
     s_digestRealm = [], s_digestNonce = [], s_pendingDigestMethod = [], s_pendingDigestUri = [],
     s_digestRetried = False\<rparr>"

end
