(* ===== verification/Sender_Wire.thy ===== *)
theory Sender_Wire
  imports Sender_State
begin

text \<open>
  The RTSP plumbing of \<open>src/src/raop_sender.cpp\<close>: writing to the control channel (framed once it
  is encrypted), the three request builders, releasing the sockets, and the two ways a session
  ends (\<open>fail_\<close> and \<open>stop\<close>).
\<close>

text \<open>\<open>writeRtsp_\<close>: the length is taken as an \<open>int\<close>, so the loop runs to \<open>int(data.size())\<close>.\<close>

definition writeRtsp :: "crypto \<Rightarrow> string \<Rightarrow> sender \<Rightarrow> sender result" where
  "writeRtsp C data s =
     (case s_ap2 s of
        Some a \<Rightarrow>
          if \<not> s_controlEncrypted s then io (TcpSend TcpControl data) s
          else let n = nat (sint (of_nat (length data) :: 32 word))
               in case seal_frames C (a_controlOut a) (s_ctrlSendCtr s) (take n data) of
                    Inl e \<Rightarrow> Inl e
                  | Inr (out, ctr) \<Rightarrow> io (TcpSend TcpControl out) (s\<lparr>s_ctrlSendCtr := ctr\<rparr>)
      | None \<Rightarrow> io (TcpSend TcpControl data) s)"

definition hdr :: "string \<Rightarrow> string \<Rightarrow> string" where
  "hdr key val = key @ '': '' @ val @ crlf"

definition hdr_if :: "bool \<Rightarrow> string \<Rightarrow> string \<Rightarrow> string" where
  "hdr_if b key val = (if b then hdr key val else [])"

definition nat_str :: "nat \<Rightarrow> string" where
  "nat_str n = to_string (int n)"

text \<open>The text of a request, as \<open>sendRequest_\<close> assembles it; \<open>cseq\<close> is the number it takes.\<close>

definition request_text :: "crypto \<Rightarrow> string \<Rightarrow> string \<Rightarrow> string \<Rightarrow> string \<Rightarrow> (string \<times> string) list \<Rightarrow> sender \<Rightarrow> string" where
  "request_text C method uri contentType body extra s =
     method @ '' '' @ uri @ '' RTSP/1.0'' @ crlf
     @ hdr ''CSeq'' (to_string (s_cseq s))
     @ hdr ''User-Agent'' ''AirPlay/550.10''
     @ hdr ''DACP-ID'' (s_dacpId s)
     @ hdr ''Active-Remote'' (to_string (uint (s_activeRemote s)))
     @ hdr ''Client-Instance'' (s_dacpId s)
     @ hdr ''X-Apple-Client-Name'' (id_name (s_identity s))
     @ hdr_if (s_digestNonce s \<noteq> [] \<and> s_digestPassword s \<noteq> []) ''Authorization''
         (digestAuthResponse C method uri ''iTunes'' (s_digestRealm s) (s_digestPassword s) (s_digestNonce s))
     @ concat (map (\<lambda>(k, v). hdr k v) extra)
     @ hdr_if (contentType \<noteq> []) ''Content-Type'' contentType
     @ hdr_if (body \<noteq> []) ''Content-Length'' (nat_str (length body))
     @ crlf @ body"

definition queue_method :: "string \<Rightarrow> bool \<Rightarrow> sender \<Rightarrow> sender" where
  "queue_method method isHttp s =
     s\<lparr>s_pendingMethods := s_pendingMethods s @ [method], s_pendingIsHttp := s_pendingIsHttp s @ [isHttp]\<rparr>"

definition sendRequest :: "crypto \<Rightarrow> string \<Rightarrow> string \<Rightarrow> string \<Rightarrow> string \<Rightarrow> (string \<times> string) list \<Rightarrow> sender \<Rightarrow> sender result" where
  "sendRequest C method uri contentType body extra s =
     (let req = request_text C method uri contentType body extra s
      in run
        [upd (\<lambda>s. s\<lparr>s_cseq := s_cseq s + 1\<rparr>),
         upd (queue_method method False),
         upd (\<lambda>s. s\<lparr>s_pendingDigestMethod := method, s_pendingDigestUri := uri\<rparr>),
         writeRtsp C req,
         upd (\<lambda>s. if s_state s = Handshake \<or> s_state s = Pairing then arm s_timeout_update s else s)] s)"

definition http_text :: "string \<Rightarrow> string \<Rightarrow> string \<Rightarrow> sender \<Rightarrow> string" where
  "http_text uri contentType body s =
     ''POST '' @ uri @ '' HTTP/1.1'' @ crlf
     @ hdr ''CSeq'' (to_string (s_cseq s))
     @ hdr ''User-Agent'' ''AirPlay/550.10''
     @ hdr ''Connection'' ''keep-alive''
     @ hdr ''X-Apple-HKP'' (to_string (if s_authMethod s = Auth_HapTransient then 4 else 3))
     @ hdr ''DACP-ID'' (s_dacpId s)
     @ hdr ''Active-Remote'' (to_string (uint (s_activeRemote s)))
     @ hdr ''Client-Instance'' (s_dacpId s)
     @ hdr ''X-Apple-Client-Name'' (id_name (s_identity s))
     @ hdr_if (contentType \<noteq> []) ''Content-Type'' contentType
     @ hdr ''Content-Length'' (nat_str (length body))
     @ crlf @ body"

definition httpPost :: "crypto \<Rightarrow> string \<Rightarrow> string \<Rightarrow> string \<Rightarrow> sender \<Rightarrow> sender result" where
  "httpPost C uri contentType body s =
     (let req = http_text uri contentType body s
      in run
        [upd (\<lambda>s. s\<lparr>s_cseq := s_cseq s + 1\<rparr>),
         upd (queue_method ''POST'' True),
         writeRtsp C req,
         upd (\<lambda>s. if s_waitingForPin s then s else arm s_timeout_update s)] s)"

definition ap2_text :: "string \<Rightarrow> string \<Rightarrow> string \<Rightarrow> string \<Rightarrow> sender \<Rightarrow> string" where
  "ap2_text method uri contentType body s =
     method @ '' '' @ uri @ '' RTSP/1.0'' @ crlf
     @ hdr ''CSeq'' (to_string (s_cseq s))
     @ hdr ''User-Agent'' ''AirPlay/550.10''
     @ hdr ''DACP-ID'' (s_dacpId s)
     @ hdr ''Active-Remote'' (to_string (uint (s_activeRemote s)))
     @ hdr ''Client-Instance'' (s_dacpId s)
     @ hdr ''X-Apple-Client-Name'' (id_name (s_identity s))
     @ hdr_if (method = ''SETUP'') ''X-Apple-StreamID'' ''1''
     @ hdr_if (contentType \<noteq> []) ''Content-Type'' contentType
     @ hdr_if (body \<noteq> []) ''Content-Length'' (nat_str (length body))
     @ crlf @ body"

definition sendAp2Rtsp :: "crypto \<Rightarrow> string \<Rightarrow> string \<Rightarrow> string \<Rightarrow> string \<Rightarrow> sender \<Rightarrow> sender result" where
  "sendAp2Rtsp C method uri contentType body s =
     (let req = ap2_text method uri contentType body s
      in run
        [upd (\<lambda>s. s\<lparr>s_cseq := s_cseq s + 1\<rparr>),
         upd (queue_method method True),
         writeRtsp C req,
         upd (arm s_timeout_update)] s)"

section \<open>Ending a session\<close>

definition releaseSockets :: "sender \<Rightarrow> sender" where
  "releaseSockets s =
     (let s = (if s_udpBound s then
                 (emit (UdpClose UdpTiming) (emit (UdpClose UdpControl) (emit (UdpClose UdpAudio) s)))
                   \<lparr>s_udpBound := False\<rparr>
               else s)
      in emit (TcpClose TcpEvent False) (s\<lparr>s_localControlPort := 0, s_localTimingPort := 0\<rparr>))"

definition fail :: "string \<Rightarrow> sender \<Rightarrow> sender" where
  "fail why s =
     (let wasStarting = s_state s \<noteq> Streaming;
          s = s\<lparr>s_state := Idle\<rparr>;
          s = stopTimers s;
          s = emit (TcpClose TcpControl False) s;
          s = s\<lparr>s_rtspConnected := False\<rparr>;
          s = releaseSockets s;
          s = (if wasStarting then emit (Ev_launched False why) s else s)
      in emit Ev_closed s)"

definition clear_backlog :: "sender \<Rightarrow> sender" where
  "clear_backlog s = s\<lparr>s_backlog := map (\<lambda>b. []) (s_backlog s), s_backlogSeq := replicate kBacklogSize (- 1)\<rparr>"

definition session_extra :: "sender \<Rightarrow> (string \<times> string) list" where
  "session_extra s = (if s_rtspSession s \<noteq> [] then [(''Session'', s_rtspSession s)] else [])"

definition stop :: "crypto \<Rightarrow> sender \<Rightarrow> sender result" where
  "stop C s =
     (if s_state s = Idle then Inr s
      else run
        [upd stopTimers,
         (\<lambda>s. if s_rtspConnected s \<and> (s_rtspSession s \<noteq> [] \<or> s_airplay2 s)
              then sendRequest C ''TEARDOWN'' (rtspUri s) [] [] (session_extra s) s
              else Inr s),
         upd (\<lambda>s. s\<lparr>s_state := Idle\<rparr>),
         io (TcpClose TcpControl True),
         upd (\<lambda>s. s\<lparr>s_rtspConnected := False\<rparr>),
         upd releaseSockets,
         upd clear_backlog] s)"

end
