(* ===== verification/Sender_Stream.thy ===== *)
theory Sender_Stream
  imports Sender_Wire
begin

text \<open>
  The streaming side of \<open>src/src/raop_sender.cpp\<close>: sync and audio packets, the pacer, volume and
  now-playing requests, \<open>startStreaming_\<close>, and the replies to retransmit and timing requests.
\<close>

section \<open>Numbers as text\<close>

text \<open>\<open>"%.6f"\<close>: the nearest multiple of a millionth, ties to even, always with a sign when negative.\<close>

definition round_even :: "rat \<Rightarrow> int" where
  "round_even x =
     (let f = \<lfloor>x\<rfloor>; r = x - of_int f
      in if r < 1 / 2 then f else if 1 / 2 < r then f + 1 else if even f then f else f + 1)"

definition fixed6 :: "rat \<Rightarrow> string" where
  "fixed6 v =
     (let n = nat (round_even (\<bar>v\<bar> * 1000000));
          whole = nat_digits (n div 1000000);
          frac6 = nat_digits (n mod 1000000)
      in (if v < 0 then ''-'' else []) @ whole @ ''.'' @ replicate (6 - length frac6) (CHR ''0'') @ frac6)"

section \<open>Packets\<close>

definition sendSyncPacket :: "bool \<Rightarrow> sender \<Rightarrow> sender" where
  "sendSyncPacket first s =
     (if s_serverPort s = 0 \<or> s_controlPort s = 0 then s
      else let curNtp = ts2ntp (s_startTs s + s_framesSent s) kRaopRate;
               now = s_rtptime32 s
           in emit (UdpSend UdpControl \<lparr>ep_ip = s_hostIp s, ep_port = s_controlPort s\<rparr>
                (sync_packet first now curNtp)) s)"

definition encryptAudioPayload :: "crypto \<Rightarrow> string \<Rightarrow> string \<Rightarrow> sender \<Rightarrow> (string \<times> sender) result" where
  "encryptAudioPayload C rtpHeader payload s =
     (case s_ap2 s of
        None \<Rightarrow> Inr (payload, s)
      | Some a \<Rightarrow>
        if \<not> a_encryptAudio a then Inr (payload, s)
        else let nonce8 = counterNonce8 (a_audioNonce a);
                 aad = toBytes (take 8 (drop 4 rtpHeader))
             in case chacha20Poly1305Encrypt C (a_audioKey a) nonce8 (toBytes payload) aad of
                  Inl e \<Rightarrow> Inl e
                | Inr ct \<Rightarrow> Inr (toStr ct @ toStr nonce8,
                    s\<lparr>s_ap2 := Some (a\<lparr>a_audioNonce := a_audioNonce a + 1\<rparr>)\<rparr>))"

definition audio_encrypted :: "sender \<Rightarrow> bool" where
  "audio_encrypted s = (case s_ap2 s of None \<Rightarrow> False | Some a \<Rightarrow> a_encryptAudio a)"

definition sendAudioPacket :: "crypto \<Rightarrow> sender \<Rightarrow> sender result" where
  "sendAudioPacket C s =
     (case fillFrames (s_rs s) kFramesPerPacket of
        None \<Rightarrow> Inl Out_of_bounds
      | Some (frames, rs) \<Rightarrow>
        let s = s\<lparr>s_rs := rs\<rparr>;
            header = rtp_header (s_firstAudio s) (s_seq s) (s_rtptime32 s) (s_sessionId s);
            payload = (if audio_encrypted s then encodeAlacFrame frames else l16_payload frames)
        in case encryptAudioPayload C header payload s of
             Inl e \<Rightarrow> Inl e
           | Inr (wirePayload, s) \<Rightarrow>
             let pkt = header @ wirePayload;
                 s = emit (UdpSend UdpAudio \<lparr>ep_ip = s_hostIp s, ep_port = s_serverPort s\<rparr> pkt) s;
                 slot = unat (s_seq s AND 0x3FF)
             in Inr (s\<lparr>s_backlog := (s_backlog s)[slot := pkt],
                       s_backlogSeq := (s_backlogSeq s)[slot := uint (s_seq s)],
                       s_firstAudio := False,
                       s_seq := s_seq s + 1,
                       s_framesSent := s_framesSent s + of_nat kFramesPerPacket\<rparr>))"

text \<open>The pacer: at most \<open>k\<close> more packets this tick.\<close>

fun pacer_loop :: "crypto \<Rightarrow> 64 word \<Rightarrow> nat \<Rightarrow> sender \<Rightarrow> sender result" where
  "pacer_loop C target 0 s = Inr s"
| "pacer_loop C target (Suc k) s =
     (if s_framesSent s + of_nat kFramesPerPacket \<le> target
      then (case sendAudioPacket C s of Inl e \<Rightarrow> Inl e | Inr s' \<Rightarrow> pacer_loop C target k s')
      else Inr s)"

definition onPacerTick :: "crypto \<Rightarrow> sender \<Rightarrow> sender result" where
  "onPacerTick C s =
     (let elapsedNs = word_of_int (s_now s - s_clockStart s) :: 64 word
      in pacer_loop C (pacer_target elapsedNs) kMaxPacketsPerTick s)"

section \<open>Volume and now playing\<close>

definition sendVolume :: "crypto \<Rightarrow> sender \<Rightarrow> sender result" where
  "sendVolume C s =
     sendRequest C ''SET_PARAMETER'' (rtspUri s) ''text/parameters''
       (''volume: '' @ fixed6 (s_pendingVolumeDb s)) (session_extra s) s"

definition dbfs_of_pct :: "rat \<Rightarrow> rat" where
  "dbfs_of_pct pct =
     (let pct = (if pct < 0 then 0 else if 100 < pct then 100 else pct)
      in if pct < 1 / 100 then - 144 else (pct * 3 - 300) / 10)"

definition setVolume :: "crypto \<Rightarrow> rat \<Rightarrow> sender \<Rightarrow> sender result" where
  "setVolume C pct s =
     (let s = s\<lparr>s_pendingVolumeDb := dbfs_of_pct pct\<rparr>
      in if s_state s = Streaming then sendVolume C s else Inr s)"

definition dmap_if :: "string \<Rightarrow> string \<Rightarrow> string" where
  "dmap_if code val = (if val = [] then [] else dmapTag code val)"

definition sendMetadata :: "crypto \<Rightarrow> sender \<Rightarrow> sender result" where
  "sendMetadata C s =
     (if s_state s \<noteq> Streaming then Inr s
      else if s_npTitle s = [] \<and> s_npArtist s = [] \<and> s_npAlbum s = [] \<and> s_npCover s = [] then Inr s
      else
        let rtpInfo = ''seq='' @ to_string (uint (s_seq s)) @ '';rtptime='' @ to_string (uint (s_rtptime32 s));
            hdr = session_extra s @ [(''RTP-Info'', rtpInfo)];
            inner = dmap_if ''minm'' (s_npTitle s) @ dmap_if ''asal'' (s_npAlbum s) @ dmap_if ''asar'' (s_npArtist s)
        in run
          [(\<lambda>s. if inner \<noteq> [] then sendRequest C ''SET_PARAMETER'' (rtspUri s) ''application/x-dmap-tagged''
                  (dmapTag ''mlit'' inner) hdr s else Inr s),
           (\<lambda>s. if s_npCover s \<noteq> [] \<and> length (s_npCover s) \<le> 8 * 1024 * 1024
                then sendRequest C ''SET_PARAMETER'' (rtspUri s)
                  (if s_npCoverMime s = [] then ''image/jpeg'' else s_npCoverMime s) (s_npCover s) hdr s
                else Inr s)] s)"

definition setNowPlaying :: "crypto \<Rightarrow> string \<Rightarrow> string \<Rightarrow> string \<Rightarrow> string \<Rightarrow> string \<Rightarrow> sender \<Rightarrow> sender result" where
  "setNowPlaying C title artist album cover coverMime s =
     (let changed = (title \<noteq> s_npTitle s \<or> artist \<noteq> s_npArtist s \<or> album \<noteq> s_npAlbum s
            \<or> cover \<noteq> s_npCover s \<or> coverMime \<noteq> s_npCoverMime s);
          s = s\<lparr>s_npTitle := title, s_npArtist := artist, s_npAlbum := album, s_npCover := cover, s_npCoverMime := coverMime\<rparr>
      in if s_state s = Streaming \<and> changed then sendMetadata C s else Inr s)"

section \<open>Starting\<close>

definition startStreaming :: "crypto \<Rightarrow> sender \<Rightarrow> sender result" where
  "startStreaming C =
     run
       [upd (\<lambda>s. disarm s_timeout_update (s\<lparr>s_state := Streaming\<rparr>)),
        upd (\<lambda>s. s\<lparr>s_startTs := ntp2ts (ntp_of_us (s_wall s)) kRaopRate, s_framesSent := 0,
                   s_firstAudio := True, s_clockStart := s_now s\<rparr>),
        upd (sendSyncPacket True),
        upd (arm s_syncTimer_update),
        upd (\<lambda>s. if s_airplay2 s \<and> s_pendingVolumeDb s \<le> kNoVolume + 1 then s\<lparr>s_pendingVolumeDb := 0\<rparr> else s),
        (\<lambda>s. if kNoVolume + 1 < s_pendingVolumeDb s then sendVolume C s else Inr s),
        upd (arm s_pacer_update),
        (\<lambda>s. if s_airplay2 s
             then Inr (arm s_feedbackTimer_update (s_feedbackTimer_update (\<lambda>t. t\<lparr>t_interval := ms 2000\<rparr>) s))
             else sendRequest C ''POST'' ''/feedback'' [] [] []
                    (s_feedbackTimer_update (\<lambda>t. t\<lparr>t_interval := ms kFeedbackIntervalMs\<rparr>) s)),
        sendMetadata C,
        io (Ev_launched True [])]"

section \<open>Datagrams\<close>

definition retransmit_one :: "RaopEndpoint \<Rightarrow> 16 word \<Rightarrow> sender \<Rightarrow> sender" where
  "retransmit_one from sq s =
     (let slot = unat (sq AND 0x3FF)
      in if s_backlogSeq s ! slot \<noteq> uint sq then s
         else emit (UdpSend UdpControl from (retransmit_reply sq (s_backlog s ! slot))) s)"

definition be_word16 :: "byte \<Rightarrow> byte \<Rightarrow> 16 word" where
  "be_word16 hi lo = push_bit 8 (ucast hi) OR ucast lo"

definition onControlDatagram :: "bytes \<Rightarrow> RaopEndpoint \<Rightarrow> sender \<Rightarrow> sender" where
  "onControlDatagram dg from s =
     (if length dg < 8 then s
      else if (dg ! 1) AND 0x7F \<noteq> 0x55 then s
      else let lostSeq = be_word16 (dg ! 4) (dg ! 5); lostCount = be_word16 (dg ! 6) (dg ! 7)
           in fold (\<lambda>i. retransmit_one from (lostSeq + of_nat i)) [0..<unat lostCount] s)"

definition onTimingDatagram :: "bytes \<Rightarrow> RaopEndpoint \<Rightarrow> sender \<Rightarrow> sender" where
  "onTimingDatagram dg from s =
     (if length dg < 32 then s
      else emit (UdpSend UdpTiming from (timing_reply dg (ntp_of_us (s_wall s)))) s)"

end
