(* ===== verification/Sender_Pairing.thy ===== *)
theory Sender_Pairing
  imports Sender_Stream
begin

text \<open>
  Authentication and the AirPlay 2 set-up of \<open>src/src/raop_sender.cpp\<close>: the auth chain, HAP
  pair-setup (SRP) and pair-verify (X25519, Ed25519), the binary-plist SETUP exchange, and the
  dispatcher \<open>onPairingResponse_\<close> that drives them.
\<close>

section \<open>The classic handshake\<close>

definition sendOptions :: "crypto \<Rightarrow> sender \<Rightarrow> sender result" where
  "sendOptions C = sendRequest C ''OPTIONS'' ''*'' [] [] []"

definition announce_sdp :: "sender \<Rightarrow> string" where
  "announce_sdp s =
     ''v=0'' @ crlf
     @ ''o=iTunes '' @ to_string (uint (s_sessionId s)) @ '' 0 IN IP4 '' @ s_localIp s @ crlf
     @ ''s=iTunes'' @ crlf
     @ ''c=IN IP4 '' @ s_hostIp s @ crlf
     @ ''t=0 0'' @ crlf
     @ ''m=audio 0 RTP/AVP 96'' @ crlf
     @ ''a=rtpmap:96 L16/44100/2'' @ crlf
     @ ''a=fmtp:96 352 0 16 40 10 14 2 255 0 0 44100'' @ crlf"

definition sendAnnounce :: "crypto \<Rightarrow> sender \<Rightarrow> sender result" where
  "sendAnnounce C s = sendRequest C ''ANNOUNCE'' (rtspUri s) ''application/sdp'' (announce_sdp s) [] s"

definition sendSetup :: "crypto \<Rightarrow> sender \<Rightarrow> sender result" where
  "sendSetup C s =
     sendRequest C ''SETUP'' (rtspUri s) [] []
       [(''Transport'', ''RTP/AVP/UDP;unicast;interleaved=0-1;mode=record;control_port=''
          @ to_string (uint (s_localControlPort s)) @ '';timing_port='' @ to_string (uint (s_localTimingPort s)))] s"

definition sendRecord :: "crypto \<Rightarrow> sender \<Rightarrow> sender result" where
  "sendRecord C s =
     sendRequest C ''RECORD'' (rtspUri s) [] []
       ([(''Range'', ''npt=0-''),
         (''RTP-Info'', ''seq='' @ to_string (uint (s_seq s)) @ '';rtptime='' @ to_string (uint (s_rtptime32 s)))]
        @ session_extra s) s"

section \<open>The AirPlay 2 set-up\<close>

definition sendAp2Info :: "crypto \<Rightarrow> sender \<Rightarrow> sender result" where
  "sendAp2Info C s = sendAp2Rtsp C ''GET'' ''/info'' [] [] (s\<lparr>s_pairStage := PS_Ap2Info\<rparr>)"

definition plist_type :: string where
  "plist_type = ''application/x-apple-binary-plist''"

definition word_int :: "'a::len word \<Rightarrow> 64 word" where
  "word_int w = of_nat (unat w)"

definition session_plist :: "RaopAp2State \<Rightarrow> sender \<Rightarrow> pvalue" where
  "session_plist a s = VDict
     [(''deviceID'', VStr (id_deviceId (s_identity s))),
      (''sessionUUID'', VStr (a_sessionUuid a)),
      (''timingPort'', VInt (word_int (s_localTimingPort s))),
      (''timingProtocol'', VStr ''NTP''),
      (''isMultiSelectAirPlay'', VBool True),
      (''groupContainsGroupLeader'', VBool False),
      (''macAddress'', VStr (id_deviceId (s_identity s))),
      (''model'', VStr (id_model (s_identity s))),
      (''name'', VStr (id_name (s_identity s))),
      (''osBuildVersion'', VStr ''20F66''),
      (''osName'', VStr ''iPhone OS''),
      (''osVersion'', VStr ''16.5''),
      (''senderSupportsRelay'', VBool False),
      (''sourceVersion'', VStr ''690.7.1''),
      (''statsCollectionEnabled'', VBool False)]"

definition sendAp2SetupSession :: "crypto \<Rightarrow> sender \<Rightarrow> sender result" where
  "sendAp2SetupSession C =
     on_ap2 (\<lambda>a s. sendAp2Rtsp C ''SETUP'' (rtspUri s) plist_type (toStr (bp_encode (session_plist a s)))
       (s\<lparr>s_pairStage := PS_Ap2Session\<rparr>))"

definition sendAp2Record :: "crypto \<Rightarrow> sender \<Rightarrow> sender result" where
  "sendAp2Record C s = sendAp2Rtsp C ''RECORD'' (rtspUri s) [] [] (s\<lparr>s_pairStage := PS_Ap2Record\<rparr>)"

definition handleAp2SetupSession :: "crypto \<Rightarrow> string \<Rightarrow> sender \<Rightarrow> sender result" where
  "handleAp2SetupSession C body =
     on_ap2 (\<lambda>a s.
       let a = (case bp_decode (toBytes body) of
                  None \<Rightarrow> a
                | Some plist \<Rightarrow> (case bp_find plist ''eventPort'' of
                    None \<Rightarrow> a
                  | Some ep \<Rightarrow> a\<lparr>a_eventPort := ucast (asInt ep 0)\<rparr>));
           s = s\<lparr>s_ap2 := Some a\<rparr>;
           s = (if a_eventPort a \<noteq> 0
                then emit (TcpConnect TcpEvent (s_hostIp s) (a_eventPort a)) (emit (TcpClose TcpEvent False) s)
                else s)
       in sendAp2Record C s)"

definition stream_plist :: "RaopAp2State \<Rightarrow> sender \<Rightarrow> pvalue" where
  "stream_plist a s = VDict [(''streams'', VArr [VDict
     [(''audioFormat'', VInt 0x40000),
      (''audioMode'', VStr ''default''),
      (''controlPort'', VInt (word_int (s_localControlPort s))),
      (''ct'', VInt 2),
      (''isMedia'', VBool True),
      (''latencyMax'', VInt 88200),
      (''latencyMin'', VInt 11025),
      (''shk'', VData (a_audioKey a)),
      (''spf'', VInt 352),
      (''sr'', VInt 44100),
      (''type'', VInt 0x60),
      (''supportsDynamicStreamID'', VBool False),
      (''streamConnectionID'', VInt (word_int (s_sessionId s)))]])]"

definition sendAp2SetupStream :: "crypto \<Rightarrow> sender \<Rightarrow> sender result" where
  "sendAp2SetupStream C =
     on_ap2 (\<lambda>a s.
       let a = a\<lparr>a_audioKey := take 32 (a_sharedSecret a), a_audioNonce := 0, a_encryptAudio := True\<rparr>;
           s = s\<lparr>s_ap2 := Some a\<rparr>
       in sendAp2Rtsp C ''SETUP'' (rtspUri s) plist_type (toStr (bp_encode (stream_plist a s)))
            (s\<lparr>s_pairStage := PS_Ap2Stream\<rparr>))"

text \<open>The ports of the first stream in the reply.\<close>

definition port_of :: "pvalue \<Rightarrow> string \<Rightarrow> 16 word \<Rightarrow> 16 word" where
  "port_of v key old = (case bp_find v key of None \<Rightarrow> old | Some p \<Rightarrow> ucast (asInt p 0))"

definition stream_ports :: "string \<Rightarrow> 16 word \<times> 16 word" where
  "stream_ports body =
     (case bp_decode (toBytes body) of
        None \<Rightarrow> (0, 0)
      | Some plist \<Rightarrow>
        (case bp_find plist ''streams'' of
           Some (VArr (s0 # rest)) \<Rightarrow> (port_of s0 ''dataPort'' 0, port_of s0 ''controlPort'' 0)
         | _ \<Rightarrow> (0, 0)))"

definition handleAp2SetupStream :: "crypto \<Rightarrow> string \<Rightarrow> sender \<Rightarrow> sender result" where
  "handleAp2SetupStream C body s =
     (let (data, control) = stream_ports body;
          s = s\<lparr>s_serverPort := data, s_controlPort := control\<rparr>
      in if data = 0 then Inr (fail ''AirPlay 2 stream SETUP returned no data port'' s)
         else startStreaming C
           (s\<lparr>s_controlPort := (if control = 0 then data else control), s_timingPort := data\<rparr>))"

definition afterAuthOk :: "crypto \<Rightarrow> sender \<Rightarrow> sender result" where
  "afterAuthOk C s =
     (let s = s\<lparr>s_digestRetried := False\<rparr>
      in if s_airplay2 s then
           (let keyed = (case s_ap2 s of None \<Rightarrow> False
                 | Some a \<Rightarrow> length (a_controlOut a) = 32 \<and> length (a_controlIn a) = 32);
                s = (if keyed then s\<lparr>s_controlEncrypted := True, s_ctrlSendCtr := 0, s_ctrlRecvCtr := 0, s_rtspEncBuf := []\<rparr>
                     else s)
            in sendAp2Info C (s\<lparr>s_state := Handshake\<rparr>))
         else sendOptions C (s\<lparr>s_state := Handshake\<rparr>))"

section \<open>Pair-setup\<close>

definition octets :: string where
  "octets = ''application/octet-stream''"

definition kCurve25519Pub :: bytes where
  "kCurve25519Pub =
     [0x01, 0x59,0x02,0xed,0xe9,0x0d,0x4e,0xf2,0xbd, 0x4c,0xb6,0x8a,0x63,0x30,0x03,0x82,0x07,
      0xa9,0x4d,0xbd,0x50,0xd8,0xaa,0x46,0x5b, 0x5d,0x8c,0x01,0x2a,0x0c,0x7e,0x1d,0x4e]"

definition sendAuthSetup :: "crypto \<Rightarrow> sender \<Rightarrow> sender result" where
  "sendAuthSetup C s = httpPost C ''/auth-setup'' octets (toStr kCurve25519Pub) (s\<lparr>s_pairStage := PS_AuthSetup\<rparr>)"

definition sendPairPinStart :: "crypto \<Rightarrow> sender \<Rightarrow> sender result" where
  "sendPairPinStart C s = httpPost C ''/pair-pin-start'' octets [] (s\<lparr>s_pairStage := PS_PinStart\<rparr>)"

definition post_tlv :: "crypto \<Rightarrow> string \<Rightarrow> tlv_map \<Rightarrow> sender \<Rightarrow> sender result" where
  "post_tlv C uri m = httpPost C uri octets (toStr (tlv_encode m))"

definition sendPairSetupM1 :: "crypto \<Rightarrow> sender \<Rightarrow> sender result" where
  "sendPairSetupM1 C s =
     post_tlv C ''/pair-setup''
       ([(tlv_tag Method, [0x00]), (tlv_tag State, [0x01])]
        @ (if s_authMethod s = Auth_HapTransient then [(tlv_tag Flags, [0x10])] else []))
       (s\<lparr>s_pairStage := PS_SetupM2\<rparr>)"

definition sendPairSetupM3 :: "crypto \<Rightarrow> string \<Rightarrow> sender \<Rightarrow> sender result" where
  "sendPairSetupM3 C pin =
     on_ap2 (\<lambda>a s.
       let (aBytes, s) = draw C 32 s
       in case srp_process C (srp_start C pin aBytes) (toBytes (s_srpSalt s)) (toBytes (s_srpServerB s)) of
            Inl e \<Rightarrow> Inl e
          | Inr (d, ok) \<Rightarrow>
            let s = s\<lparr>s_ap2 := Some (a\<lparr>a_srp := Some d\<rparr>)\<rparr>
            in if \<not> ok then Inr (fail ''Pairing rejected the device's parameters'' s)
               else post_tlv C ''/pair-setup''
                 [(tlv_tag State, [0x03]), (tlv_tag PublicKey, srp_publicA d), (tlv_tag Proof, srp_M1 d)]
                 (s\<lparr>s_pairStage := PS_SetupM4\<rparr>))"

definition tlv_error :: "bytes \<Rightarrow> string" where
  "tlv_error err = (if err = [] then ''0'' else to_string (uint (hd err)))"

definition handlePairSetupM2 :: "crypto \<Rightarrow> string \<Rightarrow> sender \<Rightarrow> sender result" where
  "handlePairSetupM2 C body s =
     (let m = tlv_decode (toBytes body)
      in case tlv_get m (tlv_tag Error) of
           Some err \<Rightarrow> Inr (fail (raopFormat ''The device rejected pairing (error {})'' [tlv_error err]) s)
         | None \<Rightarrow>
           (case (tlv_get m (tlv_tag Salt), tlv_get m (tlv_tag PublicKey)) of
              (Some salt, Some pub) \<Rightarrow>
                let s = s\<lparr>s_srpSalt := toStr salt, s_srpServerB := toStr pub\<rparr>
                in if s_authMethod s = Auth_HapTransient then sendPairSetupM3 C ''3939'' s
                   else run
                     [upd (\<lambda>s. s\<lparr>s_waitingForPin := True\<rparr>),
                      upd (disarm s_timeout_update),
                      upd (arm s_pinTimeout_update),
                      (\<lambda>s. io (Ev_pinRequired (s_name s)) s)] s
            | _ \<Rightarrow> Inr (fail ''Pairing setup response was incomplete'' s)))"

definition control_keys :: "crypto \<Rightarrow> RaopAp2State \<Rightarrow> RaopAp2State" where
  "control_keys C a =
     a\<lparr>a_controlOut := c_hkdf C ''Control-Salt'' ''Control-Write-Encryption-Key'' (a_sharedSecret a) 32,
       a_controlIn := c_hkdf C ''Control-Salt'' ''Control-Read-Encryption-Key'' (a_sharedSecret a) 32\<rparr>"

definition sendPairSetupM5 :: "crypto \<Rightarrow> sender \<Rightarrow> sender result" where
  "sendPairSetupM5 C =
     on_ap2 (\<lambda>a s.
       let (ltSeed, s) = (if a_ltSeed a = [] then draw C 32 s else (a_ltSeed a, s))
       in case ed25519PublicFromSeed C ltSeed of Inl e \<Rightarrow> Inl e | Inr ltPub \<Rightarrow>
         let (pairingId, s) = (if a_pairingId a = [] then (let (b, s) = draw C 16 s in (toBytes (uuidV4Lower b), s))
                               else (a_pairingId a, s));
             a = a\<lparr>a_ltSeed := ltSeed, a_ltPub := ltPub, a_pairingId := pairingId\<rparr>
         in case a_srp a of None \<Rightarrow> Inl Null_deref | Some srp \<Rightarrow>
           let K = srp_K srp;
               sessionKey = c_hkdf C ''Pair-Setup-Encrypt-Salt'' ''Pair-Setup-Encrypt-Info'' K 32;
               iosDeviceX = c_hkdf C ''Pair-Setup-Controller-Sign-Salt'' ''Pair-Setup-Controller-Sign-Info'' K 32;
               deviceInfo = iosDeviceX @ pairingId @ ltPub
           in case ed25519Sign C ltSeed deviceInfo of Inl e \<Rightarrow> Inl e | Inr sig \<Rightarrow>
             let inner = [(tlv_tag Identifier, pairingId), (tlv_tag PublicKey, ltPub), (tlv_tag Signature, sig)]
             in case chacha20Poly1305Encrypt C sessionKey (toBytes ''PS-Msg05'') (tlv_encode inner) [] of
                  Inl e \<Rightarrow> Inl e
                | Inr enc \<Rightarrow>
                  post_tlv C ''/pair-setup'' [(tlv_tag State, [0x05]), (tlv_tag EncryptedData, enc)]
                    (s\<lparr>s_ap2 := Some a, s_pairSetupSessionKey := sessionKey, s_pairStage := PS_SetupM6\<rparr>))"

definition on_srp :: "(RaopAp2State \<Rightarrow> SrpClient \<Rightarrow> sender \<Rightarrow> sender result) \<Rightarrow> sender \<Rightarrow> sender result" where
  "on_srp f = on_ap2 (\<lambda>a s. case a_srp a of None \<Rightarrow> Inl Null_deref | Some srp \<Rightarrow> f a srp s)"

text \<open>Whether the accessory's proof is there and right: the client is only looked at when it is there.\<close>

definition server_proved :: "crypto \<Rightarrow> bytes option \<Rightarrow> sender \<Rightarrow> bool result" where
  "server_proved C proof s =
     (case proof of
        None \<Rightarrow> Inr False
      | Some p \<Rightarrow> (case s_ap2 s of None \<Rightarrow> Inl Null_deref | Some a \<Rightarrow>
          (case a_srp a of None \<Rightarrow> Inl Null_deref | Some srp \<Rightarrow> Inr (verifyServerProof C srp p))))"

definition handlePairSetupM4 :: "crypto \<Rightarrow> string \<Rightarrow> sender \<Rightarrow> sender result" where
  "handlePairSetupM4 C body s =
     (let m = tlv_decode (toBytes body)
      in case tlv_get m (tlv_tag Error) of
           Some err \<Rightarrow> Inr (fail (raopFormat ''Pairing PIN was not accepted (error {})'' [tlv_error err]) s)
         | None \<Rightarrow>
           let proof = tlv_get m (tlv_tag Proof)
           in case server_proved C proof s of Inl e \<Rightarrow> Inl e | Inr proved \<Rightarrow>
             if \<not> proved \<and> s_strictAuth s then
               Inr (fail (if proof \<noteq> None
                 then ''The device's pairing proof did not verify (receiver not authenticated)''
                 else ''The device sent no pairing proof (receiver not authenticated)'') s)
             else if s_authMethod s = Auth_HapTransient then
               on_srp (\<lambda>a srp s.
                 afterAuthOk C (s\<lparr>s_ap2 := Some (control_keys C (a\<lparr>a_sharedSecret := srp_K srp\<rparr>)),
                                  s_pairStage := PS_Done\<rparr>)) s
             else sendPairSetupM5 C s)"

section \<open>Pair-verify\<close>

definition sendPairVerifyM1 :: "crypto \<Rightarrow> sender \<Rightarrow> sender result" where
  "sendPairVerifyM1 C =
     on_ap2 (\<lambda>a s.
       let (drawn, s) = draw C 32 s;
           keys = x25519Generate C drawn
       in post_tlv C ''/pair-verify'' [(tlv_tag State, [0x01]), (tlv_tag PublicKey, kp_pub keys)]
            (s\<lparr>s_ap2 := Some (a\<lparr>a_verifyKeys := keys\<rparr>), s_pairStage := PS_VerifyM2\<rparr>))"

text \<open>What follows the application's callback.\<close>

definition verify_obtained :: "crypto \<Rightarrow> sender \<Rightarrow> sender result" where
  [simp]: "verify_obtained C = run [upd (\<lambda>s. s\<lparr>s_pairSetupSessionKey := []\<rparr>), sendPairVerifyM1 C]"

definition handlePairSetupM6 :: "crypto \<Rightarrow> string \<Rightarrow> sender \<Rightarrow> sender result" where
  "handlePairSetupM6 C body s =
     (let m = tlv_decode (toBytes body)
      in case tlv_get m (tlv_tag Error) of
           Some err \<Rightarrow> Inr (fail (raopFormat ''Pairing finalisation failed (error {})'' [tlv_error err]) s)
         | None \<Rightarrow>
       case tlv_get m (tlv_tag EncryptedData) of
           None \<Rightarrow> Inr (fail ''Pairing M6 response was incomplete'' s)
         | Some encrypted \<Rightarrow>
       case chacha20Poly1305Decrypt C (s_pairSetupSessionKey s) (toBytes ''PS-Msg06'') encrypted [] of
           None \<Rightarrow> Inr (fail ''Pairing M6 could not be decrypted'' s)
         | Some dec \<Rightarrow>
       let sub = tlv_decode dec
       in case (tlv_get sub (tlv_tag Identifier), tlv_get sub (tlv_tag PublicKey)) of
           (Some devId, Some atvLtpk) \<Rightarrow>
             on_ap2 (\<lambda>a s.
               let creds = \<lparr>ltsk = a_ltSeed a, ltpk = atvLtpk, atvId = devId, clientId = toStr (a_pairingId a)\<rparr>
               in run
                 [upd (\<lambda>s. s\<lparr>s_ap2 := Some (a\<lparr>a_accessoryId := devId, a_accessoryLtpk := atvLtpk\<rparr>)\<rparr>),
                  (\<lambda>s. io (Ev_credentials (s_deviceId s) (raopCredsToJson creds)) s),
                  verify_obtained C] s) s
         | _ \<Rightarrow> Inr (fail ''Pairing M6 was missing device keys'' s))"

definition event_keys :: "crypto \<Rightarrow> RaopAp2State \<Rightarrow> RaopAp2State" where
  "event_keys C a =
     a\<lparr>a_eventIn := c_hkdf C ''Events-Salt'' ''Events-Write-Encryption-Key'' (a_sharedSecret a) 32,
       a_eventOut := c_hkdf C ''Events-Salt'' ''Events-Read-Encryption-Key'' (a_sharedSecret a) 32\<rparr>"

text \<open>The accessory's signature over \<open>sessionPub || atvId || ourPub\<close>.\<close>

definition accessory_verified :: "crypto \<Rightarrow> RaopAp2State \<Rightarrow> bytes \<Rightarrow> bytes \<Rightarrow> bytes \<Rightarrow> bool" where
  "accessory_verified C a sessionPub devId atvSig =
     (if a_accessoryLtpk a = [] then False
      else ed25519Verify C (a_accessoryLtpk a) (sessionPub @ devId @ kp_pub (a_verifyKeys a)) atvSig)"

text \<open>Our half of pair-verify, after the accessory's has been judged.\<close>

definition sendPairVerifyM3 :: "crypto \<Rightarrow> bytes \<Rightarrow> bytes \<Rightarrow> RaopAp2State \<Rightarrow> sender \<Rightarrow> sender result" where
  "sendPairVerifyM3 C verifyKey sessionPub a s =
     (let deviceInfo = kp_pub (a_verifyKeys a) @ a_pairingId a @ sessionPub
      in case ed25519Sign C (a_ltSeed a) deviceInfo of Inl e \<Rightarrow> Inl e | Inr sig \<Rightarrow>
        let innerOut = [(tlv_tag Identifier, a_pairingId a), (tlv_tag Signature, sig)]
        in case chacha20Poly1305Encrypt C verifyKey (toBytes ''PV-Msg03'') (tlv_encode innerOut) [] of
             Inl e \<Rightarrow> Inl e
           | Inr enc \<Rightarrow>
             post_tlv C ''/pair-verify'' [(tlv_tag State, [0x03]), (tlv_tag EncryptedData, enc)]
               (s\<lparr>s_ap2 := Some (event_keys C (control_keys C a)), s_pairStage := PS_VerifyDone\<rparr>))"

definition handlePairVerifyM2 :: "crypto \<Rightarrow> string \<Rightarrow> sender \<Rightarrow> sender result" where
  "handlePairVerifyM2 C body s =
     (let m = tlv_decode (toBytes body)
      in case tlv_get m (tlv_tag Error) of
           Some err \<Rightarrow> Inr (fail (raopFormat ''Pair-verify rejected (error {})'' [tlv_error err]) s)
         | None \<Rightarrow>
       case (tlv_get m (tlv_tag PublicKey), tlv_get m (tlv_tag EncryptedData)) of
           (Some sessionPub, Some encrypted) \<Rightarrow>
       on_ap2 (\<lambda>a s.
         let a = a\<lparr>a_sharedSecret := x25519SharedSecret C (kp_priv (a_verifyKeys a)) sessionPub\<rparr>;
             s = s\<lparr>s_ap2 := Some a\<rparr>
         in if a_sharedSecret a = [] then Inr (fail ''Pair-verify shared-secret derivation failed'' s)
            else
              let verifyKey = c_hkdf C ''Pair-Verify-Encrypt-Salt'' ''Pair-Verify-Encrypt-Info'' (a_sharedSecret a) 32
              in case chacha20Poly1305Decrypt C verifyKey (toBytes ''PV-Msg02'') encrypted [] of
                   None \<Rightarrow> Inr (fail ''Pair-verify could not be decrypted'' s)
                 | Some dec \<Rightarrow>
                   let sub = tlv_decode dec
                   in case (tlv_get sub (tlv_tag Identifier), tlv_get sub (tlv_tag Signature)) of
                        (Some devId, Some atvSig) \<Rightarrow>
                          if \<not> accessory_verified C a sessionPub devId atvSig \<and> s_strictAuth s then
                            Inr (fail ''The device's pair-verify signature did not verify (receiver not authenticated)'' s)
                          else sendPairVerifyM3 C verifyKey sessionPub a s
                      | _ \<Rightarrow> Inr (fail ''Pair-verify was missing the device signature'' s)) s
         | _ \<Rightarrow> Inr (fail ''Pair-verify response incomplete'' s))"

end
