(* ===== verification/Sender_Dispatch.thy ===== *)
theory Sender_Dispatch
  imports Sender_Pairing
begin

text \<open>
  What happens with what the receiver sends, \<open>src/src/raop_sender.cpp\<close>: the auth chain begun on
  connect, the two response dispatchers, the parser of the control stream (plain or encrypted)
  and the responder on the encrypted event channel.
\<close>

section \<open>The auth chain\<close>

definition draw_uuid :: "crypto \<Rightarrow> sender \<Rightarrow> string \<times> sender" where
  "draw_uuid C s = (let (b, s) = draw C 16 s in (upperAscii (uuidV4Lower b), s))"

text \<open>\<open>ap2_ = std::make_unique<RaopAp2State>()\<close> with a new session UUID.\<close>

definition renew_ap2 :: "crypto \<Rightarrow> sender \<Rightarrow> sender" where
  "renew_ap2 C s = (let (uuid, s) = draw_uuid C s in s\<lparr>s_ap2 := Some (fresh_ap2\<lparr>a_sessionUuid := uuid\<rparr>)\<rparr>)"

definition legacy_message :: string where
  "legacy_message = ''{} uses an older AirPlay pairing that isn't supported yet. ''
     @ ''Update the device's software, or use an AirPlay-2 receiver ''
     @ ''(HomePod, Apple TV 4K, or a modern AirPlay speaker).''"

text \<open>Stored credentials into the AP2 state; whether pair-verify can be tried with them.\<close>

definition load_creds :: "RaopCreds \<Rightarrow> RaopAp2State \<Rightarrow> RaopAp2State" where
  "load_creds creds a =
     a\<lparr>a_ltSeed := ltsk creds, a_pairingId := toBytes (clientId creds), a_accessoryId := atvId creds,
       a_accessoryLtpk := ltpk creds\<rparr>"

definition clear_identity :: "RaopAp2State \<Rightarrow> RaopAp2State" where
  "clear_identity a = a\<lparr>a_ltSeed := [], a_pairingId := [], a_accessoryId := [], a_accessoryLtpk := []\<rparr>"

definition beginHapPin :: "crypto \<Rightarrow> sender \<Rightarrow> sender result" where
  "beginHapPin C s =
     (let s = renew_ap2 C s
      in if s_credsJson s = [] then sendPairPinStart C s
         else on_ap2 (\<lambda>a s.
           let loaded = (case raopCredsFromJson (s_credsJson s) of None \<Rightarrow> None | Some creds \<Rightarrow>
                 let a' = load_creds creds a
                 in if length (a_ltSeed a') = 32 \<and> a_accessoryLtpk a' \<noteq> [] then Some a' else None)
           in case loaded of
                Some a' \<Rightarrow>
                  (case ed25519PublicFromSeed C (a_ltSeed a') of Inl e \<Rightarrow> Inl e
                   | Inr pub \<Rightarrow> sendPairVerifyM1 C (s\<lparr>s_ap2 := Some (a'\<lparr>a_ltPub := pub\<rparr>)\<rparr>))
              | None \<Rightarrow> sendPairPinStart C (s\<lparr>s_ap2 := Some (clear_identity a)\<rparr>)) s)"

definition beginAuthChain :: "crypto \<Rightarrow> sender \<Rightarrow> sender result" where
  "beginAuthChain C s =
     (let s = s\<lparr>s_state := Pairing\<rparr>
      in case s_authMethod s of
           Auth_None \<Rightarrow> sendOptions C (s\<lparr>s_state := Handshake\<rparr>)
         | Auth_Password \<Rightarrow> sendOptions C (s\<lparr>s_state := Handshake\<rparr>)
         | Auth_AuthSetup \<Rightarrow> sendAuthSetup C s
         | Auth_LegacyPin \<Rightarrow> Inr (fail (raopFormat legacy_message [s_name s]) s)
         | Auth_HapTransient \<Rightarrow> sendPairSetupM1 C (renew_ap2 C s)
         | Auth_HapPin \<Rightarrow> beginHapPin C s)"

section \<open>Replies to pairing posts\<close>

definition refused_403 :: string where
  "refused_403 = ''{} refused pairing. On a Mac, set System Settings > '' @
     ''AirDrop & Handoff > AirPlay Receiver > '' @ dquote @ ''Allow AirPlay for: Everyone'' @ dquote @
     '' and turn off Require Password, though a Mac may only accept Apple devices. An Apple TV or HomePod ''
     @ ''(Allow Access > '' @ dquote @ ''Anyone on the Same Network'' @ dquote @ '') is the reliable target.''"

definition needs_pin_470 :: string where
  "needs_pin_470 = ''{} needs to be paired with a PIN, but it didn't show '' @
     ''one. On the Apple TV / Mac set AirPlay access to '' @ dquote @ ''Anyone on the Same Network'' @ dquote
     @ '' and try again.''"

text \<open>The reply was not a success.\<close>

definition pairing_refused :: "crypto \<Rightarrow> int \<Rightarrow> sender \<Rightarrow> sender result" where
  "pairing_refused C code s =
     (if code = 470 \<and> s_authMethod s = Auth_HapTransient \<and> s_pairStage s = PS_SetupM2 then
        sendPairPinStart C (renew_ap2 C (s\<lparr>s_authMethod := Auth_HapPin\<rparr>))
      else if code = 403 \<and> s_pairStage s = PS_PinStart \<and> \<not> s_triedTransientAfterPin403 s then
        sendPairSetupM1 C (renew_ap2 C (s\<lparr>s_triedTransientAfterPin403 := True, s_authMethod := Auth_HapTransient\<rparr>))
      else if code = 403 then Inr (fail (raopFormat refused_403 [s_name s]) s)
      else if code = 470 then Inr (fail (raopFormat needs_pin_470 [s_name s]) s)
      else Inr (fail (raopFormat ''Pairing with {} failed (HTTP {})'' [s_name s, to_string code]) s))"

definition onPairingResponse :: "crypto \<Rightarrow> int \<Rightarrow> string \<Rightarrow> sender \<Rightarrow> sender result" where
  "onPairingResponse C code body s =
     (if s_state s = Idle then Inr s
      else if s_state s = Streaming then Inr s
      else if s_authMethod s = Auth_AuthSetup \<and> s_ap2 s = None \<and> s_pairStage s = PS_AuthSetup then
        afterAuthOk C (s\<lparr>s_pairStage := PS_Done\<rparr>)
      else if s_pairStage s = PS_Ap2Record then sendAp2SetupStream C s
      else if code < 200 \<or> 300 \<le> code then pairing_refused C code s
      else case s_pairStage s of
             PS_PinStart \<Rightarrow> sendPairSetupM1 C s
           | PS_SetupM2 \<Rightarrow> handlePairSetupM2 C body s
           | PS_SetupM4 \<Rightarrow> handlePairSetupM4 C body s
           | PS_SetupM6 \<Rightarrow> handlePairSetupM6 C body s
           | PS_VerifyM2 \<Rightarrow> handlePairVerifyM2 C body s
           | PS_VerifyDone \<Rightarrow> afterAuthOk C (s\<lparr>s_pairStage := PS_Done\<rparr>)
           | PS_Ap2Info \<Rightarrow> sendAp2SetupSession C s
           | PS_Ap2Session \<Rightarrow> handleAp2SetupSession C body s
           | PS_Ap2Stream \<Rightarrow> handleAp2SetupStream C body s
           | _ \<Rightarrow> Inr s)"

section \<open>Replies to RTSP requests\<close>

text \<open>The quoted value after \<open>key\<close> in a digest challenge.\<close>

definition extractQuoted :: "string \<Rightarrow> string \<Rightarrow> string" where
  "extractQuoted wa key =
     (case find_str wa key of None \<Rightarrow> [] | Some k \<Rightarrow>
        (case find_chr (drop k wa) (CHR 0x22) of None \<Rightarrow> [] | Some q \<Rightarrow>
           let q1 = k + q
           in case find_chr (drop (q1 + 1) wa) (CHR 0x22) of None \<Rightarrow> [] | Some n \<Rightarrow> substr wa (q1 + 1) n))"

definition digest_challenge :: "crypto \<Rightarrow> string \<Rightarrow> headers \<Rightarrow> sender \<Rightarrow> sender result" where
  "digest_challenge C method headers s =
     (if s_digestPassword s = [] then Inr (fail ''The device requires a password'' s)
      else if s_digestRetried s then Inr (fail ''The password was not accepted by the device'' s)
      else
        let wa = headerValue headers ''www-authenticate'' [];
            s = s\<lparr>s_digestRealm := extractQuoted wa ''realm='', s_digestNonce := extractQuoted wa ''nonce=''\<rparr>
        in if s_digestNonce s = [] then Inr (fail ''The device password challenge could not be parsed'' s)
           else
             let s = s\<lparr>s_digestRetried := True\<rparr>
             in if method = ''OPTIONS'' then sendOptions C s
                else if method = ''ANNOUNCE'' then sendAnnounce C s
                else if method = ''SETUP'' then sendSetup C s
                else if method = ''RECORD'' then sendRecord C s
                else Inr (fail ''The device password was required at an unexpected step'' s))"

text \<open>One option of the Transport header.\<close>

definition transport_opt :: "string \<Rightarrow> sender \<Rightarrow> sender" where
  "transport_opt opt s =
     (case find_chr opt (CHR ''='') of
        None \<Rightarrow> s
      | Some eq \<Rightarrow>
        if eq = 0 then s
        else let key = trimAscii (take eq opt); val = ucast (toUInt (trimAscii (drop (eq + 1) opt)))
             in if key = ''server_port'' then s\<lparr>s_serverPort := val\<rparr>
                else if key = ''control_port'' then s\<lparr>s_controlPort := val\<rparr>
                else if key = ''timing_port'' then s\<lparr>s_timingPort := val\<rparr>
                else s)"

definition setup_reply :: "crypto \<Rightarrow> headers \<Rightarrow> sender \<Rightarrow> sender result" where
  "setup_reply C headers s =
     (let s = s\<lparr>s_serverPort := 0, s_controlPort := 0, s_timingPort := 0\<rparr>;
          s = fold transport_opt (splitOn (headerValue headers ''transport'' []) (CHR '';'')) s;
          session = headerValue headers ''session'' [];
          s = s\<lparr>s_rtspSession := (if session = [] then ''1'' else session)\<rparr>
      in if s_serverPort s = 0 then Inr (fail ''SETUP reply carried no server_port'' s)
         else sendRecord C s)"

definition handleResponse :: "crypto \<Rightarrow> string \<Rightarrow> int \<Rightarrow> headers \<Rightarrow> sender \<Rightarrow> sender result" where
  "handleResponse C method code headers s =
     (if method = ''SET_PARAMETER'' then Inr s
      else if method = ''POST'' then
        (if code = 200 then
           Inr (if t_active (s_feedbackTimer s) then s else arm s_feedbackTimer_update s)
         else Inr (disarm s_feedbackTimer_update s))
      else if method = ''FEEDBACK'' then Inr s
      else if method = ''TEARDOWN'' then Inr s
      else if code = 401 then digest_challenge C method headers s
      else if code < 200 \<or> 300 \<le> code then
        (if s_state s = Streaming \<and> (method = ''RECORD'' \<or> method = ''FLUSH'') then Inr s
         else Inr (fail (raopFormat ''Device refused {} ({})'' [method, to_string code]) s))
      else if method = ''OPTIONS'' then sendAnnounce C s
      else if method = ''ANNOUNCE'' then sendSetup C s
      else if method = ''SETUP'' then setup_reply C headers s
      else if method = ''RECORD'' then (if s_state s \<noteq> Streaming then startStreaming C s else Inr s)
      else Inr s)"

section \<open>The control stream\<close>

definition head_end :: string where
  "head_end = crlf @ crlf"

definition parse_header_line :: "string \<Rightarrow> headers \<Rightarrow> headers" where
  "parse_header_line raw h =
     (let line = trimAscii raw
      in case find_chr line (CHR '':'') of
           None \<Rightarrow> h
         | Some colon \<Rightarrow>
           if colon = 0 then h
           else h(trimAscii (lowerAscii (take colon line)) \<mapsto> trimAscii (drop (colon + 1) line)))"

definition parse_headers :: "string list \<Rightarrow> headers" where
  "parse_headers lines = fold parse_header_line (tl lines) Map.empty"

definition content_length :: "headers \<Rightarrow> nat" where
  "content_length headers =
     (case toInt_ok (headerValue headers ''content-length'' ''0'') of
        None \<Rightarrow> 0
      | Some n \<Rightarrow> if n < 0 then 0 else nat n)"

record response =
  r_status :: string
  r_headers :: headers
  r_body :: string

text \<open>One complete message at the front of the buffer, and the rest of the buffer after it.\<close>

definition next_message :: "string \<Rightarrow> (response \<times> string) option" where
  "next_message rx =
     (case find_str rx head_end of
        None \<Rightarrow> None
      | Some headEnd \<Rightarrow>
        let lines = splitOn (take headEnd rx) (CHR 0x0A);
            headers = parse_headers lines;
            n = content_length headers
        in if length rx < headEnd + 4 + n then None
           else Some (\<lparr>r_status = trimAscii (if lines = [] then [] else hd lines), r_headers = headers,
                       r_body = substr rx (headEnd + 4) n\<rparr>,
                      drop (headEnd + 4 + n) rx))"

text \<open>A response taken off the buffer goes to the request it answers.\<close>

definition dispatch :: "crypto \<Rightarrow> response \<Rightarrow> sender \<Rightarrow> sender result" where
  "dispatch C r s =
     (if \<not> starts_with (r_status r) ''RTSP/'' \<and> \<not> starts_with (r_status r) ''HTTP/'' then Inr s
      else
        let parts = splitOn (r_status r) (CHR '' '');
            code = toInt (if 1 < length parts then parts ! 1 else [])
        in case s_pendingMethods s of
             [] \<Rightarrow> Inr s
           | method # rest \<Rightarrow>
             let s = s\<lparr>s_pendingMethods := rest\<rparr>;
                 (replyIsHttp, s) = (case s_pendingIsHttp s of [] \<Rightarrow> (False, s) | b # bs \<Rightarrow> (b, s\<lparr>s_pendingIsHttp := bs\<rparr>))
             in if replyIsHttp then onPairingResponse C code (r_body r) s
                else handleResponse C method code (r_headers r) s)"

text \<open>
  The message loop of \<open>onRtspReadyRead_\<close>. A message that is not a response, or that nothing
  waits for, is dropped; after a dispatch that ended the session the loop ends. Every round
  takes at least four bytes off the buffer, so \<open>length rxBuf\<close> rounds are enough.
\<close>

definition dispatched :: "response \<Rightarrow> sender \<Rightarrow> bool" where
  "dispatched r s \<longleftrightarrow> (starts_with (r_status r) ''RTSP/'' \<or> starts_with (r_status r) ''HTTP/'') \<and> s_pendingMethods s \<noteq> []"

fun message_loop :: "crypto \<Rightarrow> nat \<Rightarrow> sender \<Rightarrow> sender result" where
  "message_loop C 0 s = Inl Out_of_fuel"
| "message_loop C (Suc fuel) s =
     (case next_message (s_rxBuf s) of
        None \<Rightarrow> Inr s
      | Some (r, rest) \<Rightarrow>
        (case dispatch C r (s\<lparr>s_rxBuf := rest\<rparr>) of
           Inl e \<Rightarrow> Inl e
         | Inr s' \<Rightarrow>
           if dispatched r s \<and> s_state s' = Idle then Inr s' else message_loop C fuel s'))"

definition onRtspReadyRead :: "crypto \<Rightarrow> string \<Rightarrow> sender \<Rightarrow> sender result" where
  "onRtspReadyRead C bytes s =
     (let decrypted =
        (case s_ap2 s of
           Some a \<Rightarrow>
             if \<not> s_controlEncrypted s then (True, s\<lparr>s_rxBuf := s_rxBuf s @ bytes\<rparr>)
             else
               (let (ok, plain, ctr, rest) = open_frames C (a_controlIn a) (s_ctrlRecvCtr s) (s_rtspEncBuf s @ bytes)
                in (ok, s\<lparr>s_rxBuf := s_rxBuf s @ plain, s_ctrlRecvCtr := ctr, s_rtspEncBuf := rest\<rparr>))
         | None \<Rightarrow> (True, s\<lparr>s_rxBuf := s_rxBuf s @ bytes\<rparr>))
      in case decrypted of
           (False, s) \<Rightarrow> Inr (fail ''Encrypted control channel authentication failed'' s)
         | (True, s) \<Rightarrow>
           if 4 * 1024 * 1024 < length (s_rxBuf s) then
             Inr (fail ''Oversized RTSP response from the receiver'' s)
           else message_loop C (length (s_rxBuf s) + 1) s)"

section \<open>The event channel\<close>

text \<open>The \<open>content-length\<close> and \<open>cseq\<close> of a pushed request: the last of each counts.\<close>

definition event_header_line :: "string \<Rightarrow> int \<times> string \<Rightarrow> int \<times> string" where
  "event_header_line raw acc =
     (let t = trimAscii raw
      in case find_chr t (CHR '':'') of
           None \<Rightarrow> acc
         | Some colon \<Rightarrow>
           if colon = 0 then acc
           else let k = trimAscii (lowerAscii (take colon t)); v = trimAscii (drop (colon + 1) t)
                in if k = ''content-length'' then (toInt v, snd acc)
                   else if k = ''cseq'' then (fst acc, v) else acc)"

definition event_request :: "string \<Rightarrow> (string \<times> string) option" where
  "event_request plain =
     (case find_str plain head_end of
        None \<Rightarrow> None
      | Some headEnd \<Rightarrow>
        let (contentLen, cseq) = fold event_header_line (splitOn (take headEnd plain) (CHR 0x0A)) (0, []);
            total = headEnd + 4 + (if 0 < contentLen then nat contentLen else 0)
        in if length plain < total then None else Some (cseq, drop total plain))"

definition event_response :: "string \<Rightarrow> string" where
  "event_response cseq =
     ''RTSP/1.0 200 OK'' @ crlf @ ''Server: AirTunes/550.10'' @ crlf
     @ (if cseq = [] then [] else ''CSeq: '' @ cseq @ crlf) @ crlf"

text \<open>
  The response is one frame whatever its length: its two length bytes are \<open>rlen & 0xFF\<close> and
  \<open>(rlen >> 8) & 0xFF\<close>.
\<close>

fun event_loop :: "crypto \<Rightarrow> RaopAp2State \<Rightarrow> nat \<Rightarrow> sender \<Rightarrow> sender result" where
  "event_loop C a 0 s = Inl Out_of_fuel"
| "event_loop C a (Suc fuel) s =
     (case event_request (s_eventPlainBuf s) of
        None \<Rightarrow> Inr s
      | Some (cseq, rest) \<Rightarrow>
        (case seal_frame C (a_eventOut a) (s_eventSendCtr s) (event_response cseq) of
           Inl e \<Rightarrow> Inl e
         | Inr out \<Rightarrow>
           event_loop C a fuel (emit (TcpSend TcpEvent out)
             (s\<lparr>s_eventPlainBuf := rest, s_eventSendCtr := s_eventSendCtr s + 1\<rparr>))))"

definition onEventReadyRead :: "crypto \<Rightarrow> string \<Rightarrow> sender \<Rightarrow> sender result" where
  "onEventReadyRead C bytes s =
     (if s_state s = Idle then Inr s
      else case s_ap2 s of
        None \<Rightarrow> Inr s
      | Some a \<Rightarrow>
        if length (a_eventIn a) \<noteq> 32 \<or> length (a_eventOut a) \<noteq> 32 then Inr s
        else
          let (ok, plain, ctr, rest) = open_frames C (a_eventIn a) (s_eventRecvCtr s) (s_eventEncBuf s @ bytes);
              s = s\<lparr>s_eventPlainBuf := s_eventPlainBuf s @ plain, s_eventRecvCtr := ctr,
                    s_eventEncBuf := (if ok then rest else [])\<rparr>
          in if \<not> ok then Inr s
             else event_loop C a (length (s_eventPlainBuf s) + 1) s)"

end
