(* ===== verification/Sender.thy ===== *)
theory Sender
  imports Sender_Dispatch
begin

text \<open>
  The public interface of \<open>RaopSender\<close>: configuration, \<open>start\<close>, the host's notifications and the
  timers, and the step relation over arbitrary sequences of calls, with the clocks and the ring
  moving freely between them.
\<close>

section \<open>Configuration\<close>

definition setInputFormat :: "32 word \<Rightarrow> sender \<Rightarrow> sender" where
  "setInputFormat sampleRate s =
     s\<lparr>s_rs := (s_rs s)\<lparr>rs_inputRate := (if sampleRate > 0 then sampleRate else 48000)\<rparr>\<rparr>"

definition attachRing :: "16 word RingBuffer option \<Rightarrow> sender \<Rightarrow> sender" where
  "attachRing ring s = s\<lparr>s_rs := (s_rs s)\<lparr>rs_ring := ring\<rparr>\<rparr>"

definition setAuth :: "auth \<Rightarrow> bool \<Rightarrow> string \<Rightarrow> string \<Rightarrow> string \<Rightarrow> sender \<Rightarrow> sender" where
  "setAuth auth airplay2 deviceId credsJson password s =
     s\<lparr>s_authMethod := auth, s_airplay2 := airplay2, s_deviceId := deviceId, s_credsJson := credsJson,
       s_digestPassword := password\<rparr>"

definition or_default :: "string \<Rightarrow> string \<Rightarrow> string" where
  "or_default s d = (let s = stripCrLf s in if s = [] then d else s)"

definition setIdentity :: "RaopIdentity \<Rightarrow> sender \<Rightarrow> sender" where
  "setIdentity identity s =
     s\<lparr>s_identity := \<lparr>id_name = or_default (id_name identity) ''airplay2-sender-cpp'',
          id_deviceId = or_default (id_deviceId identity) ''AA:BB:CC:DD:EE:FF'',
          id_model = or_default (id_model identity) ''iPhone14,3''\<rparr>\<rparr>"

definition setStrictReceiverAuth :: "bool \<Rightarrow> sender \<Rightarrow> sender" where
  "setStrictReceiverAuth strict s = s\<lparr>s_strictAuth := strict\<rparr>"

section \<open>Starting a session\<close>

definition fresh_ids :: "crypto \<Rightarrow> sender \<Rightarrow> sender" where
  "fresh_ids C s =
     (let (sid, s) = rand32 C s; (dacp, s) = rand64 C s; (remote, s) = rand32 C s; (sq, s) = rand16 C s
      in s\<lparr>s_sessionId := sid, s_dacpId := hexUpper dacp, s_activeRemote := remote, s_seq := sq\<rparr>)"

definition reset_session :: "sender \<Rightarrow> sender" where
  "reset_session s =
     s\<lparr>s_cseq := 0, s_rxBuf := [], s_controlEncrypted := False, s_ctrlSendCtr := 0, s_ctrlRecvCtr := 0,
       s_rtspEncBuf := [], s_eventSendCtr := 0, s_eventRecvCtr := 0, s_eventEncBuf := [], s_eventPlainBuf := [],
       s_pendingMethods := [], s_rtspSession := [], s_serverPort := 0, s_controlPort := 0, s_timingPort := 0,
       s_framesSent := 0, s_firstAudio := True,
       s_rs := (s_rs s)\<lparr>rs_srcPhase := 0, rs_inBuf := []\<rparr>,
       s_backlogSeq := replicate kBacklogSize (- 1), s_pendingVolumeDb := kNoVolume,
       s_ap2 := None, s_pairStage := PS_None, s_waitingForPin := False, s_triedTransientAfterPin403 := False,
       s_pendingIsHttp := [], s_digestRealm := [], s_digestNonce := [], s_pendingDigestMethod := [],
       s_pendingDigestUri := [], s_digestRetried := False\<rparr>"

text \<open>The three \<open>udpBind\<close> results are the host's: timing, control, audio.\<close>

definition start :: "crypto \<Rightarrow> string \<Rightarrow> 16 word \<Rightarrow> string \<Rightarrow> 16 word \<Rightarrow> 16 word \<Rightarrow> 16 word \<Rightarrow> sender \<Rightarrow> sender result" where
  "start C host port name timingPort controlPort audioPort =
     run
       [stop C,
        upd (\<lambda>s. s\<lparr>s_host := host, s_name := name, s_hostIp := [], s_localIp := []\<rparr>),
        upd (fresh_ids C),
        upd reset_session,
        io (UdpBind UdpTiming), io (UdpBind UdpControl), io (UdpBind UdpAudio),
        upd (\<lambda>s. s\<lparr>s_localTimingPort := timingPort, s_localControlPort := controlPort, s_udpBound := True\<rparr>),
        (\<lambda>s. if timingPort = 0 \<or> controlPort = 0 \<or> audioPort = 0
             then Inr (emit (Ev_launched False ''Could not bind UDP sockets'') (releaseSockets s))
             else run [upd (\<lambda>s. s\<lparr>s_state := Connecting, s_rtspConnected := False\<rparr>),
                       upd (arm s_timeout_update),
                       io (TcpConnect TcpControl host port)] s)]"

definition submitPin :: "crypto \<Rightarrow> string \<Rightarrow> sender \<Rightarrow> sender result" where
  "submitPin C code s =
     (if \<not> s_waitingForPin s then Inr s
      else run [upd (\<lambda>s. s\<lparr>s_waitingForPin := False\<rparr>),
                upd (disarm s_pinTimeout_update),
                upd (arm s_timeout_update),
                sendPairSetupM3 C code] s)"

section \<open>Notifications\<close>

definition onTcpConnected :: "crypto \<Rightarrow> RaopTcp \<Rightarrow> RaopEndpoint \<Rightarrow> RaopEndpoint \<Rightarrow> sender \<Rightarrow> sender result" where
  "onTcpConnected C ch local peer s =
     (if ch = TcpEvent then Inr s
      else if s_state s \<noteq> Connecting then Inr s
      else beginAuthChain C (s\<lparr>s_rtspConnected := True, s_localIp := ep_ip local, s_hostIp := ep_ip peer\<rparr>))"

definition onTcpConnectFailed :: "RaopTcp \<Rightarrow> string \<Rightarrow> sender \<Rightarrow> sender" where
  "onTcpConnectFailed ch reason s =
     (if ch = TcpEvent then s
      else if s_state s \<noteq> Idle then fail (if reason = [] then ''Connection failed'' else reason) s
      else s)"

definition onTcpData :: "crypto \<Rightarrow> RaopTcp \<Rightarrow> bytes \<Rightarrow> sender \<Rightarrow> sender result" where
  "onTcpData C ch bytes s =
     (if ch = TcpControl then onRtspReadyRead C (toStr bytes) s else onEventReadyRead C (toStr bytes) s)"

definition onTcpClosed :: "RaopTcp \<Rightarrow> string \<Rightarrow> sender \<Rightarrow> sender" where
  "onTcpClosed ch reason s =
     (if ch = TcpEvent then s
      else
        let s = s\<lparr>s_rtspConnected := False\<rparr>
        in if s_state s = Idle then s
           else if reason \<noteq> [] then fail reason s
           else
             let wasStarting = s_state s \<noteq> Streaming;
                 s = clear_backlog (releaseSockets (stopTimers (s\<lparr>s_state := Idle\<rparr>)));
                 s = (if wasStarting then emit (Ev_launched False ''Connection closed by the device'') s else s)
             in emit Ev_closed s)"

definition onUdpDatagram :: "RaopUdp \<Rightarrow> bytes \<Rightarrow> RaopEndpoint \<Rightarrow> sender \<Rightarrow> sender" where
  "onUdpDatagram u bytes from s =
     (if s_state s = Idle then s
      else case u of
             UdpControl \<Rightarrow> onControlDatagram bytes from s
           | UdpTiming \<Rightarrow> onTimingDatagram bytes from s
           | UdpAudio \<Rightarrow> s)"

text \<open>The destructor tears a live session down.\<close>

definition sender_destroy :: "crypto \<Rightarrow> sender \<Rightarrow> sender result" where
  "sender_destroy C s = (if s_state s \<noteq> Idle then stop C s else Inr s)"

section \<open>Timers\<close>

definition onHandshakeTimeout :: "sender \<Rightarrow> sender" where
  "onHandshakeTimeout s =
     (if s_waitingForPin s then s
      else if s_state s = Connecting \<or> s_state s = Pairing \<or> s_state s = Handshake then
        fail ''Timed out waiting for the device'' s
      else s)"

definition pin_timeout_message :: string where
  "pin_timeout_message = ''No PIN was entered. Switch {} on and make sure its screen ''
     @ ''shows the AirPlay code, then try again.''"

definition onPinTimeout :: "sender \<Rightarrow> sender" where
  "onPinTimeout s =
     (if \<not> s_waitingForPin s then s
      else let s = s\<lparr>s_waitingForPin := False\<rparr> in fail (raopFormat pin_timeout_message [s_name s]) s)"

definition feedback_text :: "sender \<Rightarrow> string" where
  "feedback_text s =
     ''POST /feedback RTSP/1.0'' @ crlf
     @ hdr ''CSeq'' (to_string (s_cseq s))
     @ hdr ''User-Agent'' ''AirPlay/550.10''
     @ hdr ''DACP-ID'' (s_dacpId s)
     @ hdr ''Active-Remote'' (to_string (uint (s_activeRemote s)))
     @ hdr ''Client-Instance'' (s_dacpId s)
     @ hdr ''Content-Length'' ''0'' @ crlf"

definition onFeedbackTimer :: "crypto \<Rightarrow> sender \<Rightarrow> sender result" where
  "onFeedbackTimer C s =
     (if s_state s \<noteq> Streaming then Inr s
      else if s_airplay2 s then
        (let req = feedback_text s
         in run [upd (\<lambda>s. s\<lparr>s_cseq := s_cseq s + 1\<rparr>), upd (queue_method ''FEEDBACK'' False), writeRtsp C req] s)
      else sendRequest C ''POST'' ''/feedback'' [] [] [] s)"

text \<open>
  \<open>due\<close>: an active timer whose time has come is pushed on (repeating) or switched off, and
  the handler runs on the new state.
\<close>

definition if_due :: "int \<Rightarrow> (sender \<Rightarrow> timer) \<Rightarrow> ((timer \<Rightarrow> timer) \<Rightarrow> sender \<Rightarrow> sender) \<Rightarrow>
    (sender \<Rightarrow> sender result) \<Rightarrow> sender \<Rightarrow> sender result" where
  "if_due now get field handler s =
     (let t = get s
      in if \<not> t_active t \<or> now < t_due t then Inr s
         else handler (field (\<lambda>t. if t_repeating t then t\<lparr>t_due := now + t_interval t\<rparr>
                                  else t\<lparr>t_active := False\<rparr>) s))"

definition tick :: "crypto \<Rightarrow> sender \<Rightarrow> sender result" where
  "tick C s =
     (let now = s_now s
      in run
        [if_due now s_timeout s_timeout_update (upd onHandshakeTimeout),
         if_due now s_pinTimeout s_pinTimeout_update (upd onPinTimeout),
         if_due now s_feedbackTimer s_feedbackTimer_update (onFeedbackTimer C),
         if_due now s_syncTimer s_syncTimer_update (upd (sendSyncPacket False)),
         if_due now s_pacer s_pacer_update (onPacerTick C)] s)"

definition nextDeadline :: "sender \<Rightarrow> int option" where
  "nextDeadline s =
     fold (\<lambda>t best. if \<not> t_active t then best
                     else case best of None \<Rightarrow> Some (t_due t)
                            | Some b \<Rightarrow> if t_due t < b then Some (t_due t) else best)
       [s_pacer s, s_syncTimer s, s_timeout s, s_pinTimeout s, s_feedbackTimer s] None"

section \<open>Sequences of calls\<close>

datatype call =
    Call_setInputFormat "32 word"
  | Call_attachRing "16 word RingBuffer option"
  | Call_setAuth auth bool string string string
  | Call_setIdentity RaopIdentity
  | Call_setStrict bool
  | Call_start string "16 word" string "16 word" "16 word" "16 word"
  | Call_stop
  | Call_submitPin string
  | Call_setVolume rat
  | Call_setNowPlaying string string string string string
  | Call_tcpConnected RaopTcp RaopEndpoint RaopEndpoint
  | Call_tcpConnectFailed RaopTcp string
  | Call_tcpData RaopTcp bytes
  | Call_tcpClosed RaopTcp string
  | Call_udpDatagram RaopUdp bytes RaopEndpoint
  | Call_tick
  | Env_clocks int "64 word"

definition apply_call :: "crypto \<Rightarrow> call \<Rightarrow> sender \<Rightarrow> sender result" where
  "apply_call C c s =
     (case c of
        Call_setInputFormat r \<Rightarrow> Inr (setInputFormat r s)
      | Call_attachRing r \<Rightarrow> Inr (attachRing r s)
      | Call_setAuth a ap2 d cj p \<Rightarrow> Inr (setAuth a ap2 d cj p s)
      | Call_setIdentity i \<Rightarrow> Inr (setIdentity i s)
      | Call_setStrict b \<Rightarrow> Inr (setStrictReceiverAuth b s)
      | Call_start h p n tp cp ap \<Rightarrow> start C h p n tp cp ap s
      | Call_stop \<Rightarrow> stop C s
      | Call_submitPin pin \<Rightarrow> submitPin C pin s
      | Call_setVolume v \<Rightarrow> setVolume C v s
      | Call_setNowPlaying t ar al co mi \<Rightarrow> setNowPlaying C t ar al co mi s
      | Call_tcpConnected ch l p \<Rightarrow> onTcpConnected C ch l p s
      | Call_tcpConnectFailed ch r \<Rightarrow> Inr (onTcpConnectFailed ch r s)
      | Call_tcpData ch b \<Rightarrow> onTcpData C ch b s
      | Call_tcpClosed ch r \<Rightarrow> Inr (onTcpClosed ch r s)
      | Call_udpDatagram u b f \<Rightarrow> Inr (onUdpDatagram u b f s)
      | Call_tick \<Rightarrow> tick C s
      | Env_clocks now wall \<Rightarrow> Inr (s\<lparr>s_now := now, s_wall := wall\<rparr>))"

text \<open>
  What the surroundings may do: an attached ring is one the constructor and its operations
  produce (a push by the engine is the ring attached anew), the clock does not go back, and
  the one-shot \<open>auth-setup\<close> of an AirPort Express is not combined with the AirPlay 2 transport,
  for which it leaves no session state (\<open>authsetup_airplay2_null\<close> in \<open>Sender_Findings\<close> shows
  what happens otherwise).
\<close>

definition call_ok :: "call \<Rightarrow> sender \<Rightarrow> bool" where
  "call_ok c s =
     (case c of
        Call_attachRing (Some r) \<Rightarrow> ring_inv r
      | Call_setAuth a ap2 d cj p \<Rightarrow> \<not> (a = Auth_AuthSetup \<and> ap2)
      | Env_clocks now wall \<Rightarrow> s_now s \<le> now
      | _ \<Rightarrow> True)"

inductive sender_reachable :: "crypto \<Rightarrow> sender \<Rightarrow> bool" for C where
  new: "sender_reachable C (new_sender now wall)"
| step: "sender_reachable C s \<Longrightarrow> call_ok c s \<Longrightarrow> apply_call C c s = Inr s' \<Longrightarrow> sender_reachable C s'"

fun run_calls :: "crypto \<Rightarrow> call list \<Rightarrow> sender \<Rightarrow> sender result" where
  "run_calls C [] s = Inr s"
| "run_calls C (c # cs) s = (case apply_call C c s of Inl e \<Rightarrow> Inl e | Inr s' \<Rightarrow> run_calls C cs s')"

end
