(* ===== verification/Sender_Invariant.thy ===== *)
theory Sender_Invariant
  imports Sender
begin

text \<open>
  The invariant of \<open>RaopSender\<close>: which key material each pairing stage may count on, how the
  two reply queues, the retransmit backlog and the resampler stay well-formed. Every handler
  keeps it and fails only where the code throws; the lemmas are triples over the state,
  \<open>ok P (handler s)\<close>. The dispatchers and the public calls follow in \<open>Sender_Safety\<close>.
\<close>

section \<open>The invariant\<close>

definition has_srp_key :: "RaopAp2State \<Rightarrow> bool" where
  "has_srp_key a = (case a_srp a of None \<Rightarrow> False | Some d \<Rightarrow> length (srp_K d) = 64)"

text \<open>
  What the AP2 state must hold while the reply to a stage's request is awaited; \<open>enc\<close> says that
  the control channel is already encrypted.
\<close>

definition stage_ok :: "pair_stage \<Rightarrow> bool \<Rightarrow> RaopAp2State option \<Rightarrow> bool" where
  "stage_ok st enc ap =
     (case st of
        PS_PinStart \<Rightarrow> \<not> enc \<and> ap \<noteq> None
      | PS_SetupM2 \<Rightarrow> \<not> enc \<and> ap \<noteq> None
      | PS_SetupM4 \<Rightarrow> \<not> Option.is_none ap \<and> has_srp_key (the ap)
      | PS_SetupM6 \<Rightarrow> \<not> Option.is_none ap \<and> length (a_ltSeed (the ap)) = 32
      | PS_VerifyM2 \<Rightarrow> \<not> Option.is_none ap \<and> length (a_ltSeed (the ap)) = 32
      | PS_VerifyDone \<Rightarrow> \<not> Option.is_none ap \<and> length (a_sharedSecret (the ap)) = 32
      | PS_Ap2Info \<Rightarrow> \<not> Option.is_none ap \<and> 32 \<le> length (a_sharedSecret (the ap))
      | PS_Ap2Session \<Rightarrow> \<not> Option.is_none ap \<and> 32 \<le> length (a_sharedSecret (the ap))
      | PS_Ap2Record \<Rightarrow> \<not> Option.is_none ap \<and> 32 \<le> length (a_sharedSecret (the ap))
      | PS_Ap2Stream \<Rightarrow> \<not> Option.is_none ap \<and> 32 \<le> length (a_sharedSecret (the ap))
      | _ \<Rightarrow> True)"

definition ap2_ok :: "RaopAp2State \<Rightarrow> bool" where
  "ap2_ok a \<longleftrightarrow> (a_ltSeed a = [] \<or> length (a_ltSeed a) = 32) \<and> (a_encryptAudio a \<longrightarrow> length (a_audioKey a) = 32)"

definition writable :: "sender \<Rightarrow> bool" where
  "writable s \<longleftrightarrow> s_controlEncrypted s \<longrightarrow> \<not> Option.is_none (s_ap2 s) \<and> length (a_controlOut (the (s_ap2 s))) = 32"

definition pairing_live :: "sender \<Rightarrow> bool" where
  "pairing_live s \<longleftrightarrow> s_state s \<noteq> Idle \<and> s_state s \<noteq> Streaming"

text \<open>
  A slot of the retransmit backlog is unused or holds the packet whose sequence number it is
  filed under: the number is read from bytes 2 and 3 of the packet.
\<close>

definition packet_seq :: "string \<Rightarrow> 16 word" where
  "packet_seq p = be_word16 (char_byte (p ! 2)) (char_byte (p ! 3))"

definition slot_ok :: "nat \<Rightarrow> string \<Rightarrow> int \<Rightarrow> bool" where
  "slot_ok i p n \<longleftrightarrow> n = - 1 \<or> n = uint (packet_seq p) \<and> unat (packet_seq p AND 0x3FF) = i \<and> 12 \<le> length p"

definition backlog_ok :: "string list \<Rightarrow> int list \<Rightarrow> bool" where
  "backlog_ok ps ns \<longleftrightarrow> length ps = kBacklogSize \<and> length ns = kBacklogSize
     \<and> (\<forall>i < kBacklogSize. slot_ok i (ps ! i) (ns ! i))"

lemma backlog_empty: "length ps = kBacklogSize \<Longrightarrow> backlog_ok ps (replicate kBacklogSize (- 1))"
  by (simp add: backlog_ok_def slot_ok_def)

lemma backlog_lengths: "backlog_ok ps ns \<Longrightarrow> length ps = kBacklogSize" "backlog_ok ps ns \<Longrightarrow> length ns = kBacklogSize"
  by (simp_all add: backlog_ok_def)

lemma backlog_slot: "unat ((q :: 16 word) AND 0x3FF) = unat q mod 1024"
proof -
  have "q AND 0x3FF = take_bit 10 q"
    by (simp add: take_bit_eq_mask mask_numeral)
  then show ?thesis by (simp add: unat_low_bits)
qed

lemma backlog_store:
  assumes "backlog_ok ps ns" and "q = packet_seq p" and "12 \<le> length p"
  shows "backlog_ok (ps[unat (q AND 0x3FF) := p]) (ns[unat (q AND 0x3FF) := uint q])"
  using assms by (auto simp: backlog_ok_def slot_ok_def nth_list_update backlog_slot kBacklogSize_def)

lemma be_word16_split [simp]: "be_word16 (ucast (drop_bit 8 q)) (ucast q) = (q :: 16 word)"
proof (rule bit_word_eqI)
  fix n assume "n < LENGTH(16)"
  then show "bit (be_word16 (ucast (drop_bit 8 q)) (ucast q)) n = bit q n"
    by (cases "n < 8") (auto simp: be_word16_def bit_simps)
qed

lemma length_rtp_header: "length (rtp_header f q t ssrc) = 12"
  by (simp add: rtp_header_def Let_def b8_def be16_def be32_def)

lemma packet_seq_header: "packet_seq (rtp_header f q t ssrc @ rest) = q"
  by (simp add: packet_seq_def rtp_header_def Let_def b8_def be16_def be32_def)

definition sane :: "sender \<Rightarrow> bool" where
  "sane s \<longleftrightarrow>
     length (s_pendingMethods s) = length (s_pendingIsHttp s)
     \<and> resampler_ok (s_rs s)
     \<and> backlog_ok (s_backlog s) (s_backlogSeq s)
     \<and> pred_option ap2_ok (s_ap2 s)
     \<and> writable s
     \<and> (pairing_live s \<longrightarrow> stage_ok (s_pairStage s) (s_controlEncrypted s) (s_ap2 s))
     \<and> (s_state s = Connecting \<longrightarrow> \<not> s_controlEncrypted s)
     \<and> (s_waitingForPin s \<longrightarrow> s_ap2 s \<noteq> None)
     \<and> (s_authMethod s = Auth_AuthSetup \<longrightarrow> \<not> s_airplay2 s)"

text \<open>The invariant, with the unread part of the control stream fixed: no handler touches it.\<close>

definition good :: "string \<Rightarrow> sender \<Rightarrow> bool" where
  "good B s \<longleftrightarrow> sane s \<and> s_rxBuf s = B"

text \<open>The exceptions of the bignum reader and writer, on an SRP public value that is too long.\<close>

definition srp_fault :: "fault \<Rightarrow> bool" where
  "srp_fault e \<longleftrightarrow> e = Exception ''airplay crypto: mpi_read_binary'' \<or> e = Exception ''airplay crypto: mpi_write_binary pad''"

definition ok :: "('a \<Rightarrow> bool) \<Rightarrow> 'a result \<Rightarrow> bool" where
  "ok P r = (case r of Inl e \<Rightarrow> srp_fault e | Inr s \<Rightarrow> P s)"

lemma ok_simps [simp]: "ok P (Inr s) = P s" "ok P (Inl e) = srp_fault e"
  by (simp_all add: ok_def)

lemma ok_mono: "ok P r \<Longrightarrow> (\<And>s. P s \<Longrightarrow> Q s) \<Longrightarrow> ok Q r"
  by (cases r) auto

lemma ok_case: "ok P r \<Longrightarrow> (\<And>s. P s \<Longrightarrow> ok Q (f s)) \<Longrightarrow> ok Q (case r of Inl e \<Rightarrow> Inl e | Inr s \<Rightarrow> f s)"
  by (cases r) auto

declare run.simps [simp del]

lemma ok_run: "P s \<Longrightarrow> list_all (\<lambda>f. \<forall>s. P s \<longrightarrow> ok P (f s)) fs \<Longrightarrow> ok P (run fs s)"
proof (induction fs arbitrary: s)
  case (Cons f fs)
  then have "ok P (f s)" by simp
  with Cons show ?case by (cases "f s") (auto simp: run.simps)
qed (simp add: run.simps)

lemma run_simps:
  "run [] s = Inr s" "run [f] s = f s" "run (upd g # fs) s = run fs (g s)"
  "run (io a # fs) s = run fs (emit a s)" "run ((\<lambda>s. io (h s) s) # fs) s = run fs (emit (h s) s)"
  by (simp_all add: run.simps upd_def io_def split: sum.split)

named_theorems sane_defs

lemmas [sane_defs] = good_def sane_def writable_def pairing_live_def

text \<open>Timers and the log of actions are not in the invariant.\<close>

lemma good_arm [simp]:
  "good B (arm s_timeout_update t) = good B t" "good B (arm s_pinTimeout_update t) = good B t"
  "good B (arm s_feedbackTimer_update t) = good B t" "good B (arm s_syncTimer_update t) = good B t"
  "good B (arm s_pacer_update t) = good B t"
  "good B (disarm s_timeout_update t) = good B t" "good B (disarm s_pinTimeout_update t) = good B t"
  "good B (disarm s_feedbackTimer_update t) = good B t" "good B (emit a t) = good B t"
  by (simp_all add: sane_defs arm_def disarm_def emit_def)

lemma emit_fields [simp]:
  "s_ap2 (emit a s) = s_ap2 s" "s_state (emit a s) = s_state s" "s_pairStage (emit a s) = s_pairStage s"
  "s_rxBuf (emit a s) = s_rxBuf s" "s_hostIp (emit a s) = s_hostIp s" "s_seq (emit a s) = s_seq s"
  "s_backlog (emit a s) = s_backlog s" "s_backlogSeq (emit a s) = s_backlogSeq s"
  "s_framesSent (emit a s) = s_framesSent s"
  by (simp_all add: emit_def)

section \<open>Writing\<close>

lemma seal_frames_total:
  "crypto_ok C \<Longrightarrow> length key = 32 \<Longrightarrow> \<exists>out c. seal_frames C key ctr data = Inr (out, c)"
  using open_sealed [of C key ctr data] by blast

lemma writeRtsp_good:
  assumes "crypto_ok C" and "good B s"
  shows "ok (good B) (writeRtsp C data s)"
proof (cases "s_ap2 s")
  case None
  with assms show ?thesis by (simp add: writeRtsp_def io_def)
next
  case (Some a)
  show ?thesis
  proof (cases "s_controlEncrypted s")
    case False
    with Some assms show ?thesis by (simp add: writeRtsp_def io_def)
  next
    case True
    with Some assms(2) have "length (a_controlOut a) = 32" by (simp add: good_def sane_def writable_def)
    then obtain out c where "seal_frames C (a_controlOut a) (s_ctrlSendCtr s)
        (take (nat (sint (of_nat (length data) :: 32 word))) data) = Inr (out, c)"
      using seal_frames_total [OF assms(1)] by blast
    with Some True assms(2) show ?thesis
      by (simp add: writeRtsp_def io_def Let_def) (simp add: sane_defs)
  qed
qed

lemma queue_good: "good B s \<Longrightarrow> good B (queue_method m h s)"
  by (simp add: sane_defs queue_method_def)

lemma cseq_good: "good B s \<Longrightarrow> good B (s\<lparr>s_cseq := n\<rparr>)"
  by (simp add: sane_defs)

lemma digest_good: "good B s \<Longrightarrow> good B (s\<lparr>s_pendingDigestMethod := m, s_pendingDigestUri := u\<rparr>)"
  by (simp add: sane_defs)

lemma sendRequest_good: "crypto_ok C \<Longrightarrow> good B s \<Longrightarrow> ok (good B) (sendRequest C m u ct body extra s)"
  unfolding sendRequest_def Let_def
  by (rule ok_run) (simp_all add: upd_def queue_good cseq_good digest_good writeRtsp_good)

lemma httpPost_good: "crypto_ok C \<Longrightarrow> good B s \<Longrightarrow> ok (good B) (httpPost C u ct body s)"
  unfolding httpPost_def Let_def
  by (rule ok_run) (simp_all add: upd_def queue_good cseq_good writeRtsp_good)

lemma sendAp2Rtsp_good: "crypto_ok C \<Longrightarrow> good B s \<Longrightarrow> ok (good B) (sendAp2Rtsp C m u ct body s)"
  unfolding sendAp2Rtsp_def Let_def
  by (rule ok_run) (simp_all add: upd_def queue_good cseq_good writeRtsp_good)

section \<open>Ending a session\<close>

lemma releaseSockets_good [simp]: "good B (releaseSockets s) = good B s"
  by (simp add: releaseSockets_def Let_def sane_defs emit_def)

lemma stopTimers_good [simp]: "good B (stopTimers s) = good B s"
  by (simp add: stopTimers_def sane_defs disarm_def)

lemma idle_good: "good B s \<Longrightarrow> good B (s\<lparr>s_state := Idle\<rparr>)"
  by (simp add: sane_defs)

lemma unconnect_good [simp]: "good B (s\<lparr>s_rtspConnected := c\<rparr>) = good B s"
  by (simp add: sane_defs)

lemma fail_good: "good B s \<Longrightarrow> good B (fail why s)"
  by (simp add: fail_def Let_def idle_good)

text \<open>A failed session is idle, so the stage no longer matters.\<close>

lemma fail_good_any_stage:
  "good B (s\<lparr>s_state := Idle\<rparr>) \<Longrightarrow> good B (fail why s)"
  by (simp add: fail_def Let_def)

lemma clear_backlog_good: "good B s \<Longrightarrow> good B (clear_backlog s)"
  by (auto simp: clear_backlog_def sane_defs backlog_lengths intro!: backlog_empty)

lemma stop_good: "crypto_ok C \<Longrightarrow> good B s \<Longrightarrow> ok (good B) (stop C s)"
  by (auto simp: stop_def upd_def io_def sendRequest_good idle_good clear_backlog_good intro!: ok_run)

section \<open>Streaming\<close>

lemma sendSyncPacket_good [simp]: "good B (sendSyncPacket first s) = good B s"
  by (simp add: sendSyncPacket_def Let_def)

lemma sendVolume_good: "crypto_ok C \<Longrightarrow> good B s \<Longrightarrow> ok (good B) (sendVolume C s)"
  by (simp add: sendVolume_def sendRequest_good)

lemma volume_good [simp]: "good B (s\<lparr>s_pendingVolumeDb := v\<rparr>) = good B s"
  by (simp add: sane_defs)

lemma setVolume_good: "crypto_ok C \<Longrightarrow> good B s \<Longrightarrow> ok (good B) (setVolume C pct s)"
  by (simp add: setVolume_def Let_def sendVolume_good)

lemma sendMetadata_good: "crypto_ok C \<Longrightarrow> good B s \<Longrightarrow> ok (good B) (sendMetadata C s)"
  unfolding sendMetadata_def Let_def
  by (auto intro!: ok_run simp: sendRequest_good)

lemma setNowPlaying_good:
  assumes "crypto_ok C" and "good B s"
  shows "ok (good B) (setNowPlaying C title artist album cover mime s)"
proof -
  have "good B (s\<lparr>s_npTitle := title, s_npArtist := artist, s_npAlbum := album, s_npCover := cover, s_npCoverMime := mime\<rparr>)"
    using assms(2) by (simp add: sane_defs)
  with sendMetadata_good [OF assms(1)] show ?thesis by (simp add: setNowPlaying_def Let_def)
qed

lemma streaming_good: "good B s \<Longrightarrow> good B (s\<lparr>s_state := Streaming\<rparr>)"
  by (simp add: sane_defs)

lemma clock_good: "good B s \<Longrightarrow> good B (s\<lparr>s_startTs := a, s_framesSent := b, s_firstAudio := c, s_clockStart := d\<rparr>)"
  by (simp add: sane_defs)

lemma feedback_interval_good [simp]: "good B (s_feedbackTimer_update f s) = good B s"
  by (simp add: sane_defs)

lemma startStreaming_good: "crypto_ok C \<Longrightarrow> good B s \<Longrightarrow> ok (good B) (startStreaming C s)"
  unfolding startStreaming_def
  by (rule ok_run) (simp_all add: upd_def io_def streaming_good clock_good sendVolume_good sendRequest_good sendMetadata_good)

lemma encryptAudioPayload_good:
  assumes "good B s"
  shows "ok (\<lambda>(p, s'). good B s') (encryptAudioPayload C h p s)"
proof (cases "s_ap2 s")
  case None
  with assms show ?thesis by (simp add: encryptAudioPayload_def)
next
  case (Some a)
  with assms have "ap2_ok a" by (simp add: good_def sane_def)
  with Some assms show ?thesis
    by (auto simp: encryptAudioPayload_def chacha20Poly1305Encrypt_def ap2_ok_def sane_defs has_srp_key_def Let_def
        stage_ok_def split: prod.splits pair_stage.splits)
qed

lemma encryptAudioPayload_cases:
  "good B s \<Longrightarrow> encryptAudioPayload C h p s = Inl e \<Longrightarrow> srp_fault e"
  "good B s \<Longrightarrow> encryptAudioPayload C h p s = Inr (w, s') \<Longrightarrow> good B s'"
  using encryptAudioPayload_good [of B s C h p] by simp_all

lemma encryptAudioPayload_seq: "encryptAudioPayload C h p s = Inr (w, s') \<Longrightarrow> s_seq s' = s_seq s"
  by (auto simp: encryptAudioPayload_def Let_def split: option.splits if_splits sum.splits)

lemma packet_stored_good:
  "good B s \<Longrightarrow> ps = s_backlog s \<Longrightarrow> ns = s_backlogSeq s \<Longrightarrow> q = packet_seq p \<Longrightarrow> 12 \<le> length p \<Longrightarrow>
     good B (s\<lparr>s_backlog := ps[unat (q AND 0x3FF) := p], s_backlogSeq := ns[unat (q AND 0x3FF) := uint q],
       s_firstAudio := f, s_seq := r, s_framesSent := w\<rparr>)"
  by (simp add: sane_defs backlog_store)

lemma sendAudioPacket_good:
  assumes "good B s"
  shows "ok (good B) (sendAudioPacket C s)"
proof -
  have "resampler_ok (s_rs s)" using assms by (simp add: good_def sane_def)
  then obtain frames rs where f: "fillFrames (s_rs s) kFramesPerPacket = Some (frames, rs)" "resampler_ok rs"
    using fillFrames_total by blast
  have g: "good B (s\<lparr>s_rs := rs\<rparr>)" using assms f(2) by (simp add: sane_defs)
  define payload where "payload = (if audio_encrypted (s\<lparr>s_rs := rs\<rparr>) then encodeAlacFrame frames else l16_payload frames)"
  show ?thesis
    using f(1) encryptAudioPayload_cases [OF g, where C = C and p = payload] unfolding sendAudioPacket_def Let_def
    by (simp add: payload_def [symmetric] split: sum.split prod.split)
      (auto simp: packet_seq_header length_rtp_header dest: encryptAudioPayload_seq
        intro!: packet_stored_good)
qed

lemma pacer_loop_good: "good B s \<Longrightarrow> ok (good B) (pacer_loop C target k s)"
  by (induction k arbitrary: s) (auto intro!: ok_case intro: sendAudioPacket_good)

lemma onPacerTick_good: "good B s \<Longrightarrow> ok (good B) (onPacerTick C s)"
  by (simp add: onPacerTick_def Let_def pacer_loop_good)

lemma retransmit_one_good [simp]: "good B (retransmit_one from sq s) = good B s"
  by (simp add: retransmit_one_def Let_def)

lemma onControlDatagram_good: "good B s \<Longrightarrow> good B (onControlDatagram dg from s)"
proof -
  assume g: "good B s"
  have "good B (fold (\<lambda>i. retransmit_one from (f i)) ns s)" for f :: "nat \<Rightarrow> 16 word" and ns
    using g by (induction ns arbitrary: s) simp_all
  then show ?thesis using g by (simp add: onControlDatagram_def Let_def)
qed

lemma onTimingDatagram_good [simp]: "good B (onTimingDatagram dg from s) = good B s"
  by (simp add: onTimingDatagram_def)

section \<open>Pairing\<close>

lemma draw_good [simp]: "good B (snd (draw C n s)) = good B s"
  by (simp add: draw_def sane_defs)

lemma sendOptions_good: "crypto_ok C \<Longrightarrow> good B s \<Longrightarrow> ok (good B) (sendOptions C s)"
  by (simp add: sendOptions_def sendRequest_good)

lemma sendAnnounce_good: "crypto_ok C \<Longrightarrow> good B s \<Longrightarrow> ok (good B) (sendAnnounce C s)"
  by (simp add: sendAnnounce_def sendRequest_good)

lemma sendSetup_good: "crypto_ok C \<Longrightarrow> good B s \<Longrightarrow> ok (good B) (sendSetup C s)"
  by (simp add: sendSetup_def sendRequest_good)

lemma sendRecord_good: "crypto_ok C \<Longrightarrow> good B s \<Longrightarrow> ok (good B) (sendRecord C s)"
  by (simp add: sendRecord_def sendRequest_good)

lemma post_tlv_good: "crypto_ok C \<Longrightarrow> good B s \<Longrightarrow> ok (good B) (post_tlv C u m s)"
  by (simp add: post_tlv_def httpPost_good)

lemmas requests_good = sendRequest_good httpPost_good sendAp2Rtsp_good post_tlv_good
  sendOptions_good sendAnnounce_good sendSetup_good sendRecord_good

lemma ap2_some: "good B s \<Longrightarrow> s_ap2 s = Some a \<Longrightarrow> ap2_ok a"
  by (simp add: good_def sane_def)

lemma stage_good:
  "good B s \<Longrightarrow> stage_ok st (s_controlEncrypted s) (s_ap2 s) \<Longrightarrow> good B (s\<lparr>s_pairStage := st\<rparr>)"
  by (simp add: sane_defs)

lemma ap2_stage_good:
  assumes "good B s" and "ap2_ok a" and "s_controlEncrypted s \<longrightarrow> length (a_controlOut a) = 32"
    and "stage_ok st (s_controlEncrypted s) (Some a)"
  shows "good B (s\<lparr>s_ap2 := Some a, s_pairStage := st\<rparr>)"
  using assms by (simp add: sane_defs)

lemma sendAp2Info_good:
  "crypto_ok C \<Longrightarrow> good B s \<Longrightarrow> s_ap2 s = Some a \<Longrightarrow> 32 \<le> length (a_sharedSecret a) \<Longrightarrow> ok (good B) (sendAp2Info C s)"
  by (simp add: sendAp2Info_def requests_good stage_good stage_ok_def)

lemma sendAp2Record_good:
  "crypto_ok C \<Longrightarrow> good B s \<Longrightarrow> s_ap2 s = Some a \<Longrightarrow> 32 \<le> length (a_sharedSecret a) \<Longrightarrow> ok (good B) (sendAp2Record C s)"
  by (simp add: sendAp2Record_def requests_good stage_good stage_ok_def)

lemma sendAp2SetupSession_good:
  "crypto_ok C \<Longrightarrow> good B s \<Longrightarrow> s_ap2 s = Some a \<Longrightarrow> 32 \<le> length (a_sharedSecret a) \<Longrightarrow> ok (good B) (sendAp2SetupSession C s)"
  by (simp add: sendAp2SetupSession_def on_ap2_def requests_good stage_good stage_ok_def)

lemma sendAp2SetupStream_good:
  assumes "crypto_ok C" and "good B s" and "s_ap2 s = Some a" and "32 \<le> length (a_sharedSecret a)"
  shows "ok (good B) (sendAp2SetupStream C s)"
proof -
  have "writable s" "ap2_ok a" using assms(2,3) by (simp_all add: good_def sane_def)
  with assms have "good B (s\<lparr>s_ap2 := Some (a\<lparr>a_audioKey := take 32 (a_sharedSecret a), a_audioNonce := 0, a_encryptAudio := True\<rparr>),
      s_pairStage := PS_Ap2Stream\<rparr>)"
    by (intro ap2_stage_good) (auto simp: ap2_ok_def stage_ok_def writable_def)
  with assms show ?thesis
    by (simp add: sendAp2SetupStream_def on_ap2_def Let_def requests_good)
qed

lemma handleAp2SetupSession_good:
  assumes "crypto_ok C" and g: "good B s" and a: "s_ap2 s = Some a" "32 \<le> length (a_sharedSecret a)"
    and st: "stage_ok (s_pairStage s) (s_controlEncrypted s) (s_ap2 s)"
  shows "ok (good B) (handleAp2SetupSession C body s)"
proof -
  define a' where "a' = (case bp_decode (toBytes body) of None \<Rightarrow> a
    | Some plist \<Rightarrow> (case bp_find plist ''eventPort'' of None \<Rightarrow> a | Some ep \<Rightarrow> a\<lparr>a_eventPort := ucast (asInt ep 0)\<rparr>))"
  have f: "a_sharedSecret a' = a_sharedSecret a" "ap2_ok a' = ap2_ok a" "a_controlOut a' = a_controlOut a"
      "a_ltSeed a' = a_ltSeed a" "has_srp_key a' = has_srp_key a"
    by (auto simp: a'_def ap2_ok_def has_srp_key_def split: option.split)
  have "good B (s\<lparr>s_ap2 := Some a'\<rparr>)"
    using g a st f by (auto simp: sane_defs stage_ok_def split: pair_stage.splits)
  then have "ok (good B) (sendAp2Record C (if a_eventPort a' \<noteq> 0
      then emit (TcpConnect TcpEvent (s_hostIp (s\<lparr>s_ap2 := Some a'\<rparr>)) (a_eventPort a')) (emit (TcpClose TcpEvent False) (s\<lparr>s_ap2 := Some a'\<rparr>))
      else s\<lparr>s_ap2 := Some a'\<rparr>))"
    using assms f by (auto intro!: sendAp2Record_good [where a = a'])
  with a show ?thesis by (simp add: handleAp2SetupSession_def on_ap2_def Let_def a'_def [symmetric] cong: if_cong)
qed

lemma handleAp2SetupStream_good:
  assumes "crypto_ok C" and "good B s"
  shows "ok (good B) (handleAp2SetupStream C body s)"
proof -
  have "good B (s\<lparr>s_serverPort := d, s_controlPort := c\<rparr>)"
    "good B (s\<lparr>s_serverPort := d, s_controlPort := c, s_timingPort := t\<rparr>)" for d c t
    using assms(2) by (simp_all add: sane_defs)
  then show ?thesis
    by (auto simp: handleAp2SetupStream_def Let_def fail_good intro!: startStreaming_good assms(1) split: prod.split)
qed

lemma digest_retried_good [simp]: "good B (s\<lparr>s_digestRetried := b\<rparr>) = good B s"
  by (simp add: sane_defs)

lemma handshake_good:
  "good B s \<Longrightarrow> stage_ok (s_pairStage s) (s_controlEncrypted s) (s_ap2 s) \<Longrightarrow> good B (s\<lparr>s_state := Handshake\<rparr>)"
  by (simp add: sane_defs)

lemma afterAuthOk_good:
  assumes "crypto_ok C" and "good B s" and "s_pairStage s = PS_Done"
    and "s_airplay2 s \<longrightarrow> \<not> Option.is_none (s_ap2 s) \<and> 32 \<le> length (a_sharedSecret (the (s_ap2 s)))"
  shows "ok (good B) (afterAuthOk C s)"
proof (cases "s_airplay2 s")
  case False
  have "good B (s\<lparr>s_digestRetried := False, s_state := Handshake\<rparr>)"
    using assms by (intro handshake_good) (simp_all add: stage_ok_def)
  with False assms(1) show ?thesis by (simp add: afterAuthOk_def Let_def requests_good)
next
  case True
  with assms(4) obtain a where a: "s_ap2 s = Some a" "32 \<le> length (a_sharedSecret a)"
    by (cases "s_ap2 s") auto
  have "good B (s\<lparr>s_digestRetried := False, s_state := Handshake\<rparr>)"
    using assms by (intro handshake_good) (simp_all add: stage_ok_def)
  moreover have "length (a_controlOut a) = 32 \<Longrightarrow>
      good B (s\<lparr>s_digestRetried := False, s_controlEncrypted := True, s_ctrlSendCtr := 0, s_ctrlRecvCtr := 0,
        s_rtspEncBuf := [], s_state := Handshake\<rparr>)"
    using assms a by (simp add: sane_defs stage_ok_def)
  ultimately show ?thesis
    using True a assms(1) by (auto simp: afterAuthOk_def Let_def intro!: sendAp2Info_good [where a = a])
qed

section \<open>Pair-setup and pair-verify\<close>

lemma sendPairSetupM1_good:
  "crypto_ok C \<Longrightarrow> good B s \<Longrightarrow> s_ap2 s \<noteq> None \<Longrightarrow> \<not> s_controlEncrypted s \<Longrightarrow> ok (good B) (sendPairSetupM1 C s)"
  by (simp add: sendPairSetupM1_def requests_good stage_good stage_ok_def)

lemma sendPairPinStart_good:
  "crypto_ok C \<Longrightarrow> good B s \<Longrightarrow> s_ap2 s \<noteq> None \<Longrightarrow> \<not> s_controlEncrypted s \<Longrightarrow> ok (good B) (sendPairPinStart C s)"
  by (simp add: sendPairPinStart_def requests_good stage_good stage_ok_def)

lemma sendAuthSetup_good: "crypto_ok C \<Longrightarrow> good B s \<Longrightarrow> ok (good B) (sendAuthSetup C s)"
  by (simp add: sendAuthSetup_def requests_good stage_good stage_ok_def)

text \<open>The SRP client either throws on an oversized public value, or accepts it and holds a 64-byte key.\<close>

lemma hashTwoPadded_fault: "hashTwoPadded C a b = Inl e \<Longrightarrow> srp_fault e"
  by (auto simp: hashTwoPadded_def mpiToBytesPadded_def srp_fault_def split: if_splits)

lemma srp_process_ok:
  assumes "crypto_ok C"
  shows "ok (\<lambda>(d, accepted). accepted \<longrightarrow> length (srp_K d) = 64) (srp_process C d salt serverB)"
  using crypto_ok_simps(5) [OF assms] hashTwoPadded_fault [of C]
  by (auto simp: srp_process_def bytesToMpi_def Let_def srp_fault_def split: sum.split)

lemma srp_process_Inl: "crypto_ok C \<Longrightarrow> srp_process C d salt serverB = Inl e \<Longrightarrow> srp_fault e"
  using srp_process_ok [of C d salt serverB] by simp

lemma srp_process_key:
  "crypto_ok C \<Longrightarrow> srp_process C d salt serverB = Inr (d', True) \<Longrightarrow> length (srp_K d') = 64"
  using srp_process_ok [of C d salt serverB] by simp

lemma sendPairSetupM3_good:
  assumes "crypto_ok C" and g: "good B s" and a: "s_ap2 s = Some a"
  shows "ok (good B) (sendPairSetupM3 C pin s)"
proof -
  have i: "ap2_ok (a\<lparr>a_srp := d\<rparr>)" "s_controlEncrypted s \<longrightarrow> length (a_controlOut a) = 32" for d
    using g a by (auto simp: sane_defs ap2_ok_def)
  have refused: "good B (s\<lparr>s_draws := n, s_ap2 := Some (a\<lparr>a_srp := Some d\<rparr>), s_state := Idle\<rparr>)" for n d
    using g a i by (auto simp: sane_defs)
  have accepted: "length (srp_K d) = 64 \<Longrightarrow>
      good B (s\<lparr>s_draws := n, s_ap2 := Some (a\<lparr>a_srp := Some d\<rparr>), s_pairStage := PS_SetupM4\<rparr>)" for n d
    using g a i by (auto simp: sane_defs stage_ok_def has_srp_key_def)
  show ?thesis
    using a assms(1) srp_process_Inl srp_process_key
    by (auto simp: sendPairSetupM3_def on_ap2_def draw_def Let_def split: sum.split
        intro!: fail_good_any_stage refused post_tlv_good accepted)
qed

lemma srp_fields_good [simp]: "good B (s\<lparr>s_srpSalt := x, s_srpServerB := y\<rparr>) = good B s"
  by (simp add: sane_defs)

lemma waiting_good: "good B s \<Longrightarrow> s_ap2 s \<noteq> None \<Longrightarrow> good B (s\<lparr>s_waitingForPin := True\<rparr>)"
  by (simp add: sane_defs)

lemma handlePairSetupM2_good:
  assumes "crypto_ok C" and g: "good B s" and a: "s_ap2 s = Some a"
  shows "ok (good B) (handlePairSetupM2 C body s)"
proof -
  have w: "good B (s\<lparr>s_srpSalt := x, s_srpServerB := y, s_waitingForPin := True\<rparr>)" for x y
    using g a by (simp add: sane_defs)
  then show ?thesis
    using assms by (auto simp: handlePairSetupM2_def Let_def run_simps fail_good
        intro!: sendPairSetupM3_good [where a = a] split: option.split)
qed

lemma sendPairVerifyM1_good:
  assumes "crypto_ok C" and g: "good B s" and a: "s_ap2 s = Some a" "length (a_ltSeed a) = 32"
  shows "ok (good B) (sendPairVerifyM1 C s)"
proof -
  have "good B (s\<lparr>s_draws := n, s_ap2 := Some (a\<lparr>a_verifyKeys := k\<rparr>), s_pairStage := PS_VerifyM2\<rparr>)" for n k
    using g a by (auto simp: sane_defs ap2_ok_def stage_ok_def)
  with a assms(1) show ?thesis
    by (simp add: sendPairVerifyM1_def on_ap2_def draw_def Let_def post_tlv_good)
qed

lemma sendPairSetupM5_good:
  assumes "crypto_ok C" and g: "good B s" and a: "s_ap2 s = Some a" "has_srp_key a"
  shows "ok (good B) (sendPairSetupM5 C s)"
proof -
  obtain d where d: "a_srp a = Some d" using a(2) by (auto simp: has_srp_key_def split: option.splits)
  have ok: "ap2_ok a" using g a(1) by (simp add: ap2_some)
  have stored: "length (a_ltSeed a') = 32 \<Longrightarrow> a_encryptAudio a' = a_encryptAudio a \<Longrightarrow> a_audioKey a' = a_audioKey a \<Longrightarrow>
      a_controlOut a' = a_controlOut a \<Longrightarrow>
      good B (s\<lparr>s_draws := n, s_ap2 := Some a', s_pairSetupSessionKey := k, s_pairStage := PS_SetupM6\<rparr>)"
    "length (a_ltSeed a') = 32 \<Longrightarrow> a_encryptAudio a' = a_encryptAudio a \<Longrightarrow> a_audioKey a' = a_audioKey a \<Longrightarrow>
      a_controlOut a' = a_controlOut a \<Longrightarrow>
      good B (s\<lparr>s_ap2 := Some a', s_pairSetupSessionKey := k, s_pairStage := PS_SetupM6\<rparr>)" for n a' k
    using g a(1) ok by (auto simp: sane_defs ap2_ok_def stage_ok_def)
  have seed: "a_ltSeed a \<noteq> [] \<Longrightarrow> length (a_ltSeed a) = 32" using ok by (simp add: ap2_ok_def)
  show ?thesis
    using a(1) d seed assms(1) crypto_ok_simps(4,6) [OF assms(1)]
    by (auto simp: sendPairSetupM5_def on_ap2_def draw_def Let_def ed25519PublicFromSeed_def ed25519Sign_def
        chacha20Poly1305Encrypt_def case_prod_beta intro!: stored post_tlv_good)
qed

lemma sendPairVerifyM3_good:
  assumes "crypto_ok C" and g: "good B s" and a: "s_ap2 s = Some a"
    and l: "length (a_ltSeed a) = 32" "length (a_sharedSecret a) = 32" "length verifyKey = 32"
  shows "ok (good B) (sendPairVerifyM3 C verifyKey sessionPub a s)"
proof -
  have "good B (s\<lparr>s_ap2 := Some (event_keys C (control_keys C a)), s_pairStage := PS_VerifyDone\<rparr>)"
    using g a l crypto_ok_simps [OF assms(1)]
    by (auto simp: sane_defs ap2_ok_def stage_ok_def event_keys_def control_keys_def)
  with l assms(1) show ?thesis
    by (simp add: sendPairVerifyM3_def Let_def ed25519Sign_def chacha20Poly1305Encrypt_def case_prod_beta post_tlv_good)
qed

lemma length_x25519SharedSecret: "crypto_ok C \<Longrightarrow> x25519SharedSecret C p q \<noteq> [] \<Longrightarrow> length (x25519SharedSecret C p q) = 32"
  using crypto_ok_simps(7) [of C] by (auto simp: x25519SharedSecret_def Let_def split: if_splits)

lemma handlePairVerifyM2_good:
  assumes "crypto_ok C" and g: "good B s" and a: "s_ap2 s = Some a" and l: "length (a_ltSeed a) = 32"
    and st: "s_pairStage s = PS_VerifyM2"
  shows "ok (good B) (handlePairVerifyM2 C body s)"
proof -
  have "good B (s\<lparr>s_ap2 := Some (a\<lparr>a_sharedSecret := z\<rparr>)\<rparr>)" for z
    using g a l st by (auto simp: sane_defs ap2_ok_def stage_ok_def)
  with a l assms(1) length_x25519SharedSecret [OF assms(1)] crypto_ok_simps(4) [OF assms(1)] show ?thesis
    by (auto simp: handlePairVerifyM2_def on_ap2_def Let_def fail_good intro!: sendPairVerifyM3_good split: option.split)
      (use fail_good [OF g] in simp_all)
qed

lemma session_key_good [simp]: "good B (s\<lparr>s_pairSetupSessionKey := k\<rparr>) = good B s"
  by (simp add: sane_defs)

lemma handlePairSetupM6_good:
  assumes "crypto_ok C" and g: "good B s" and a: "s_ap2 s = Some a" and l: "length (a_ltSeed a) = 32"
    and st: "s_pairStage s = PS_SetupM6"
  shows "ok (good B) (handlePairSetupM6 C body s)"
proof -
  have "good B (s\<lparr>s_ap2 := Some (a\<lparr>a_accessoryId := x, a_accessoryLtpk := y\<rparr>)\<rparr>)" for x y
    using g a l st by (auto simp: sane_defs ap2_ok_def stage_ok_def)
  then have "good B (emit e (s\<lparr>s_ap2 := Some (a\<lparr>a_accessoryId := x, a_accessoryLtpk := y\<rparr>)\<rparr>)
      \<lparr>s_pairSetupSessionKey := []\<rparr>)" for x y e
    by simp
  with a l assms(1) g show ?thesis
    by (auto simp: handlePairSetupM6_def on_ap2_def Let_def fail_good run_simps
        intro!: sendPairVerifyM1_good split: option.split sum.split)
qed

lemma handlePairSetupM4_good:
  assumes "crypto_ok C" and g: "good B s" and a: "s_ap2 s = Some a" "has_srp_key a"
  shows "ok (good B) (handlePairSetupM4 C body s)"
proof -
  obtain d where d: "a_srp a = Some d" "length (srp_K d) = 64"
    using a(2) by (auto simp: has_srp_key_def split: option.splits)
  have keyed: "good B (s\<lparr>s_ap2 := Some (control_keys C (a\<lparr>a_sharedSecret := srp_K d\<rparr>)), s_pairStage := PS_Done\<rparr>)"
    using g a crypto_ok_simps(4) [OF assms(1)] by (auto simp: sane_defs ap2_ok_def stage_ok_def control_keys_def)
  show ?thesis
    using a d assms(1)
    by (auto simp: handlePairSetupM4_def server_proved_def on_srp_def on_ap2_def Let_def fail_good [OF g]
        control_keys_def [of C "_\<lparr>a_sharedSecret := _\<rparr>"]
        intro!: afterAuthOk_good keyed [simplified control_keys_def, simplified] sendPairSetupM5_good g split: option.split)
qed

end
