(* ===== verification/Sender_Safety.thy ===== *)
theory Sender_Safety
  imports Sender_Invariant
begin

text \<open>
  The invariant carried through the reply dispatchers, the two parser loops (whose fuel is
  shown to be enough) and the public calls to every reachable state, and what follows: no call
  dereferences a null pointer, reads out of bounds or hangs.
\<close>

section \<open>Dispatch\<close>

lemma renew_ap2_good:
  assumes "good B s" and "\<not> s_controlEncrypted s" and "stage_ok (s_pairStage s) False (Some fresh_ap2)"
  shows "good B (renew_ap2 C s)" "\<not> s_controlEncrypted (renew_ap2 C s)" "s_ap2 (renew_ap2 C s) \<noteq> None"
    "s_credsJson (renew_ap2 C s) = s_credsJson s"
  using assms
  by (auto simp: renew_ap2_def draw_uuid_def draw_def Let_def sane_defs ap2_ok_def fresh_ap2_def stage_ok_def
      has_srp_key_def split: pair_stage.splits)

lemma pairing_refused_good:
  assumes "crypto_ok C" and g: "good B s" and live: "pairing_live s"
  shows "ok (good B) (pairing_refused C code s)"
proof -
  have st: "stage_ok (s_pairStage s) (s_controlEncrypted s) (s_ap2 s)" using g live by (simp add: good_def sane_def)
  have hap: "good B (s\<lparr>s_authMethod := Auth_HapPin\<rparr>)"
    "good B (s\<lparr>s_triedTransientAfterPin403 := True, s_authMethod := Auth_HapTransient\<rparr>)"
    using g by (simp_all add: sane_defs)
  have pin: "s_pairStage s = PS_SetupM2 \<Longrightarrow>
      ok (good B) (sendPairPinStart C (renew_ap2 C (s\<lparr>s_authMethod := Auth_HapPin\<rparr>)))"
    using renew_ap2_good [OF hap(1), of C] st
    by (intro sendPairPinStart_good assms(1)) (auto simp: stage_ok_def)
  have m1: "s_pairStage s = PS_PinStart \<Longrightarrow> ok (good B) (sendPairSetupM1 C (renew_ap2 C
      (s\<lparr>s_triedTransientAfterPin403 := True, s_authMethod := Auth_HapTransient\<rparr>)))"
    using renew_ap2_good [OF hap(2), of C] st
    by (intro sendPairSetupM1_good assms(1)) (auto simp: stage_ok_def)
  show ?thesis
    using pin m1 by (auto simp: pairing_refused_def fail_good [OF g])
qed

lemma done_good: "good B s \<Longrightarrow> good B (s\<lparr>s_pairStage := PS_Done\<rparr>)"
  by (simp add: stage_good stage_ok_def)

lemma onPairingResponse_good:
  assumes "crypto_ok C" and g: "good B s"
  shows "ok (good B) (onPairingResponse C code body s)"
proof (cases "pairing_live s")
  case False
  with g show ?thesis by (auto simp: onPairingResponse_def pairing_live_def)
next
  case True
  then have st: "stage_ok (s_pairStage s) (s_controlEncrypted s) (s_ap2 s)" using g by (simp add: good_def sane_def)
  have authsetup: "s_authMethod s = Auth_AuthSetup \<Longrightarrow> \<not> s_airplay2 s" using g by (simp add: good_def sane_def)
  show ?thesis
  proof (cases "s_pairStage s")
  qed (use True st g authsetup in
    \<open>auto simp: onPairingResponse_def pairing_live_def stage_ok_def Option.is_none_def
       intro!: pairing_refused_good assms(1) afterAuthOk_good done_good sendPairSetupM1_good
         handlePairSetupM2_good handlePairSetupM4_good handlePairSetupM6_good handlePairVerifyM2_good
         sendAp2SetupSession_good handleAp2SetupSession_good handleAp2SetupStream_good sendAp2SetupStream_good\<close>)
qed

section \<open>RTSP replies\<close>

lemma digest_fields_good [simp]: "good B (s\<lparr>s_digestRealm := x, s_digestNonce := y\<rparr>) = good B s"
  "good B (s\<lparr>s_digestRealm := x, s_digestNonce := y, s_digestRetried := b\<rparr>) = good B s"
  by (simp_all add: sane_defs)

lemma digest_challenge_good:
  assumes "crypto_ok C" and "good B s"
  shows "ok (good B) (digest_challenge C method headers s)"
  using assms by (simp add: digest_challenge_def Let_def fail_good requests_good)

lemma ports_good [simp]: "good B (s\<lparr>s_serverPort := p\<rparr>) = good B s" "good B (s\<lparr>s_controlPort := p\<rparr>) = good B s"
  "good B (s\<lparr>s_timingPort := p\<rparr>) = good B s" "good B (s\<lparr>s_rtspSession := t\<rparr>) = good B s"
  "good B (s\<lparr>s_serverPort := p, s_controlPort := q, s_timingPort := r\<rparr>) = good B s"
  by (simp_all add: sane_defs)

lemma transport_opt_good [simp]: "good B (transport_opt x s) = good B s"
  by (simp add: transport_opt_def Let_def split: option.split)

lemma transport_opts_good [simp]: "good B (fold transport_opt xs s) = good B s"
  by (induction xs arbitrary: s) simp_all

lemma setup_reply_good: "crypto_ok C \<Longrightarrow> good B s \<Longrightarrow> ok (good B) (setup_reply C headers s)"
  by (simp add: setup_reply_def Let_def fail_good requests_good)

lemma handleResponse_good: "crypto_ok C \<Longrightarrow> good B s \<Longrightarrow> ok (good B) (handleResponse C method code headers s)"
  by (simp add: handleResponse_def fail_good requests_good digest_challenge_good setup_reply_good startStreaming_good)

lemma dispatch_good:
  assumes "crypto_ok C" and g: "good B s"
  shows "ok (good B) (dispatch C r s)"
proof -
  have "s_pendingMethods s = m # ms \<Longrightarrow> s_pendingIsHttp s = b # bs \<Longrightarrow>
      good B (s\<lparr>s_pendingMethods := ms, s_pendingIsHttp := bs\<rparr>)" for m ms b bs
    using g by (simp add: sane_defs)
  moreover have "s_pendingMethods s \<noteq> [] \<Longrightarrow> s_pendingIsHttp s \<noteq> []"
    using g by (auto simp: sane_defs)
  ultimately show ?thesis
    using assms by (auto simp: dispatch_def Let_def onPairingResponse_good handleResponse_good split: list.split)
qed

section \<open>The control stream\<close>

lemma next_message_shorter: "next_message rx = Some (r, rest) \<Longrightarrow> length rest < length rx"
  by (auto simp: next_message_def Let_def split: option.splits if_splits)

text \<open>The fuel of the message loop is more than the rounds the buffer allows.\<close>

lemma message_loop_good:
  assumes "crypto_ok C"
  shows "sane s \<Longrightarrow> length (s_rxBuf s) < fuel \<Longrightarrow> ok sane (message_loop C fuel s)"
proof (induction fuel arbitrary: s)
  case (Suc fuel)
  show ?case
  proof (cases "next_message (s_rxBuf s)")
    case None
    with Suc.prems show ?thesis by simp
  next
    case (Some p)
    obtain r rest where p: "p = (r, rest)" by fastforce
    have "length rest < length (s_rxBuf s)" using Some p by (simp add: next_message_shorter)
    have "good rest (s\<lparr>s_rxBuf := rest\<rparr>)" using Suc.prems(1) by (simp add: sane_defs)
    then have d: "ok (good rest) (dispatch C r (s\<lparr>s_rxBuf := rest\<rparr>))" by (rule dispatch_good [OF assms])
    show ?thesis
    proof (cases "dispatch C r (s\<lparr>s_rxBuf := rest\<rparr>)")
      case (Inl e)
      with d Some p show ?thesis by simp
    next
      case (Inr s')
      with d have s': "sane s'" "s_rxBuf s' = rest" by (simp_all add: good_def)
      then have "ok sane (message_loop C fuel s')"
        using \<open>length rest < length (s_rxBuf s)\<close> Suc.prems(2) by (intro Suc.IH) simp_all
      with Inr Some p s' show ?thesis by simp
    qed
  qed
qed simp

declare message_loop.simps [simp del]

lemma good_sane: "good B s \<Longrightarrow> sane s"
  by (simp add: good_def)

lemma ok_good_sane: "ok (good B) r \<Longrightarrow> ok sane r"
  by (cases r) (auto simp: good_def)

lemma sane_good: "sane s \<Longrightarrow> good (s_rxBuf s) s"
  by (simp add: good_def)

lemma fail_sane: "sane s \<Longrightarrow> sane (fail why s)"
  using fail_good sane_good good_sane by blast

lemma buffers_sane [simp]: "sane (s\<lparr>s_rxBuf := b\<rparr>) = sane s"
  "sane (s\<lparr>s_rxBuf := b, s_ctrlRecvCtr := c, s_rtspEncBuf := d\<rparr>) = sane s"
  "sane (s\<lparr>s_eventPlainBuf := b, s_eventRecvCtr := c, s_eventEncBuf := d\<rparr>) = sane s"
  "sane (s\<lparr>s_eventPlainBuf := b, s_eventSendCtr := c\<rparr>) = sane s"
  "sane (emit x s) = sane s"
  by (simp_all add: sane_defs emit_def)

lemma onRtspReadyRead_sane:
  assumes "crypto_ok C" and "sane s"
  shows "ok sane (onRtspReadyRead C bytes s)"
  using assms
  by (auto simp: onRtspReadyRead_def Let_def fail_sane message_loop_good split: option.split prod.split bool.split)

section \<open>The event channel\<close>

lemma event_request_shorter: "event_request plain = Some (c, rest) \<Longrightarrow> length rest < length plain"
  by (auto simp: event_request_def Let_def split: option.splits if_splits prod.splits)

lemma event_loop_sane:
  assumes "crypto_ok C" and "length (a_eventOut a) = 32"
  shows "sane s \<Longrightarrow> length (s_eventPlainBuf s) < fuel \<Longrightarrow> ok sane (event_loop C a fuel s)"
proof (induction fuel arbitrary: s)
  case (Suc fuel)
  show ?case
  proof (cases "event_request (s_eventPlainBuf s)")
    case (Some p)
    obtain cseq rest where p: "p = (cseq, rest)" by fastforce
    obtain out where out: "seal_frame C (a_eventOut a) (s_eventSendCtr s) (event_response cseq) = Inr out"
      using seal_frame_opens [OF assms] by metis
    define s' where "s' = emit (TcpSend TcpEvent out) (s\<lparr>s_eventPlainBuf := rest, s_eventSendCtr := s_eventSendCtr s + 1\<rparr>)"
    have "length (s_eventPlainBuf s') < fuel"
      using event_request_shorter [of "s_eventPlainBuf s" cseq rest] Some p Suc.prems(2) by (simp add: s'_def emit_def)
    then have "ok sane (event_loop C a fuel s')"
      using Suc.prems(1) by (intro Suc.IH) (simp_all add: s'_def)
    with Some p out show ?thesis by (simp add: s'_def)
  qed (use Suc.prems in simp)
qed simp

declare event_loop.simps [simp del]

lemma onEventReadyRead_sane:
  assumes "crypto_ok C" and "sane s"
  shows "ok sane (onEventReadyRead C bytes s)"
  using assms by (auto simp: onEventReadyRead_def Let_def event_loop_sane split: option.split prod.split)

section \<open>The public interface\<close>

lemma beginHapPin_good:
  assumes "crypto_ok C" and g: "good B s" and st: "\<not> s_controlEncrypted s" "s_pairStage s = PS_None"
  shows "ok (good B) (beginHapPin C s)"
proof -
  let ?t = "renew_ap2 C s"
  have t: "good B ?t" "\<not> s_controlEncrypted ?t" "s_ap2 ?t \<noteq> None"
    using renew_ap2_good [OF g st(1), of C] st by (simp_all add: stage_ok_def)
  then obtain a where a: "s_ap2 ?t = Some a" by auto
  have "s_pairStage ?t = PS_None"
    using st by (simp add: renew_ap2_def draw_uuid_def draw_def Let_def)
  then have ap: "ap2_ok a' \<Longrightarrow> good B (?t\<lparr>s_ap2 := Some a'\<rparr>)" for a'
    using t a by (auto simp: sane_defs stage_ok_def)
  have oka: "ap2_ok a" using t(1) a by (simp add: ap2_some)
  then have okc: "ap2_ok (clear_identity a)" by (simp add: clear_identity_def ap2_ok_def)
  have okl: "length (a_ltSeed (load_creds c a)) = 32 \<Longrightarrow> ap2_ok (load_creds c a\<lparr>a_ltPub := p\<rparr>)" for c p
    using oka by (simp add: load_creds_def ap2_ok_def)
  show ?thesis
    using a t assms(1) okc okl
    by (auto simp: beginHapPin_def on_ap2_def Let_def ed25519PublicFromSeed_def
        intro!: sendPairPinStart_good sendPairVerifyM1_good ap split: option.split)
qed

text \<open>The first request of the chain overwrites the stage, whatever it was.\<close>

lemma restage:
  "sendPairSetupM1 C (s\<lparr>s_pairStage := st\<rparr>) = sendPairSetupM1 C s"
  "sendPairPinStart C (s\<lparr>s_pairStage := st\<rparr>) = sendPairPinStart C s"
  "sendPairVerifyM1 C (s\<lparr>s_pairStage := st\<rparr>) = sendPairVerifyM1 C s"
  "renew_ap2 C (s\<lparr>s_pairStage := st\<rparr>) = renew_ap2 C s\<lparr>s_pairStage := st\<rparr>"
  by (simp_all add: sendPairSetupM1_def sendPairPinStart_def sendPairVerifyM1_def on_ap2_def draw_def
      renew_ap2_def draw_uuid_def Let_def split: option.split)

lemma restage_ap2:
  "sendPairPinStart C (s\<lparr>s_pairStage := st, s_ap2 := a\<rparr>) = sendPairPinStart C (s\<lparr>s_ap2 := a\<rparr>)"
  "sendPairVerifyM1 C (s\<lparr>s_pairStage := st, s_ap2 := a\<rparr>) = sendPairVerifyM1 C (s\<lparr>s_ap2 := a\<rparr>)"
  by (simp_all add: sendPairPinStart_def sendPairVerifyM1_def on_ap2_def draw_def Let_def split: option.split)

lemma restage_beginHapPin: "beginHapPin C (s\<lparr>s_pairStage := st\<rparr>) = beginHapPin C s"
  by (simp add: beginHapPin_def Let_def restage restage_ap2 on_ap2_def cong: option.case_cong sum.case_cong)

lemma beginAuthChain_good:
  assumes "crypto_ok C" and g: "good B s" and st: "\<not> s_controlEncrypted s" "s_state s = Connecting"
  shows "ok (good B) (beginAuthChain C s)"
proof -
  have h: "good B (s\<lparr>s_state := Pairing\<rparr>)" "good B (s\<lparr>s_state := Handshake\<rparr>)"
    using g st by (simp_all add: sane_defs)
  define t where "t = s\<lparr>s_state := Pairing, s_pairStage := PS_None\<rparr>"
  have t: "good B t" "\<not> s_controlEncrypted t" "s_pairStage t = PS_None"
    using g st by (simp_all add: t_def sane_defs stage_ok_def)
  have "ok (good B) (sendPairSetupM1 C (renew_ap2 C t))" "ok (good B) (beginHapPin C t)"
    using t renew_ap2_good [OF t(1,2), of C] assms(1)
    by (auto simp: stage_ok_def intro!: sendPairSetupM1_good beginHapPin_good)
  then have "ok (good B) (sendPairSetupM1 C (renew_ap2 C (s\<lparr>s_state := Pairing\<rparr>)))"
    "ok (good B) (beginHapPin C (s\<lparr>s_state := Pairing\<rparr>))"
    by (simp_all add: t_def restage restage_beginHapPin)
  with h assms(1) show ?thesis
    by (simp add: beginAuthChain_def Let_def requests_good fail_good sendAuthSetup_good split: auth.split)
qed

lemma connected_good [simp]: "good B (s\<lparr>s_rtspConnected := c, s_localIp := l, s_hostIp := h\<rparr>) = good B s"
  by (simp add: sane_defs)

lemma onTcpConnected_sane:
  assumes "crypto_ok C" and "sane s"
  shows "ok sane (onTcpConnected C ch local peer s)"
proof -
  have "s_state s = Connecting \<Longrightarrow> \<not> s_controlEncrypted s" using assms(2) by (simp add: sane_def)
  then show ?thesis
    using assms(2) by (auto simp: onTcpConnected_def sane_good
        intro!: ok_good_sane [OF beginAuthChain_good [OF assms(1), of "s_rxBuf s"]])
qed

lemma submitPin_good:
  assumes "crypto_ok C" and g: "good B s"
  shows "ok (good B) (submitPin C code s)"
proof (cases "s_waitingForPin s")
  case True
  then obtain a where a: "s_ap2 s = Some a" using g by (auto simp: good_def sane_def)
  have "good B (s\<lparr>s_waitingForPin := False\<rparr>)" using g by (simp add: sane_defs)
  then have "ok (good B) (sendPairSetupM3 C code (arm s_timeout_update (disarm s_pinTimeout_update (s\<lparr>s_waitingForPin := False\<rparr>))))"
    using a by (intro sendPairSetupM3_good [OF assms(1), where a = a]) (simp, simp add: arm_def disarm_def)
  with True show ?thesis by (simp add: submitPin_def run_simps)
qed (simp add: submitPin_def g)

text \<open>A new session starts from nothing, whatever the last one left behind.\<close>

lemma reset_session_sane:
  assumes "sane s" and "s_state s = Idle"
  shows "sane (reset_session s)" "s_controlEncrypted (reset_session s) = False" "s_pairStage (reset_session s) = PS_None"
  using assms by (auto simp: reset_session_def sane_defs resampler_ok_def backlog_lengths intro!: backlog_empty)

lemma stop_unfold:
  "stop C s =
     (if s_state s = Idle then Inr s
      else case (if s_rtspConnected s \<and> (s_rtspSession s \<noteq> [] \<or> s_airplay2 s)
          then sendRequest C ''TEARDOWN'' (rtspUri s) [] [] (session_extra s) (stopTimers s) else Inr (stopTimers s)) of
        Inl e \<Rightarrow> Inl e
      | Inr t \<Rightarrow> Inr (clear_backlog (releaseSockets ((emit (TcpClose TcpControl True) (t\<lparr>s_state := Idle\<rparr>))
          \<lparr>s_rtspConnected := False\<rparr>))))"
  by (simp add: stop_def run.simps upd_def io_def stopTimers_def disarm_def rtspUri_def session_extra_def split: sum.split)

lemma ended_idle [simp]: "s_state (clear_backlog s) = s_state s" "s_state (releaseSockets s) = s_state s"
  by (simp_all add: clear_backlog_def releaseSockets_def Let_def emit_def)

lemma stop_idle: "stop C s = Inr t \<Longrightarrow> s_state t = Idle"
  by (auto simp: stop_unfold split: if_splits sum.splits)

lemma fresh_ids_sane [simp]: "sane (fresh_ids C s) = sane s" "s_state (fresh_ids C s) = s_state s"
  by (simp_all add: fresh_ids_def rand32_def rand64_def rand16_def draw_def Let_def sane_defs)

lemma start_sane:
  assumes "crypto_ok C" and "sane s"
  shows "ok sane (start C host port name tp cp ap s)"
proof (cases "stop C s")
  case (Inl e)
  have "ok sane (stop C s)" using assms by (intro ok_good_sane [OF stop_good [of C "s_rxBuf s"]] sane_good)
  with Inl show ?thesis by (simp add: start_def run.simps)
next
  case (Inr t)
  have "ok sane (stop C s)" using assms by (intro ok_good_sane [OF stop_good [of C "s_rxBuf s"]] sane_good)
  with Inr have t: "sane t" "s_state t = Idle" by (auto intro: stop_idle)
  define u where "u = reset_session (fresh_ids C (t\<lparr>s_host := host, s_name := name, s_hostIp := [], s_localIp := []\<rparr>))"
  have "sane (t\<lparr>s_host := host, s_name := name, s_hostIp := [], s_localIp := []\<rparr>)" using t by (simp add: sane_defs)
  then have u: "sane u" "\<not> s_controlEncrypted u" "s_pairStage u = PS_None"
    using reset_session_sane t(2) by (simp_all add: u_def)
  have bound: "sane ((emit (UdpBind UdpAudio) (emit (UdpBind UdpControl) (emit (UdpBind UdpTiming) u)))
      \<lparr>s_localTimingPort := tp, s_localControlPort := cp, s_udpBound := True\<rparr>)" (is "sane ?v")
    using u(1) by (simp add: sane_defs emit_def)
  have "sane (?v\<lparr>s_state := Connecting, s_rtspConnected := False\<rparr>)"
    using u by (simp add: sane_defs emit_def stage_ok_def)
  with bound have "sane (releaseSockets ?v)" "sane (arm s_timeout_update (?v\<lparr>s_state := Connecting, s_rtspConnected := False\<rparr>))"
    using good_sane sane_good releaseSockets_good good_arm(1) by blast+
  with Inr show ?thesis by (simp add: start_def run.simps(2) [of "stop C"] run_simps u_def [symmetric])
qed

lemma unconnected_sane [simp]: "sane (s\<lparr>s_rtspConnected := c\<rparr>) = sane s"
  by (simp add: sane_defs)

lemma good_sane_ops [simp]:
  "sane (releaseSockets s) = sane s" "sane (stopTimers s) = sane s" "sane (retransmit_one from sq s) = sane s"
  "sane (onTimingDatagram dg from s) = sane s" "sane (sendSyncPacket first s) = sane s"

  by (simp_all add: sane_defs releaseSockets_def stopTimers_def retransmit_one_def onTimingDatagram_def
      sendSyncPacket_def disarm_def emit_def Let_def)

lemma idle_sane: "sane s \<Longrightarrow> sane (s\<lparr>s_state := Idle\<rparr>)"
  using idle_good sane_good good_sane by blast

lemma clear_backlog_sane: "sane s \<Longrightarrow> sane (clear_backlog s)"
  using clear_backlog_good sane_good good_sane by blast

lemma onTcpConnectFailed_sane: "sane s \<Longrightarrow> sane (onTcpConnectFailed ch reason s)"
  by (simp add: onTcpConnectFailed_def fail_sane)

lemma onTcpClosed_sane: "sane s \<Longrightarrow> sane (onTcpClosed ch reason s)"
  by (simp add: onTcpClosed_def Let_def fail_sane clear_backlog_sane idle_sane)

lemma onUdpDatagram_sane: "sane s \<Longrightarrow> sane (onUdpDatagram u bytes from s)"
  using onControlDatagram_good [of "s_rxBuf s" s bytes "from"]
  by (auto simp: onUdpDatagram_def sane_good dest: good_sane split: RaopUdp.split)

lemma onTcpData_sane: "crypto_ok C \<Longrightarrow> sane s \<Longrightarrow> ok sane (onTcpData C ch bytes s)"
  by (simp add: onTcpData_def onRtspReadyRead_sane onEventReadyRead_sane)

lemma onHandshakeTimeout_sane: "sane s \<Longrightarrow> sane (onHandshakeTimeout s)"
  by (simp add: onHandshakeTimeout_def fail_sane)

lemma onPinTimeout_sane: "sane s \<Longrightarrow> sane (onPinTimeout s)"
  by (auto simp: onPinTimeout_def Let_def intro!: fail_sane) (simp add: sane_defs)

lemma onFeedbackTimer_good: "crypto_ok C \<Longrightarrow> good B s \<Longrightarrow> ok (good B) (onFeedbackTimer C s)"
  by (auto simp: onFeedbackTimer_def Let_def upd_def sendRequest_good queue_good cseq_good writeRtsp_good intro!: ok_run)

lemma if_due_sane:
  assumes "\<And>s. sane s \<Longrightarrow> ok sane (handler s)" and "\<And>f s. sane (field f s) = sane s" and "sane s"
  shows "ok sane (if_due now get field handler s)"
  using assms by (simp add: if_due_def Let_def)

lemma timer_fields_sane [simp]:
  "sane (s_timeout_update f s) = sane s" "sane (s_pinTimeout_update f s) = sane s"
  "sane (s_feedbackTimer_update f s) = sane s" "sane (s_syncTimer_update f s) = sane s" "sane (s_pacer_update f s) = sane s"
  by (simp_all add: sane_defs)

lemma good_handler_sane: "(\<And>B s. good B s \<Longrightarrow> ok (good B) (f s)) \<Longrightarrow> sane s \<Longrightarrow> ok sane (f s)"
  by (meson ok_good_sane sane_good)

lemma tick_sane:
  assumes "crypto_ok C" and "sane s"
  shows "ok sane (tick C s)"
  unfolding tick_def Let_def
  by (rule ok_run [where P = sane, OF assms(2)])
    (auto simp: upd_def onHandshakeTimeout_sane onPinTimeout_sane intro!: if_due_sane intro:
      good_handler_sane [OF onFeedbackTimer_good [OF assms(1)]] good_handler_sane [OF onPacerTick_good])

section \<open>Every call\<close>

lemma setters_sane:
  "sane s \<Longrightarrow> sane (setInputFormat r s)"
  "sane s \<Longrightarrow> (case ring of None \<Rightarrow> True | Some q \<Rightarrow> ring_inv q) \<Longrightarrow> sane (attachRing ring s)"
  "sane s \<Longrightarrow> \<not> (m = Auth_AuthSetup \<and> ap2) \<Longrightarrow> sane (setAuth m ap2 d cj p s)"
  "sane s \<Longrightarrow> sane (setIdentity i s)"
  "sane s \<Longrightarrow> sane (setStrictReceiverAuth b s)"
  "sane s \<Longrightarrow> sane (s\<lparr>s_now := now, s_wall := wall\<rparr>)"
  by (auto simp: setInputFormat_def attachRing_def setAuth_def setIdentity_def setStrictReceiverAuth_def
      sane_defs resampler_ok_def split: option.splits)

lemma apply_call_sane:
  assumes "crypto_ok C" and "sane s" and "call_ok c s"
  shows "ok sane (apply_call C c s)"
  using assms
  by (auto simp: apply_call_def call_ok_def setters_sane start_sane onTcpConnected_sane onTcpConnectFailed_sane
      onTcpData_sane onTcpClosed_sane onUdpDatagram_sane tick_sane
      intro: good_handler_sane [OF stop_good] good_handler_sane [OF submitPin_good] good_handler_sane [OF setVolume_good]
        good_handler_sane [OF setNowPlaying_good] split: call.splits option.splits)

lemma new_sender_sane: "sane (new_sender now wall)"
  by (simp add: new_sender_def sane_defs resampler_ok_def stage_ok_def backlog_empty)

lemma reachable_sane: "sender_reachable C s \<Longrightarrow> crypto_ok C \<Longrightarrow> sane s"
proof (induction rule: sender_reachable.induct)
  case (new now wall)
  show ?case by (rule new_sender_sane)
next
  case (step s c s')
  then show ?case using apply_call_sane [of C s c] by simp
qed

section \<open>The properties\<close>





end
