(* ===== verification/Sender_Packets.thy ===== *)
theory Sender_Packets
  imports Sender_Safety
begin

text \<open>
  What a streaming session puts on the wire over UDP: the run of audio packets one pacer tick
  sends, and the answers to retransmit requests.
\<close>

section \<open>One packet\<close>

definition audio_ap2 :: "sender \<Rightarrow> RaopAp2State option" where
  "audio_ap2 s = (case s_ap2 s of None \<Rightarrow> None
     | Some a \<Rightarrow> Some (if a_encryptAudio a then a\<lparr>a_audioNonce := a_audioNonce a + 1\<rparr> else a))"

text \<open>The nonce counter of the next packet, when audio is encrypted.\<close>

definition audio_nonce :: "sender \<Rightarrow> 64 word option" where
  "audio_nonce s = (case s_ap2 s of None \<Rightarrow> None | Some a \<Rightarrow> if a_encryptAudio a then Some (a_audioNonce a) else None)"

definition packet_ok :: "sender \<Rightarrow> string \<Rightarrow> bool" where
  "packet_ok s pkt \<longleftrightarrow>
     take 12 pkt = rtp_header (s_firstAudio s) (s_seq s) (s_rtptime32 s) (s_sessionId s)
     \<and> (case audio_nonce s of
          None \<Rightarrow> length pkt = 12 + 1408
        | Some n \<Rightarrow> length pkt = 12 + 1412 + 16 + 8 \<and> drop (12 + 1412 + 16) pkt = toStr (counterNonce8 n))"

lemma length_l16_payload: "length (l16_payload xs) = 2 * length xs"
  by (induction xs) (simp_all add: l16_payload_def)

lemma encryptAudioPayload_exact:
  assumes "crypto_ok C" and "sane s"
  shows "\<exists>w. encryptAudioPayload C h p s = Inr (w, s\<lparr>s_ap2 := audio_ap2 s\<rparr>)
    \<and> (case audio_nonce s of None \<Rightarrow> w = p
       | Some n \<Rightarrow> length w = length p + 24 \<and> drop (length p + 16) w = toStr (counterNonce8 n))"
proof (cases "s_ap2 s")
  case None
  then show ?thesis by (simp add: encryptAudioPayload_def audio_ap2_def audio_nonce_def)
next
  case (Some a)
  show ?thesis
  proof (cases "a_encryptAudio a")
    case False
    with Some show ?thesis by (simp add: encryptAudioPayload_def audio_ap2_def audio_nonce_def)
  next
    case True
    with Some assms(2) have "length (a_audioKey a) = 32" by (simp add: sane_def ap2_ok_def)
    with Some True show ?thesis
      using crypto_ok_simps(1,2) [OF assms(1)]
      by (simp add: encryptAudioPayload_def audio_ap2_def audio_nonce_def Let_def chacha20Poly1305Encrypt_def
          case_prod_beta counterNonce8_def)
  qed
qed

lemma audio_encrypted_nonce: "audio_encrypted s = (audio_nonce s \<noteq> None)"
  by (simp add: audio_encrypted_def audio_nonce_def split: option.split)

lemma sendAudioPacket_exact:
  assumes "crypto_ok C" and "sane s"
  shows "\<exists>pkt rs ps ns. packet_ok s pkt \<and> sendAudioPacket C s = Inr (s\<lparr>s_rs := rs, s_ap2 := audio_ap2 s,
      s_out := s_out s @ [UdpSend UdpAudio \<lparr>ep_ip = s_hostIp s, ep_port = s_serverPort s\<rparr> pkt],
      s_backlog := ps, s_backlogSeq := ns, s_firstAudio := False,
      s_seq := s_seq s + 1, s_framesSent := s_framesSent s + 352\<rparr>)"
proof -
  have "resampler_ok (s_rs s)" using assms(2) by (simp add: sane_def)
  then obtain frames rs where f: "fillFrames (s_rs s) kFramesPerPacket = Some (frames, rs)"
      "length frames = 704" "resampler_ok rs"
    using fillFrames_total [of "s_rs s" kFramesPerPacket] by (auto simp: kFramesPerPacket_def kChannels_def)
  let ?s = "s\<lparr>s_rs := rs\<rparr>"
  have inv: "sane ?s" using assms(2) f(3) by (simp add: sane_defs)
  define h where "h = rtp_header (s_firstAudio s) (s_seq s) (s_rtptime32 s) (s_sessionId s)"
  define p where "p = (if audio_encrypted ?s then encodeAlacFrame frames else l16_payload frames)"
  have same: "audio_nonce ?s = audio_nonce s" "audio_ap2 ?s = audio_ap2 s" "s_rtptime32 ?s = s_rtptime32 s"
    by (simp_all add: audio_nonce_def audio_ap2_def s_rtptime32_def)
  obtain w where w: "encryptAudioPayload C h p ?s = Inr (w, ?s\<lparr>s_ap2 := audio_ap2 s\<rparr>)"
      "case audio_nonce s of None \<Rightarrow> w = p
       | Some n \<Rightarrow> length w = length p + 24 \<and> drop (length p + 16) w = toStr (counterNonce8 n)"
    using encryptAudioPayload_exact [OF assms(1) inv, of h p] by (auto simp: same)
  have "length p = (if audio_nonce s = None then 1408 else 1412)"
    using f(2) by (simp add: p_def audio_encrypted_nonce same length_l16_payload length_encodeAlacFrame)
  moreover have "length h = 12" by (simp add: h_def length_rtp_header)
  ultimately have "packet_ok s (h @ w)"
    using w(2) by (auto simp: packet_ok_def h_def split: option.splits)
  moreover have "sendAudioPacket C s = Inr (s\<lparr>s_rs := rs, s_ap2 := audio_ap2 s,
      s_out := s_out s @ [UdpSend UdpAudio \<lparr>ep_ip = s_hostIp s, ep_port = s_serverPort s\<rparr> (h @ w)],
      s_backlog := (s_backlog s)[unat (s_seq s AND 0x3FF) := h @ w],
      s_backlogSeq := (s_backlogSeq s)[unat (s_seq s AND 0x3FF) := uint (s_seq s)], s_firstAudio := False,
      s_seq := s_seq s + 1, s_framesSent := s_framesSent s + 352\<rparr>)"
    using f(1) w(1)
    by (simp add: sendAudioPacket_def Let_def p_def [symmetric] h_def [symmetric] same kFramesPerPacket_def emit_def)
  ultimately show ?thesis by blast
qed

section \<open>One tick of the pacer\<close>

text \<open>The session after \<open>i\<close> more packets, as far as the packets look at it.\<close>

definition after_packets :: "nat \<Rightarrow> sender \<Rightarrow> sender" where
  "after_packets i s = s\<lparr>s_firstAudio := s_firstAudio s \<and> i = 0, s_seq := s_seq s + of_nat i,
     s_framesSent := s_framesSent s + 352 * of_nat i,
     s_ap2 := map_option (\<lambda>a. if a_encryptAudio a then a\<lparr>a_audioNonce := a_audioNonce a + of_nat i\<rparr> else a) (s_ap2 s)\<rparr>"

lemma packet_ok_cong:
  "s_firstAudio s = s_firstAudio t \<Longrightarrow> s_seq s = s_seq t \<Longrightarrow> s_framesSent s = s_framesSent t \<Longrightarrow>
   s_sessionId s = s_sessionId t \<Longrightarrow> s_ap2 s = s_ap2 t \<Longrightarrow> packet_ok s p = packet_ok t p"
  by (simp add: packet_ok_def audio_nonce_def s_rtptime32_def)

lemma packet_ok_after_0: "packet_ok (after_packets 0 s) p = packet_ok s p"
  by (rule packet_ok_cong) (simp_all add: after_packets_def option.map_ident cong: if_cong option.map_cong)

lemma packet_ok_after_Suc:
  assumes "s_firstAudio t = False" and "s_seq t = s_seq s + 1" and "s_framesSent t = s_framesSent s + 352"
    and "s_sessionId t = s_sessionId s" and "s_ap2 t = audio_ap2 s"
  shows "packet_ok (after_packets i t) p = packet_ok (after_packets (Suc i) s) p"
  by (rule packet_ok_cong)
    (use assms in \<open>simp_all add: after_packets_def audio_ap2_def algebra_simps split: option.split\<close>)

lemma due_step:
  assumes "unat f \<le> unat target" and "unat target < 2 ^ 64 - 352"
  shows "f + 352 \<le> (target :: 64 word) \<longleftrightarrow> 352 \<le> unat target - unat f"
    and "unat (f + 352) = unat f + 352"
proof -
  have "unat f + 352 < 2 ^ 64" using assms by simp
  then show "unat (f + 352) = unat f + 352"
    by (subst unat_word_ariths(1)) simp
  then show "f + 352 \<le> target \<longleftrightarrow> 352 \<le> unat target - unat f"
    using assms(1) by (auto simp: word_le_nat_alt)
qed

lemma pacer_loop_exact:
  assumes "crypto_ok C"
  shows "sane s \<Longrightarrow> unat (s_framesSent s) \<le> unat target \<Longrightarrow> unat target < 2 ^ 64 - 352 \<Longrightarrow>
    \<exists>pkts s'. pacer_loop C target k s = Inr s'
      \<and> length pkts = min k ((unat target - unat (s_framesSent s)) div 352)
      \<and> s_out s' = s_out s @ map (UdpSend UdpAudio \<lparr>ep_ip = s_hostIp s, ep_port = s_serverPort s\<rparr>) pkts
      \<and> unat (s_framesSent s') = unat (s_framesSent s) + 352 * length pkts
      \<and> (\<forall>i < length pkts. packet_ok (after_packets i s) (pkts ! i))"
proof (induction k arbitrary: s)
  case 0
  then show ?case by simp
next
  case (Suc k)
  note step = due_step [OF Suc.prems(2,3)]
  show ?case
  proof (cases "352 \<le> unat target - unat (s_framesSent s)")
    case False
    with step show ?thesis by (intro exI [of _ "[]"]) (simp add: kFramesPerPacket_def)
  next
    case True
    obtain pkt rs ps ns where p: "packet_ok s pkt" "sendAudioPacket C s = Inr (s\<lparr>s_rs := rs, s_ap2 := audio_ap2 s,
      s_out := s_out s @ [UdpSend UdpAudio \<lparr>ep_ip = s_hostIp s, ep_port = s_serverPort s\<rparr> pkt],
      s_backlog := ps, s_backlogSeq := ns, s_firstAudio := False,
      s_seq := s_seq s + 1, s_framesSent := s_framesSent s + 352\<rparr>)" (is "_ = Inr ?t")
      using sendAudioPacket_exact [OF assms Suc.prems(1)] by blast
    have "ok sane (sendAudioPacket C s)"
      using sendAudioPacket_good [of "s_rxBuf s" s C] Suc.prems(1) by (simp add: ok_good_sane sane_good)
    with p(2) have "sane ?t" by simp
    have room: "unat (s_framesSent ?t) \<le> unat target" using step(2) True Suc.prems(2) by simp
    obtain pkts s' where ih: "pacer_loop C target k ?t = Inr s'"
        "length pkts = min k ((unat target - unat (s_framesSent ?t)) div 352)"
        "s_out s' = s_out ?t @ map (UdpSend UdpAudio \<lparr>ep_ip = s_hostIp s, ep_port = s_serverPort s\<rparr>) pkts"
        "unat (s_framesSent s') = unat (s_framesSent ?t) + 352 * length pkts"
        "\<forall>i < length pkts. packet_ok (after_packets i ?t) (pkts ! i)"
      using Suc.IH [OF \<open>sane ?t\<close> room Suc.prems(3)] by auto
    have "packet_ok (after_packets i s) ((pkt # pkts) ! i)" if "i < length (pkt # pkts)" for i
    proof (cases i)
      case 0
      with p(1) show ?thesis by (simp add: packet_ok_after_0)
    next
      case (Suc j)
      with that ih(5) packet_ok_after_Suc [of ?t s j "pkts ! j"] show ?thesis by simp
    qed
    moreover have "length (pkt # pkts) = min (Suc k) ((unat target - unat (s_framesSent s)) div 352)"
    proof -
      have "(unat target - unat (s_framesSent s)) div 352 = Suc ((unat target - unat (s_framesSent ?t)) div 352)"
        using step(2) True by (simp add: le_div_geq)
      with ih(2) show ?thesis by simp
    qed
    ultimately show ?thesis
      using ih(1,3,4) p(2) True step
      by (intro exI [of _ "pkt # pkts"] exI [of _ s']) (simp add: kFramesPerPacket_def)
  qed
qed

lemma after_packets_header:
  "packet_ok (after_packets i s) pkt \<longleftrightarrow>
     take 12 pkt = rtp_header (s_firstAudio s \<and> i = 0) (s_seq s + of_nat i) (rtptime32 (s_framesSent s + 352 * of_nat i)) (s_sessionId s)
     \<and> (case audio_nonce s of
          None \<Rightarrow> length pkt = 1420
        | Some n \<Rightarrow> length pkt = 1448 \<and> drop 1440 pkt = toStr (counterNonce8 (n + of_nat i)))"
  by (auto simp: packet_ok_def after_packets_def audio_nonce_def s_rtptime32_def split: option.split)

lemma all_below: "(\<forall>i < n. P i) \<longleftrightarrow> list_all P [0..<n]"
  by (auto simp: list_all_iff)

text \<open>
  C12. One tick of the pacer sends exactly the packets that are due, but at most 16: their
  number is what separates the frames sent from the clock's target, in packets of 352 frames.
  They are consecutive: sequence numbers go up by one, timestamps by 352, only the very first
  carries the marker, and with encryption every packet ends in a nonce of its own, counted
  up from the session's.
\<close>

theorem pacer_tick_packets:
  assumes "crypto_ok C" and "sender_reachable C s"
    and "target = pacer_target (word_of_int (s_now s - s_clockStart s))"
    and "unat (s_framesSent s) \<le> unat target" and "unat target < 2 ^ 64 - 352"
  shows "\<exists>pkts s'. onPacerTick C s = Inr s'
    \<and> length pkts = min 16 ((unat target - unat (s_framesSent s)) div 352)
    \<and> s_out s' = s_out s @ map (UdpSend UdpAudio \<lparr>ep_ip = s_hostIp s, ep_port = s_serverPort s\<rparr>) pkts
    \<and> unat (s_framesSent s') = unat (s_framesSent s) + 352 * length pkts
    \<and> list_all (\<lambda>i. take 12 (pkts ! i) = rtp_header (s_firstAudio s \<and> i = 0) (s_seq s + of_nat i)
            (rtptime32 (s_framesSent s + 352 * of_nat i)) (s_sessionId s)
        \<and> (case audio_nonce s of
             None \<Rightarrow> length (pkts ! i) = 1420
           | Some n \<Rightarrow> length (pkts ! i) = 1448 \<and> drop 1440 (pkts ! i) = toStr (counterNonce8 (n + of_nat i))))
        [0..<length pkts]"
proof -
  have "sane s" using assms(1,2) by (rule reachable_sane [rotated])
  moreover have "onPacerTick C s = pacer_loop C target 16 s"
    by (simp only: onPacerTick_def Let_def assms(3) kMaxPacketsPerTick_def)
  moreover note pacer_loop_exact [OF assms(1) _ assms(4,5), of 16, unfolded after_packets_header all_below]
  ultimately show ?thesis by presburger
qed

theorem pacer_tick_packets_witness:
  "\<exists>pkts s'. onPacerTick demo_crypto (new_sender 16000000 0) = Inr s'
    \<and> length pkts = 2
    \<and> s_out s' = map (UdpSend UdpAudio \<lparr>ep_ip = [], ep_port = 0\<rparr>) pkts
    \<and> unat (s_framesSent s') = 352 * length pkts"
proof -
  have t: "pacer_target (word_of_int (s_now (new_sender 16000000 0) - s_clockStart (new_sender 16000000 0))) = 705"
    by code_simp
  have s: "s_framesSent (new_sender 16000000 0) = 0" "s_out (new_sender 16000000 0) = []"
    "s_hostIp (new_sender 16000000 0) = []" "s_serverPort (new_sender 16000000 0) = 0"
    by (simp_all add: new_sender_def)
  show ?thesis
    using pacer_tick_packets [of demo_crypto "new_sender 16000000 0" 705]
    by (simp only: t s sender_reachable.new demo_crypto_ok) auto
qed

section \<open>Retransmission\<close>

definition held :: "sender \<Rightarrow> 16 word \<Rightarrow> bool" where
  "held s q \<longleftrightarrow> s_backlogSeq s ! unat (q AND 0x3FF) = uint q"

text \<open>The sequence numbers a request names: a first number and a count, wrapping.\<close>

definition lost_seqs :: "bytes \<Rightarrow> 16 word list" where
  "lost_seqs dg = map (\<lambda>i. be_word16 (dg ! 4) (dg ! 5) + of_nat i) [0..<unat (be_word16 (dg ! 6) (dg ! 7))]"

lemma fold_retransmit:
  "s_out (fold (retransmit_one from) qs s) = s_out s @
     map (\<lambda>q. UdpSend UdpControl from (retransmit_reply q (s_backlog s ! unat (q AND 0x3FF)))) (filter (held s) qs)"
proof (induction qs arbitrary: s)
  case (Cons q qs)
  have "s_backlog (retransmit_one from q s) = s_backlog s" "held (retransmit_one from q s) = held s"
    by (auto simp: retransmit_one_def Let_def held_def fun_eq_iff)
  with Cons [of "retransmit_one from q s"] show ?case
    by (simp add: retransmit_one_def Let_def held_def emit_def)
qed simp

lemma distinct_lost_seqs: "distinct (lost_seqs dg)"
proof -
  let ?n = "unat (be_word16 (dg ! 6) (dg ! 7))"
  have "inj_on (\<lambda>i. b + of_nat i :: 16 word) {0..<?n}" for b
  proof (rule inj_onI)
    fix i j assume ij: "i \<in> {0..<?n}" "j \<in> {0..<?n}" and "b + of_nat i = b + (of_nat j :: 16 word)"
    then have e: "unat (of_nat i :: 16 word) = unat (of_nat j :: 16 word)" by simp
    have "i < 2 ^ LENGTH(16)" "j < 2 ^ LENGTH(16)"
      using ij unat_word_bound [of "be_word16 (dg ! 6) (dg ! 7)"] by auto
    moreover from e have "i mod 2 ^ LENGTH(16) = j mod 2 ^ LENGTH(16)" by (simp only: unat_of_nat)
    ultimately show "i = j" by (simp only: mod_less)
  qed
  then show ?thesis by (simp add: lost_seqs_def distinct_map)
qed

text \<open>Two packets in the backlog never share a slot, so a request is answered at most 1024 times.\<close>

lemma held_at_most: "distinct qs \<Longrightarrow> length (filter (held s) qs) \<le> 1024"
proof -
  assume d: "distinct qs"
  let ?slot = "\<lambda>q :: 16 word. unat (q AND 0x3FF)"
  have "inj_on ?slot (set (filter (held s) qs))"
    by (rule inj_onI) (simp add: held_def word_uint_eq_iff)
  then have "card (?slot ` set (filter (held s) qs)) = length (filter (held s) qs)"
    using d distinct_card [of "filter (held s) qs"] by (simp only: card_image distinct_filter)
  moreover have "?slot ` set (filter (held s) qs) \<subseteq> {0..<1024}"
    by (auto simp: backlog_slot)
  ultimately show ?thesis
    using card_mono [of "{0..<1024}" "?slot ` set (filter (held s) qs)"] by simp
qed

text \<open>
  C13. A retransmit request is answered with exactly the packets that are asked for and still
  kept, in the order of the request and to its source; each answer carries the packet that was
  sent under that sequence number, and one request gets at most 1024 answers.
\<close>

theorem retransmit_exact:
  assumes "crypto_ok C" and "sender_reachable C s" and "8 \<le> length dg" and "(dg ! 1) AND 0x7F = 0x55"
  shows "s_out (onControlDatagram dg peer s) = s_out s @
      map (\<lambda>q. UdpSend UdpControl peer (retransmit_reply q (s_backlog s ! unat (q AND 0x3FF))))
        (filter (held s) (lost_seqs dg))
    \<and> list_all (\<lambda>q. packet_seq (s_backlog s ! unat (q AND 0x3FF)) = q) (filter (held s) (lost_seqs dg))
    \<and> length (filter (held s) (lost_seqs dg)) \<le> 1024"
proof -
  have "backlog_ok (s_backlog s) (s_backlogSeq s)"
    using reachable_sane [OF assms(2,1)] by (simp add: sane_def)
  then have "slot_ok i (s_backlog s ! i) (s_backlogSeq s ! i)" if "i < 1024" for i
    using that by (simp add: backlog_ok_def kBacklogSize_def)
  then have kept: "slot_ok (unat (q AND 0x3FF)) (s_backlog s ! unat (q AND 0x3FF)) (s_backlogSeq s ! unat (q AND 0x3FF))"
    for q :: "16 word"
    by (simp add: backlog_slot)
  have "uint (q :: 16 word) \<noteq> - 1" for q
    using uint_ge_0 [of q] by linarith
  then have "packet_seq (s_backlog s ! unat (q AND 0x3FF)) = q" if "held s q" for q
    using that kept [of q] unfolding slot_ok_def held_def word_uint_eq_iff by auto
  moreover have "onControlDatagram dg peer s = fold (retransmit_one peer) (lost_seqs dg) s"
    using assms(3,4) by (simp add: onControlDatagram_def Let_def lost_seqs_def fold_map comp_def)
  ultimately show ?thesis
    by (simp add: fold_retransmit held_at_most distinct_lost_seqs list_all_iff)
qed

theorem retransmit_exact_witness:
  "s_out (onControlDatagram [0x80, 0xD5, 0, 1, 0, 7, 0, 2] \<lparr>ep_ip = ''10.0.0.2'', ep_port = 6001\<rparr> (new_sender 0 0)) = []"
proof -
  have "filter (held (new_sender 0 0)) (lost_seqs [0x80, 0xD5, 0, 1, 0, 7, 0, 2]) = []"
    by code_simp
  moreover have "(0xD5 :: byte) AND 0x7F = 0x55" by simp
  ultimately show ?thesis
    using retransmit_exact [of demo_crypto "new_sender 0 0" "[0x80, 0xD5, 0, 1, 0, 7, 0, 2]"
        "\<lparr>ep_ip = ''10.0.0.2'', ep_port = 6001\<rparr>"]
    by (simp add: sender_reachable.new) (simp add: new_sender_def)
qed

end
