(* ===== verification/Sender_Auth.thy ===== *)
theory Sender_Auth
  imports Sender_Safety
begin

text \<open>
  What strict receiver authentication promises (\<open>setStrictReceiverAuth(true)\<close>): at the two
  points where the receiver proves itself, in pair-setup and in pair-verify, the session either
  has the proof or ends without sending another byte.
\<close>

section \<open>Ending without traffic\<close>

definition is_traffic :: "action \<Rightarrow> bool" where
  "is_traffic act = (case act of
     TcpConnect _ _ _ \<Rightarrow> True | TcpSend _ _ \<Rightarrow> True | UdpBind _ \<Rightarrow> True | UdpSend _ _ _ \<Rightarrow> True
   | Ev_credentials _ _ \<Rightarrow> True | Ev_launched b _ \<Rightarrow> b | _ \<Rightarrow> False)"

definition silent_end :: "sender \<Rightarrow> sender \<Rightarrow> bool" where
  "silent_end s s' \<longleftrightarrow> s_state s' = Idle \<and> take (length (s_out s)) (s_out s') = s_out s
     \<and> list_all (\<lambda>x. \<not> is_traffic x) (drop (length (s_out s)) (s_out s'))"

lemma fail_silent [simp]: "silent_end s (fail why s)"
  by (auto simp: silent_end_def fail_def releaseSockets_def stopTimers_def disarm_def emit_def Let_def is_traffic_def)

lemma fail_silent_from:
  "s_out t = s_out s \<Longrightarrow> silent_end s (fail why t)"
  using fail_silent [of t why] by (simp add: silent_end_def)

lemma pairing_refused_silent:
  "s_pairStage s \<noteq> PS_SetupM2 \<Longrightarrow> s_pairStage s \<noteq> PS_PinStart \<Longrightarrow> pairing_refused C code s = Inr s' \<Longrightarrow> silent_end s s'"
  by (auto simp: pairing_refused_def split: if_splits)

lemmas at_stage = onPairingResponse_def

section \<open>Pair-setup\<close>

text \<open>
  C10. In strict mode the reply to the sender's SRP proof is the point of no return: unless it
  carries the accessory's own proof, equal to the hash only someone who knows the session key
  can compute, the session ends there: it is idle, nothing more is sent to the network and no
  success is reported.
\<close>

theorem strict_pair_setup:
  assumes "s_strictAuth s" and "s_state s = Pairing" and "s_pairStage s = PS_SetupM4"
    and "s_ap2 s = Some a" and "a_srp a = Some d"
    and "onPairingResponse C code body s = Inr s'"
  shows "silent_end s s' \<or> (srp_processed d
    \<and> tlv_get (tlv_decode (toBytes body)) (tlv_tag Proof) = Some (c_sha512 C (mpiToBytes (srp_A d) @ srp_M1 d @ srp_K d)))"
proof (cases "code < 200 \<or> 300 \<le> code")
  case True
  with assms have "pairing_refused C code s = Inr s'" by (simp add: onPairingResponse_def)
  with assms(3) show ?thesis using pairing_refused_silent by simp
next
  case False
  with assms have "handlePairSetupM4 C body s = Inr s'" by (simp add: onPairingResponse_def)
  with assms(1,4,5) show ?thesis
    by (auto simp: handlePairSetupM4_def server_proved_def Let_def verifyServerProof_eq split: option.splits if_splits)
qed

text \<open>A session waiting for the accessory's proof, and replies with the right and with no proof.\<close>

definition example_srp :: SrpClient where
  "example_srp = \<lparr>srp_a = 0, srp_A = 1, srp_B = 2, srp_salt = [1], srp_password = ''3939'',
     srp_K = replicate 64 5, srp_M1 = [6], srp_processed = True\<rparr>"

definition awaiting_proof :: sender where
  "awaiting_proof = (new_sender 0 0)\<lparr>s_strictAuth := True, s_state := Pairing, s_pairStage := PS_SetupM4,
     s_authMethod := Auth_HapTransient, s_airplay2 := True, s_ap2 := Some (fresh_ap2\<lparr>a_srp := Some example_srp\<rparr>)\<rparr>"

lemma tlv_decode_empty: "tlv_decode (toBytes []) = []"
  by code_simp

lemma no_proof_refused: "\<exists>s'. onPairingResponse C 200 [] awaiting_proof = Inr s'"
  by (simp add: awaiting_proof_def onPairingResponse_def handlePairSetupM4_def server_proved_def
      tlv_decode_empty)

theorem strict_pair_setup_witness:
  "\<exists>s'. onPairingResponse demo_crypto 200 [] awaiting_proof = Inr s' \<and>
    (silent_end awaiting_proof s' \<or> (srp_processed example_srp
      \<and> tlv_get (tlv_decode (toBytes [])) (tlv_tag Proof)
          = Some (c_sha512 demo_crypto (mpiToBytes (srp_A example_srp) @ srp_M1 example_srp @ srp_K example_srp))))"
proof -
  obtain s' where s': "onPairingResponse demo_crypto 200 [] awaiting_proof = Inr s'"
    using no_proof_refused by blast
  show ?thesis
    using strict_pair_setup [OF _ _ _ _ _ s', of "fresh_ap2\<lparr>a_srp := Some example_srp\<rparr>" example_srp] s'
    by (simp add: awaiting_proof_def)
qed

text \<open>
  With the right proof the session goes on, in strict mode too: the control keys are derived
  from the shared key and the set-up begins.
\<close>

lemma strict_pair_setup_goes_on:
  assumes "s_state s = Pairing" and "s_pairStage s = PS_SetupM4" and "s_authMethod s = Auth_HapTransient"
    and "s_ap2 s = Some a" and "a_srp a = Some d" and "srp_processed d"
    and "body = toStr (tlv_encode [(tlv_tag State, [4]), (tlv_tag Proof, c_sha512 C (mpiToBytes (srp_A d) @ srp_M1 d @ srp_K d))])"
  shows "onPairingResponse C 200 body s
    = afterAuthOk C (s\<lparr>s_ap2 := Some (control_keys C (a\<lparr>a_sharedSecret := srp_K d\<rparr>)), s_pairStage := PS_Done\<rparr>)"
  using assms
  by (simp add: onPairingResponse_def handlePairSetupM4_def tlv_decode_encode_distinct server_proved_def
      verifyServerProof_eq on_srp_def on_ap2_def)

section \<open>Pair-verify\<close>

text \<open>The accessory's message: its ephemeral key, and under encryption its identifier and signature.\<close>

definition verify_reply :: "crypto \<Rightarrow> RaopAp2State \<Rightarrow> string \<Rightarrow> (bytes \<times> bytes \<times> bytes) option" where
  "verify_reply C a body =
     (let m = tlv_decode (toBytes body)
      in case (tlv_get m (tlv_tag PublicKey), tlv_get m (tlv_tag EncryptedData)) of
           (Some pub, Some enc) \<Rightarrow>
             (let secret = x25519SharedSecret C (kp_priv (a_verifyKeys a)) pub;
                  key = c_hkdf C ''Pair-Verify-Encrypt-Salt'' ''Pair-Verify-Encrypt-Info'' secret 32
              in case chacha20Poly1305Decrypt C key (toBytes ''PV-Msg02'') enc [] of
                   None \<Rightarrow> None
                 | Some dec \<Rightarrow>
                   (let sub = tlv_decode dec
                    in case (tlv_get sub (tlv_tag Identifier), tlv_get sub (tlv_tag Signature)) of
                         (Some device, Some sig) \<Rightarrow> Some (pub, device, sig)
                       | _ \<Rightarrow> None))
         | _ \<Rightarrow> None)"

text \<open>
  C11. In strict mode pair-verify goes on only with a valid signature: unless the accessory's
  reply decrypts and carries an Ed25519 signature over both ephemeral keys and its identifier
  that verifies under the long-term key stored at pairing, the session ends there, idle and
  without another byte on the network.
\<close>

theorem strict_pair_verify:
  assumes "s_strictAuth s" and "s_state s = Pairing" and "s_pairStage s = PS_VerifyM2"
    and "s_ap2 s = Some a" and "onPairingResponse C code body s = Inr s'"
  shows "silent_end s s' \<or> (case verify_reply C a body of None \<Rightarrow> False
    | Some (pub, device, sig) \<Rightarrow>
        ed25519Verify C (a_accessoryLtpk a) (pub @ device @ kp_pub (a_verifyKeys a)) sig)"
proof (cases "code < 200 \<or> 300 \<le> code")
  case True
  with assms have "pairing_refused C code s = Inr s'" by (simp add: onPairingResponse_def)
  with assms(3) show ?thesis using pairing_refused_silent by simp
next
  case False
  with assms have r: "handlePairVerifyM2 C body s = Inr s'" by (simp add: onPairingResponse_def)
  have fail_end: "silent_end s (fail why (s\<lparr>s_ap2 := x\<rparr>))" for why x
    by (rule fail_silent_from) simp
  from r assms(1,4) show ?thesis
    by (auto simp: handlePairVerifyM2_def on_ap2_def Let_def accessory_verified_def verify_reply_def fail_end
        split: option.splits if_splits)
qed

definition awaiting_signature :: sender where
  "awaiting_signature = (new_sender 0 0)\<lparr>s_strictAuth := True, s_state := Pairing, s_pairStage := PS_VerifyM2,
     s_authMethod := Auth_HapPin, s_airplay2 := True,
     s_ap2 := Some (fresh_ap2\<lparr>a_ltSeed := replicate 32 4, a_accessoryLtpk := replicate 32 8,
       a_verifyKeys := x25519Generate demo_crypto (replicate 32 1)\<rparr>)\<rparr>"

lemma no_signature_refused: "\<exists>s'. onPairingResponse C 200 [] awaiting_signature = Inr s'"
  by (simp add: awaiting_signature_def onPairingResponse_def handlePairVerifyM2_def
      tlv_decode_empty)

theorem strict_pair_verify_witness:
  "\<exists>s'. onPairingResponse demo_crypto 200 [] awaiting_signature = Inr s' \<and>
    (silent_end awaiting_signature s' \<or> (case verify_reply demo_crypto (the (s_ap2 awaiting_signature)) [] of
        None \<Rightarrow> False
      | Some (pub, device, sig) \<Rightarrow> ed25519Verify demo_crypto (a_accessoryLtpk (the (s_ap2 awaiting_signature)))
          (pub @ device @ kp_pub (a_verifyKeys (the (s_ap2 awaiting_signature)))) sig))"
proof -
  obtain s' where s': "onPairingResponse demo_crypto 200 [] awaiting_signature = Inr s'"
    using no_signature_refused by blast
  show ?thesis
    using strict_pair_verify [OF _ _ _ _ s', of "the (s_ap2 awaiting_signature)"] s'
    by (simp add: awaiting_signature_def)
qed

end
