(* ===== verification/Sender_Watchdog.thy ===== *)
theory Sender_Watchdog
  imports Sender_Safety "HOL-Library.Sublist"
begin

text \<open>
  A session that is being set up never hangs: at every moment one of the two watchdogs is armed
  (the handshake timeout, or the PIN timeout while the user is asked for a PIN), and the tick
  that comes after its deadline ends the session and tells the application.
\<close>

section \<open>The invariant\<close>

definition starting :: "sender \<Rightarrow> bool" where
  "starting s \<longleftrightarrow> s_state s = Connecting \<or> s_state s = Pairing \<or> s_state s = Handshake"

definition armed_within :: "int \<Rightarrow> sender \<Rightarrow> timer \<Rightarrow> bool" where
  "armed_within d s t \<longleftrightarrow> t_active t \<and> t_due t \<le> s_now s + d"

text \<open>
  Carried along: a call neither moves the clock nor takes back an action. \<open>fr\<close> is the time of
  the call and the actions before it.
\<close>

definition watchdogs :: "int \<times> action list \<Rightarrow> sender \<Rightarrow> bool" where
  "watchdogs fr s \<longleftrightarrow> t_interval (s_timeout s) = ms kHandshakeTimeoutMs \<and> \<not> t_repeating (s_timeout s)
     \<and> t_interval (s_pinTimeout s) = ms kPinWaitTimeoutMs \<and> \<not> t_repeating (s_pinTimeout s)
     \<and> s_now s = fst fr \<and> prefix (snd fr) (s_out s)"

definition watched :: "int \<times> action list \<Rightarrow> sender \<Rightarrow> bool" where
  "watched fr s \<longleftrightarrow> watchdogs fr s \<and> (starting s \<longrightarrow>
     (if s_waitingForPin s then armed_within (ms kPinWaitTimeoutMs) s (s_pinTimeout s)
      else armed_within (ms kHandshakeTimeoutMs) s (s_timeout s)))"

text \<open>Partial correctness: a call that fails leaves no state to speak of.\<close>

definition pok :: "('a \<Rightarrow> bool) \<Rightarrow> 'a result \<Rightarrow> bool" where
  "pok P r = (case r of Inl e \<Rightarrow> True | Inr s \<Rightarrow> P s)"

lemma pok_simps [simp]: "pok P (Inr s) = P s" "pok P (Inl e)"
  by (simp_all add: pok_def)

lemma pok_case: "pok P r \<Longrightarrow> (\<And>s. P s \<Longrightarrow> pok Q (f s)) \<Longrightarrow> pok Q (case r of Inl e \<Rightarrow> Inl e | Inr s \<Rightarrow> f s)"
  by (cases r) auto

lemma pok_any: "(\<And>y. pok P (f y)) \<Longrightarrow> pok P (case r of Inl e \<Rightarrow> Inl (g e) | Inr y \<Rightarrow> f y)"
  by (cases r) auto

lemma pok_opt: "(\<And>y. pok P (f y)) \<Longrightarrow> pok P (case r of None \<Rightarrow> Inl e | Some y \<Rightarrow> f y)"
  by (cases r) auto

lemma pok_pair: "Q (snd p) \<Longrightarrow> (\<And>a b. Q b \<Longrightarrow> pok P (f a b)) \<Longrightarrow> pok P (case p of (a, b) \<Rightarrow> f a b)"
  by (cases p) auto

lemma pok_run: "P s \<Longrightarrow> list_all (\<lambda>f. \<forall>s. P s \<longrightarrow> pok P (f s)) fs \<Longrightarrow> pok P (run fs s)"
proof (induction fs arbitrary: s)
  case (Cons f fs)
  then have "pok P (f s)" by simp
  with Cons show ?case by (cases "f s") (auto simp: run.simps)
qed (simp add: run.simps)

text \<open>What the watchdogs look at.\<close>

definition same_watch :: "sender \<Rightarrow> sender \<Rightarrow> bool" where
  "same_watch s t \<longleftrightarrow> s_timeout t = s_timeout s \<and> s_pinTimeout t = s_pinTimeout s \<and> s_state t = s_state s
     \<and> s_waitingForPin t = s_waitingForPin s \<and> s_now t = s_now s \<and> s_out t = s_out s"

lemma watched_same: "same_watch s t \<Longrightarrow> watched fr t = watched fr s"
  by (simp add: same_watch_def watched_def watchdogs_def starting_def armed_within_def)

named_theorems watch_defs

lemmas [watch_defs] = watched_def watchdogs_def starting_def armed_within_def

lemma watched_fields [simp]:
  "watched fr (s_wall_update f1 s) = watched fr s" "watched fr (s_draws_update f2 s) = watched fr s"
  "watched fr (s_identity_update f4 s) = watched fr s" "watched fr (s_strictAuth_update f5 s) = watched fr s" "watched fr (s_rtspConnected_update f6 s) = watched fr s"
  "watched fr (s_udpBound_update f7 s) = watched fr s" "watched fr (s_localIp_update f8 s) = watched fr s" "watched fr (s_hostIp_update f9 s) = watched fr s"
  "watched fr (s_localControlPort_update f10 s) = watched fr s" "watched fr (s_localTimingPort_update f11 s) = watched fr s" "watched fr (s_rxBuf_update f12 s) = watched fr s"
  "watched fr (s_controlEncrypted_update f13 s) = watched fr s" "watched fr (s_ctrlSendCtr_update f14 s) = watched fr s" "watched fr (s_ctrlRecvCtr_update f15 s) = watched fr s"
  "watched fr (s_rtspEncBuf_update f16 s) = watched fr s" "watched fr (s_eventSendCtr_update f17 s) = watched fr s" "watched fr (s_eventRecvCtr_update f18 s) = watched fr s"
  "watched fr (s_eventEncBuf_update f19 s) = watched fr s" "watched fr (s_eventPlainBuf_update f20 s) = watched fr s" "watched fr (s_pendingMethods_update f21 s) = watched fr s"
  "watched fr (s_cseq_update f22 s) = watched fr s" "watched fr (s_sessionId_update f23 s) = watched fr s" "watched fr (s_dacpId_update f24 s) = watched fr s"
  "watched fr (s_activeRemote_update f25 s) = watched fr s" "watched fr (s_rtspSession_update f26 s) = watched fr s" "watched fr (s_host_update f27 s) = watched fr s"
  "watched fr (s_name_update f28 s) = watched fr s" "watched fr (s_serverPort_update f29 s) = watched fr s" "watched fr (s_controlPort_update f30 s) = watched fr s"
  "watched fr (s_timingPort_update f31 s) = watched fr s" "watched fr (s_pacer_update f32 s) = watched fr s" "watched fr (s_syncTimer_update f33 s) = watched fr s"
  "watched fr (s_feedbackTimer_update f34 s) = watched fr s" "watched fr (s_clockStart_update f35 s) = watched fr s" "watched fr (s_startTs_update f36 s) = watched fr s"
  "watched fr (s_framesSent_update f37 s) = watched fr s" "watched fr (s_seq_update f38 s) = watched fr s" "watched fr (s_firstAudio_update f39 s) = watched fr s"
  "watched fr (s_pendingVolumeDb_update f40 s) = watched fr s" "watched fr (s_rs_update f41 s) = watched fr s" "watched fr (s_backlog_update f42 s) = watched fr s"
  "watched fr (s_backlogSeq_update f43 s) = watched fr s" "watched fr (s_npTitle_update f44 s) = watched fr s" "watched fr (s_npArtist_update f45 s) = watched fr s"
  "watched fr (s_npAlbum_update f46 s) = watched fr s" "watched fr (s_npCover_update f47 s) = watched fr s" "watched fr (s_npCoverMime_update f48 s) = watched fr s"
  "watched fr (s_pairStage_update f49 s) = watched fr s" "watched fr (s_authMethod_update f50 s) = watched fr s" "watched fr (s_airplay2_update f51 s) = watched fr s"
  "watched fr (s_deviceId_update f52 s) = watched fr s" "watched fr (s_credsJson_update f53 s) = watched fr s" "watched fr (s_digestPassword_update f54 s) = watched fr s"
  "watched fr (s_triedTransientAfterPin403_update f55 s) = watched fr s" "watched fr (s_srpSalt_update f56 s) = watched fr s" "watched fr (s_srpServerB_update f57 s) = watched fr s"
  "watched fr (s_pairSetupSessionKey_update f58 s) = watched fr s" "watched fr (s_ap2_update f59 s) = watched fr s" "watched fr (s_pendingIsHttp_update f60 s) = watched fr s"
  "watched fr (s_digestRealm_update f61 s) = watched fr s" "watched fr (s_digestNonce_update f62 s) = watched fr s" "watched fr (s_pendingDigestMethod_update f63 s) = watched fr s"
  "watched fr (s_pendingDigestUri_update f64 s) = watched fr s" "watched fr (s_digestRetried_update f65 s) = watched fr s"
  by (simp_all add: watch_defs)

lemma watched_arm [simp]:
  "watched fr s \<Longrightarrow> watched fr (arm s_timeout_update s)"
  "watched fr (arm s_pacer_update s) = watched fr s" "watched fr (arm s_syncTimer_update s) = watched fr s"
  "watched fr (arm s_feedbackTimer_update s) = watched fr s" "watched fr (disarm s_feedbackTimer_update s) = watched fr s"
  "watched fr s \<Longrightarrow> watched fr (emit x s)"
  by (auto simp: arm_def disarm_def emit_def) (auto simp: watch_defs)

section \<open>Requests\<close>

lemma writeRtsp_watched: "watched fr s \<Longrightarrow> pok (watched fr) (writeRtsp C data s)"
  by (auto simp: writeRtsp_def io_def Let_def split: option.split sum.split prod.split)

lemma plumbing_watched [simp]: "watched fr (queue_method m h s) = watched fr s"
  by (simp add: queue_method_def)

lemma sendRequest_watched: "watched fr s \<Longrightarrow> pok (watched fr) (sendRequest C m u ct body extra s)"
  unfolding sendRequest_def Let_def
  by (rule pok_run) (simp_all add: upd_def writeRtsp_watched)

lemma httpPost_watched: "watched fr s \<Longrightarrow> pok (watched fr) (httpPost C u ct body s)"
  unfolding httpPost_def Let_def
  by (rule pok_run) (simp_all add: upd_def writeRtsp_watched)

lemma sendAp2Rtsp_watched: "watched fr s \<Longrightarrow> pok (watched fr) (sendAp2Rtsp C m u ct body s)"
  unfolding sendAp2Rtsp_def Let_def
  by (rule pok_run) (simp_all add: upd_def writeRtsp_watched)

lemma post_tlv_watched: "watched fr s \<Longrightarrow> pok (watched fr) (post_tlv C u m s)"
  by (simp add: post_tlv_def httpPost_watched)

lemmas requests_watched = sendRequest_watched httpPost_watched sendAp2Rtsp_watched post_tlv_watched

lemma fail_watched: "watchdogs fr s \<Longrightarrow> watched fr (fail why s)"
  by (auto simp: fail_def releaseSockets_def stopTimers_def disarm_def emit_def Let_def watch_defs)

lemma watched_watchdogs: "watched fr s \<Longrightarrow> watchdogs fr s"
  by (simp add: watched_def)

lemma fail_keeps_watch: "watched fr s \<Longrightarrow> watched fr (fail why s)"
  by (simp add: fail_watched watched_watchdogs)

section \<open>Streaming\<close>

lemma to_streaming_watched: "watched fr s \<Longrightarrow> watched fr (disarm s_timeout_update (s\<lparr>s_state := Streaming\<rparr>))"
  by (simp add: watch_defs disarm_def)

lemma sendSyncPacket_watched [simp]: "watched fr s \<Longrightarrow> watched fr (sendSyncPacket first s)"
  by (simp add: sendSyncPacket_def Let_def)

lemma sendVolume_watched: "watched fr s \<Longrightarrow> pok (watched fr) (sendVolume C s)"
  by (simp add: sendVolume_def requests_watched)

lemma sendMetadata_watched: "watched fr s \<Longrightarrow> pok (watched fr) (sendMetadata C s)"
  unfolding sendMetadata_def Let_def
  by (auto intro!: pok_run simp: requests_watched)

lemma startStreaming_watched: "watched fr s \<Longrightarrow> pok (watched fr) (startStreaming C s)"
  unfolding startStreaming_def
  by (rule pok_run) (simp_all add: upd_def io_def to_streaming_watched sendVolume_watched
      requests_watched sendMetadata_watched)

lemma sendAudioPacket_watched: "watched fr s \<Longrightarrow> pok (watched fr) (sendAudioPacket C s)"
  by (auto simp: sendAudioPacket_def encryptAudioPayload_def Let_def split: option.split sum.split prod.split)

lemma pacer_loop_watched: "watched fr s \<Longrightarrow> pok (watched fr) (pacer_loop C target k s)"
  by (induction k arbitrary: s) (auto intro!: pok_case intro: sendAudioPacket_watched)

section \<open>Authentication and set-up\<close>

lemma handshake_watched: "watched fr s \<Longrightarrow> starting s \<Longrightarrow> watched fr (s\<lparr>s_state := Handshake\<rparr>)"
  by (auto simp: watched_def watchdogs_def armed_within_def starting_def)

lemma sendOptions_watched: "watched fr s \<Longrightarrow> pok (watched fr) (sendOptions C s)"
  by (simp add: sendOptions_def requests_watched)

lemma classic_watched:
  "watched fr s \<Longrightarrow> pok (watched fr) (sendAnnounce C s)" "watched fr s \<Longrightarrow> pok (watched fr) (sendSetup C s)"
  "watched fr s \<Longrightarrow> pok (watched fr) (sendRecord C s)"
  by (simp_all add: sendAnnounce_def sendSetup_def sendRecord_def requests_watched)

lemma sendAp2Info_watched: "watched fr s \<Longrightarrow> pok (watched fr) (sendAp2Info C s)"
  by (simp add: sendAp2Info_def requests_watched)

lemma afterAuthOk_watched:
  assumes "watched fr s" and "starting s"
  shows "pok (watched fr) (afterAuthOk C s)"
proof -
  have "watched fr t \<Longrightarrow> starting t \<Longrightarrow> pok (watched fr) (sendOptions C (t\<lparr>s_state := Handshake\<rparr>))"
    "watched fr t \<Longrightarrow> starting t \<Longrightarrow> pok (watched fr) (sendAp2Info C (t\<lparr>s_state := Handshake\<rparr>))" for t
    by (simp_all add: handshake_watched sendOptions_watched sendAp2Info_watched)
  with assms show ?thesis by (simp add: afterAuthOk_def Let_def starting_def)
qed

lemma setup_watched:
  "watched fr s \<Longrightarrow> pok (watched fr) (sendAp2SetupSession C s)" "watched fr s \<Longrightarrow> pok (watched fr) (sendAp2Record C s)"
  "watched fr s \<Longrightarrow> pok (watched fr) (sendAp2SetupStream C s)" "watched fr s \<Longrightarrow> pok (watched fr) (handleAp2SetupSession C body s)"
  by (simp_all add: sendAp2SetupSession_def sendAp2Record_def sendAp2SetupStream_def handleAp2SetupSession_def
      on_ap2_def Let_def requests_watched split: option.split)

lemma handleAp2SetupStream_watched: "watched fr s \<Longrightarrow> pok (watched fr) (handleAp2SetupStream C body s)"
  by (auto simp: handleAp2SetupStream_def Let_def fail_keeps_watch intro!: startStreaming_watched split: prod.split)

lemma pair_requests_watched:
  "watched fr s \<Longrightarrow> pok (watched fr) (sendAuthSetup C s)" "watched fr s \<Longrightarrow> pok (watched fr) (sendPairPinStart C s)"
  "watched fr s \<Longrightarrow> pok (watched fr) (sendPairSetupM1 C s)" "watched fr s \<Longrightarrow> pok (watched fr) (sendPairVerifyM1 C s)"
  by (simp_all add: sendAuthSetup_def sendPairPinStart_def sendPairSetupM1_def sendPairVerifyM1_def on_ap2_def
      draw_def Let_def requests_watched split: option.split)

lemma sendPairSetupM3_watched: "watched fr s \<Longrightarrow> pok (watched fr) (sendPairSetupM3 C pin s)"
  by (auto simp: sendPairSetupM3_def on_ap2_def draw_def Let_def intro!: requests_watched fail_keeps_watch
      split: option.split sum.split)

lemma pin_wait_watched:
  "watchdogs fr s \<Longrightarrow> watched fr (arm s_pinTimeout_update (disarm s_timeout_update (s\<lparr>s_waitingForPin := True\<rparr>)))"
  by (simp add: watch_defs arm_def disarm_def)

lemma handlePairSetupM2_watched: "watched fr s \<Longrightarrow> pok (watched fr) (handlePairSetupM2 C body s)"
  using pin_wait_watched [of fr "s\<lparr>s_srpSalt := x, s_srpServerB := y\<rparr>" for x y]
  by (auto simp: handlePairSetupM2_def Let_def run_simps fail_keeps_watch watched_watchdogs
      intro!: sendPairSetupM3_watched split: option.split)

lemma draw_watched [simp]: "watched fr (snd (draw C n s)) = watched fr s"
  by (simp add: draw_def)

lemma sendPairSetupM5_watched: "watched fr s \<Longrightarrow> pok (watched fr) (sendPairSetupM5 C s)"
  unfolding sendPairSetupM5_def on_ap2_def Let_def
  by (intro pok_opt pok_any pok_pair [where Q = "watched fr"]) (simp_all add: case_prod_beta requests_watched)

lemma handlePairSetupM4_watched: "watched fr s \<Longrightarrow> starting s \<Longrightarrow> pok (watched fr) (handlePairSetupM4 C body s)"
  by (auto simp: handlePairSetupM4_def on_srp_def on_ap2_def Let_def fail_keeps_watch sendPairSetupM5_watched
      intro!: afterAuthOk_watched split: option.split sum.split) (simp_all add: starting_def)

lemma handlePairSetupM6_watched: "watched fr s \<Longrightarrow> pok (watched fr) (handlePairSetupM6 C body s)"
  by (auto simp: handlePairSetupM6_def on_ap2_def Let_def fail_keeps_watch run_simps
      intro!: pair_requests_watched split: option.split)

lemma handlePairVerifyM2_watched: "watched fr s \<Longrightarrow> pok (watched fr) (handlePairVerifyM2 C body s)"
  by (auto simp: handlePairVerifyM2_def sendPairVerifyM3_def on_ap2_def Let_def fail_keeps_watch requests_watched
      split: option.split sum.split)

section \<open>Dispatch\<close>

lemma renew_ap2_watched [simp]: "watched fr (renew_ap2 C s) = watched fr s" "starting (renew_ap2 C s) = starting s"
  by (simp_all add: renew_ap2_def draw_uuid_def draw_def Let_def starting_def)

lemma pairing_watched: "watched fr s \<Longrightarrow> starting s \<Longrightarrow> watched fr (s\<lparr>s_state := Pairing\<rparr>)"
  by (auto simp: watched_def watchdogs_def armed_within_def starting_def)

lemma beginHapPin_watched: "watched fr s \<Longrightarrow> pok (watched fr) (beginHapPin C s)"
  by (auto simp: beginHapPin_def on_ap2_def Let_def pair_requests_watched intro!: pok_any split: option.split)

lemma beginAuthChain_watched: "watched fr s \<Longrightarrow> starting s \<Longrightarrow> pok (watched fr) (beginAuthChain C s)"
  by (simp add: beginAuthChain_def Let_def pairing_watched handshake_watched sendOptions_watched pair_requests_watched
      fail_keeps_watch beginHapPin_watched split: auth.split)

lemma pairing_refused_watched: "watched fr s \<Longrightarrow> pok (watched fr) (pairing_refused C code s)"
  by (simp add: pairing_refused_def pair_requests_watched fail_keeps_watch)

lemma onPairingResponse_watched:
  assumes "watched fr s"
  shows "pok (watched fr) (onPairingResponse C code body s)"
proof (cases "s_state s = Idle \<or> s_state s = Streaming")
  case True
  with assms show ?thesis by (auto simp: onPairingResponse_def)
next
  case False
  then have "starting s" by (cases "s_state s") (simp_all add: starting_def)
  then have "starting (s\<lparr>s_pairStage := st\<rparr>)" for st by (simp add: starting_def)
  with False assms \<open>starting s\<close> show ?thesis
    by (simp add: onPairingResponse_def afterAuthOk_watched setup_watched pairing_refused_watched pair_requests_watched
        handlePairSetupM2_watched handlePairSetupM4_watched handlePairSetupM6_watched handlePairVerifyM2_watched
        handleAp2SetupStream_watched split: pair_stage.split)
qed

lemma digest_challenge_watched: "watched fr s \<Longrightarrow> pok (watched fr) (digest_challenge C method headers s)"
  by (simp add: digest_challenge_def Let_def fail_keeps_watch sendOptions_watched classic_watched)

lemma transport_opts_watched [simp]: "watched fr (fold transport_opt xs s) = watched fr s"
proof (induction xs arbitrary: s)
  case (Cons x xs)
  have "watched fr (transport_opt x s) = watched fr s" by (simp add: transport_opt_def Let_def split: option.split)
  with Cons show ?case by simp
qed simp

lemma setup_reply_watched: "watched fr s \<Longrightarrow> pok (watched fr) (setup_reply C headers s)"
  by (simp add: setup_reply_def Let_def fail_keeps_watch classic_watched)

lemma handleResponse_watched: "watched fr s \<Longrightarrow> pok (watched fr) (handleResponse C method code headers s)"
  by (simp add: handleResponse_def fail_keeps_watch digest_challenge_watched setup_reply_watched
      startStreaming_watched classic_watched)

lemma dispatch_watched: "watched fr s \<Longrightarrow> pok (watched fr) (dispatch C r s)"
  by (auto simp: dispatch_def Let_def onPairingResponse_watched handleResponse_watched split: list.split)

lemma message_loop_watched: "watched fr s \<Longrightarrow> pok (watched fr) (message_loop C fuel s)"
proof (induction fuel arbitrary: s)
  case (Suc fuel)
  show ?case
  proof (cases "next_message (s_rxBuf s)")
    case (Some p)
    have "pok (watched fr) (dispatch C (fst p) (s\<lparr>s_rxBuf := snd p\<rparr>))" using Suc.prems by (simp add: dispatch_watched)
    with Suc.IH Some show ?thesis
      by (cases "dispatch C (fst p) (s\<lparr>s_rxBuf := snd p\<rparr>)") (auto simp: message_loop.simps case_prod_beta)
  qed (use Suc.prems in \<open>simp add: message_loop.simps\<close>)
qed (simp add: message_loop.simps)

lemma onRtspReadyRead_watched: "watched fr s \<Longrightarrow> pok (watched fr) (onRtspReadyRead C bytes s)"
  by (auto simp: onRtspReadyRead_def Let_def fail_keeps_watch message_loop_watched split: option.split prod.split bool.split)

lemma event_loop_watched: "watched fr s \<Longrightarrow> pok (watched fr) (event_loop C a fuel s)"
  by (induction fuel arbitrary: s)
    (auto simp: event_loop.simps split: option.split prod.split sum.split)

lemma onEventReadyRead_watched: "watched fr s \<Longrightarrow> pok (watched fr) (onEventReadyRead C bytes s)"
  by (auto simp: onEventReadyRead_def Let_def event_loop_watched split: option.split prod.split)

section \<open>The public interface\<close>

lemma submitPin_watched: "watched fr s \<Longrightarrow> pok (watched fr) (submitPin C code s)"
proof -
  assume w: "watched fr s"
  then have "watched fr (arm s_timeout_update (disarm s_pinTimeout_update (s\<lparr>s_waitingForPin := False\<rparr>)))"
    by (simp add: watch_defs arm_def disarm_def)
  with w show ?thesis by (simp add: submitPin_def run_simps sendPairSetupM3_watched)
qed

lemma idle_watched: "watchdogs fr s \<Longrightarrow> watched fr (s\<lparr>s_state := Idle\<rparr>)"
  by (simp add: watch_defs)

lemma ended_watched [simp]: "watched fr s \<Longrightarrow> watched fr (releaseSockets s)" "watched fr (clear_backlog s) = watched fr s"
  by (simp_all add: releaseSockets_def clear_backlog_def Let_def)

lemma sendRequest_watchdogs: "watchdogs fr s \<Longrightarrow> pok (watchdogs fr) (sendRequest C m u ct body extra s)"
  by (auto simp: sendRequest_def Let_def run.simps upd_def queue_method_def arm_def writeRtsp_def io_def emit_def
      watchdogs_def split: option.split sum.split prod.split)

lemma stop_watched: "watched fr s \<Longrightarrow> pok (watched fr) (stop C s)"
proof -
  assume w: "watched fr s"
  have "watchdogs fr (stopTimers s)"
    using w by (simp add: watched_def watchdogs_def stopTimers_def disarm_def)
  moreover have "watchdogs fr t \<Longrightarrow> watched fr (clear_backlog (releaseSockets ((emit (TcpClose TcpControl True)
      (t\<lparr>s_state := Idle\<rparr>))\<lparr>s_rtspConnected := False\<rparr>)))" for t
    by (simp add: idle_watched)
  ultimately show ?thesis
    using w by (auto simp: stop_unfold intro!: pok_case [where P = "watchdogs fr"] sendRequest_watchdogs)
qed

lemma fresh_ids_watched [simp]: "watched fr (fresh_ids C s) = watched fr s"
  by (simp add: fresh_ids_def rand32_def rand64_def rand16_def draw_def Let_def)

lemma start_watched:
  assumes "watched fr s"
  shows "pok (watched fr) (start C host port name tp cp ap s)"
proof (cases "stop C s")
  case (Inl e)
  then show ?thesis by (simp add: start_def run.simps)
next
  case (Inr t)
  with stop_watched [OF assms, of C] have t: "watched fr t" "s_state t = Idle" by (auto intro: stop_idle)
  define u where "u = (emit (UdpBind UdpAudio) (emit (UdpBind UdpControl) (emit (UdpBind UdpTiming)
      (reset_session (fresh_ids C (t\<lparr>s_host := host, s_name := name, s_hostIp := [], s_localIp := []\<rparr>))))))
      \<lparr>s_localTimingPort := tp, s_localControlPort := cp, s_udpBound := True\<rparr>"
  have "watched fr (fresh_ids C (t\<lparr>s_host := host, s_name := name, s_hostIp := [], s_localIp := []\<rparr>))"
    using t(1) by simp
  then have "watchdogs fr u" by (simp add: u_def watch_defs reset_session_def emit_def)
  moreover have "s_state u = Idle" using t(2) by (simp add: u_def emit_def reset_session_def)
  ultimately have "watched fr u" "watched fr (arm s_timeout_update (u\<lparr>s_state := Connecting, s_rtspConnected := False\<rparr>))"
    by (simp_all add: watched_def starting_def)
      (simp_all add: watchdogs_def arm_def u_def reset_session_def emit_def armed_within_def)
  with Inr show ?thesis
    by (simp add: start_def run.simps(2) [of "stop C"] run_simps u_def [symmetric])
qed

lemma onTcpClosed_watched: "watched fr s \<Longrightarrow> watched fr (onTcpClosed ch reason s)"
proof -
  assume w: "watched fr s"
  have "watchdogs fr (stopTimers (s\<lparr>s_rtspConnected := False, s_state := Idle\<rparr>))"
    using w by (simp add: watched_def watchdogs_def stopTimers_def disarm_def)
  then have "watched fr (stopTimers (s\<lparr>s_rtspConnected := False, s_state := Idle\<rparr>))"
    by (simp add: watched_def starting_def stopTimers_def disarm_def)
  with w show ?thesis by (simp add: onTcpClosed_def Let_def fail_keeps_watch)
qed

lemma onUdpDatagram_watched: "watched fr s \<Longrightarrow> watched fr (onUdpDatagram u bytes from s)"
proof -
  assume w: "watched fr s"
  have "watched fr s \<Longrightarrow> watched fr (fold (\<lambda>i. retransmit_one from (f i)) ns s)" for f :: "nat \<Rightarrow> 16 word" and ns s
    by (induction ns arbitrary: s) (simp_all add: retransmit_one_def Let_def)
  with w show ?thesis
    by (simp add: onUdpDatagram_def onControlDatagram_def onTimingDatagram_def Let_def split: RaopUdp.split)
qed

text \<open>A due watchdog is switched off before its handler runs: the handler must make up for it.\<close>

lemma handshake_due_watched:
  "watched fr s \<Longrightarrow> pok (watched fr) (if_due now s_timeout s_timeout_update (upd onHandshakeTimeout) s)"
  by (auto simp: if_due_def Let_def upd_def onHandshakeTimeout_def intro!: fail_watched)
    (auto simp: watch_defs)

lemma pin_due_watched:
  "watched fr s \<Longrightarrow> pok (watched fr) (if_due now s_pinTimeout s_pinTimeout_update (upd onPinTimeout) s)"
  by (auto simp: if_due_def Let_def upd_def onPinTimeout_def intro!: fail_watched)
    (auto simp: watch_defs)

lemma onFeedbackTimer_watched: "watched fr s \<Longrightarrow> pok (watched fr) (onFeedbackTimer C s)"
  by (auto simp: onFeedbackTimer_def Let_def upd_def sendRequest_watched writeRtsp_watched intro!: pok_run)

lemma if_due_watched:
  assumes "\<And>s. watched fr s \<Longrightarrow> pok (watched fr) (handler s)" and "\<And>f s. watched fr (field f s) = watched fr s" and "watched fr s"
  shows "pok (watched fr) (if_due now get field handler s)"
  using assms by (simp add: if_due_def Let_def)

lemma tick_watched:
  assumes "watched fr s"
  shows "pok (watched fr) (tick C s)"
  unfolding tick_def Let_def
  by (rule pok_run [where P = "watched fr", OF assms])
    (auto simp: handshake_due_watched pin_due_watched upd_def onPacerTick_def Let_def
      intro!: if_due_watched onFeedbackTimer_watched pacer_loop_watched)

lemma setters_watched [simp]:
  "watched fr (setInputFormat r s) = watched fr s" "watched fr (attachRing ring s) = watched fr s"
  "watched fr (setAuth m ap2 d cj p s) = watched fr s" "watched fr (setIdentity i s) = watched fr s"
  "watched fr (setStrictReceiverAuth b s) = watched fr s"
  by (simp_all add: setInputFormat_def attachRing_def setAuth_def setIdentity_def setStrictReceiverAuth_def)

lemma clocks_watched: "watched fr s \<Longrightarrow> fst fr \<le> now \<Longrightarrow> watched (now, snd fr) (s\<lparr>s_now := now\<rparr>)"
  by (auto simp: watched_def watchdogs_def starting_def armed_within_def)

lemma now_playing_watched: "watched fr s \<Longrightarrow> pok (watched fr) (setNowPlaying C t ar al co mi s)"
  by (simp add: setNowPlaying_def Let_def sendMetadata_watched)

lemma volume_watched: "watched fr s \<Longrightarrow> pok (watched fr) (setVolume C v s)"
  by (simp add: setVolume_def Let_def sendVolume_watched)

lemma connected_watched: "watched fr s \<Longrightarrow> pok (watched fr) (onTcpConnected C ch l p s)"
  by (auto simp: onTcpConnected_def starting_def intro!: beginAuthChain_watched)

definition clock_after :: "call \<Rightarrow> int \<Rightarrow> int" where
  "clock_after c now = (case c of Env_clocks later _ \<Rightarrow> later | _ \<Rightarrow> now)"

lemma apply_call_watched:
  assumes "watched fr s" and "call_ok c s"
  shows "pok (watched (clock_after c (fst fr), snd fr)) (apply_call C c s)"
proof (cases "\<exists>now wall. c = Env_clocks now wall")
  case True
  moreover have "s_now s = fst fr" using assms(1) by (simp add: watched_def watchdogs_def)
  ultimately show ?thesis
    using assms by (auto simp: apply_call_def call_ok_def clock_after_def clocks_watched)
next
  case False
  then have "clock_after c (fst fr) = fst fr" by (simp add: clock_after_def split: call.split)
  moreover have "pok (watched fr) (apply_call C c s)"
    using assms False
    by (auto simp: apply_call_def start_watched stop_watched submitPin_watched volume_watched now_playing_watched
        connected_watched onTcpConnectFailed_def fail_keeps_watch onTcpData_def onRtspReadyRead_watched onEventReadyRead_watched
        onTcpClosed_watched onUdpDatagram_watched tick_watched split: call.splits)
  ultimately show ?thesis by simp
qed

lemma new_sender_watched: "watched (now, []) (new_sender now wall)"
  by (simp add: new_sender_def watch_defs new_timer_def)

lemma watched_now: "watched fr s \<Longrightarrow> watched (s_now s, s_out s) s" "watched fr s \<Longrightarrow> watched (s_now s, []) s"
  by (simp_all add: watched_def watchdogs_def)

lemma reachable_watched: "sender_reachable C s \<Longrightarrow> watched (s_now s, []) s"
proof (induction rule: sender_reachable.induct)
  case (new now wall)
  show ?case using new_sender_watched by (rule watched_now)
next
  case (step s c s')
  then show ?case using apply_call_watched [of _ s c C] by (auto intro: watched_now(2))
qed

text \<open>A call adds to the actions already taken, and only the surroundings move the clock.\<close>

lemma apply_call_frame:
  assumes "sender_reachable C s" and "call_ok c s" and "apply_call C c s = Inr s'"
  shows "prefix (s_out s) (s_out s')" and "s_now s' = clock_after c (s_now s)"
  using apply_call_watched [OF watched_now(1) [OF reachable_watched [OF assms(1)]] assms(2), of C] assms(3)
  by (simp_all add: watched_def watchdogs_def)

section \<open>The tick that ends it\<close>

definition all_stopped :: "sender \<Rightarrow> bool" where
  "all_stopped s \<longleftrightarrow> \<not> t_active (s_timeout s) \<and> \<not> t_active (s_pinTimeout s) \<and> \<not> t_active (s_feedbackTimer s)
     \<and> \<not> t_active (s_syncTimer s) \<and> \<not> t_active (s_pacer s)"

lemma fail_all_stopped: "all_stopped (fail why s)"
  by (simp add: all_stopped_def fail_def releaseSockets_def stopTimers_def disarm_def emit_def Let_def)

lemma stopped_not_due: "all_stopped s \<Longrightarrow>
   if_due now s_pinTimeout s_pinTimeout_update h s = Inr s \<and> if_due now s_feedbackTimer s_feedbackTimer_update h s = Inr s
   \<and> if_due now s_syncTimer s_syncTimer_update h s = Inr s \<and> if_due now s_pacer s_pacer_update h s = Inr s"
  by (simp add: if_due_def all_stopped_def)

lemma fail_ends: "starting t \<Longrightarrow> s_state (fail why t) = Idle \<and> (\<exists>acts. s_out (fail why t) = s_out t @ acts @ [Ev_launched False why, Ev_closed])"
  by (auto simp: fail_def releaseSockets_def stopTimers_def disarm_def emit_def Let_def starting_def)

text \<open>The session is over: it is idle and the application has been told, last of all, that the start failed.\<close>

definition start_failed :: "sender \<Rightarrow> sender \<Rightarrow> bool" where
  "start_failed s s' \<longleftrightarrow> s_state s' = Idle
     \<and> (\<exists>acts why. s_out s' = s_out s @ acts @ [Ev_launched False why, Ev_closed])"

lemma fail_start_failed: "starting t \<Longrightarrow> s_out t = s_out s \<Longrightarrow> start_failed s (fail why t)"
  using fail_ends [of t why] by (auto simp: start_failed_def)

lemma handshake_tick:
  assumes "starting s" and "\<not> s_waitingForPin s" and "t_active (s_timeout s)" and "t_due (s_timeout s) \<le> s_now s"
  shows "\<exists>s'. tick C s = Inr s' \<and> start_failed s s'"
proof -
  let ?t = "s_timeout_update (\<lambda>t. if t_repeating t then t\<lparr>t_due := s_now s + t_interval t\<rparr> else t\<lparr>t_active := False\<rparr>) s"
  have "if_due (s_now s) s_timeout s_timeout_update (upd onHandshakeTimeout) s
      = Inr (fail ''Timed out waiting for the device'' ?t)"
    using assms by (simp add: if_due_def Let_def upd_def onHandshakeTimeout_def starting_def)
  moreover have "starting ?t" "s_out ?t = s_out s" using assms(1) by (simp_all add: starting_def)
  ultimately show ?thesis
    by (simp add: tick_def run.simps stopped_not_due [OF fail_all_stopped] fail_start_failed)
qed

lemma pin_tick:
  assumes "starting s" and "s_waitingForPin s" and "t_active (s_pinTimeout s)" and "t_due (s_pinTimeout s) \<le> s_now s"
  shows "\<exists>s'. tick C s = Inr s' \<and> start_failed s s'"
proof -
  obtain u where u: "if_due (s_now s) s_timeout s_timeout_update (upd onHandshakeTimeout) s = Inr u"
      "starting u" "s_waitingForPin u" "s_pinTimeout u = s_pinTimeout s" "s_out u = s_out s"
    using assms(1,2)
    by (cases "t_active (s_timeout s) \<and> t_due (s_timeout s) \<le> s_now s")
      (auto simp: if_due_def Let_def upd_def onHandshakeTimeout_def starting_def)
  let ?p = "\<lambda>t. if t_repeating t then t\<lparr>t_due := s_now s + t_interval t\<rparr> else t\<lparr>t_active := False\<rparr>"
  let ?t = "s_pinTimeout_update ?p u\<lparr>s_waitingForPin := False\<rparr>"
  obtain why where "if_due (s_now s) s_pinTimeout s_pinTimeout_update (upd onPinTimeout) u = Inr (fail why ?t)"
    using assms(3,4) u(3,4) by (simp add: if_due_def Let_def upd_def onPinTimeout_def)
  moreover have "starting ?t" "s_out ?t = s_out s" using u(2,5) by (simp_all add: starting_def)
  ultimately show ?thesis
    using u(1) by (simp add: tick_def run.simps stopped_not_due [OF fail_all_stopped] fail_start_failed)
qed

text \<open>
  C2. A session that is being set up cannot hang: from every reachable state in which it is
  connecting, pairing or in the handshake, whatever the receiver has or has not answered, the
  first tick after three minutes without another call ends it, and the application is told
  that the start failed. While no PIN is awaited ten seconds are enough.
\<close>

theorem setup_always_ends:
  assumes "sender_reachable C s" and "starting s"
    and "s_now s + (if s_waitingForPin s then 180000000000 else 10000000000) \<le> now"
  shows "\<exists>s'. tick C (s\<lparr>s_now := now, s_wall := wall\<rparr>) = Inr s'
    \<and> start_failed (s\<lparr>s_now := now, s_wall := wall\<rparr>) s'"
proof -
  have w: "watched (s_now s, []) s" using assms(1) by (rule reachable_watched)
  have st: "starting (s\<lparr>s_now := now, s_wall := wall\<rparr>)" using assms(2) by (simp add: starting_def)
  show ?thesis
  proof (cases "s_waitingForPin s")
    case True
    with w assms(2,3) show ?thesis
      by (intro pin_tick st) (simp_all add: watched_def armed_within_def kPinWaitTimeoutMs_def)
  next
    case False
    with w assms(2,3) show ?thesis
      by (intro handshake_tick st) (simp_all add: watched_def armed_within_def kHandshakeTimeoutMs_def)
  qed
qed

lemma start_connects:
  assumes "s_state s = Idle" and "tp \<noteq> 0" and "cp \<noteq> 0" and "ap \<noteq> 0"
  shows "\<exists>t. start C host port name tp cp ap s = Inr t \<and> s_state t = Connecting \<and> \<not> s_waitingForPin t \<and> s_now t = s_now s"
proof -
  have "s_now (fresh_ids C u) = s_now u" for u
    by (simp add: fresh_ids_def rand32_def rand64_def rand16_def draw_def Let_def)
  with assms show ?thesis
    by (simp add: start_def run.simps(2) [of "stop C"] stop_def run_simps reset_session_def arm_def emit_def)
qed

theorem setup_always_ends_witness:
  "\<exists>s s'. sender_reachable demo_crypto s \<and> starting s
    \<and> tick demo_crypto (s\<lparr>s_now := 10000000000, s_wall := 0\<rparr>) = Inr s'
    \<and> start_failed (s\<lparr>s_now := 10000000000, s_wall := 0\<rparr>) s'"
proof -
  obtain t where t: "start demo_crypto ''10.0.0.2'' 7000 ''Kitchen'' 5 6 7 (new_sender 0 0) = Inr t"
      "s_state t = Connecting" "\<not> s_waitingForPin t" "s_now t = 0"
    using start_connects [of "new_sender 0 0" 5 6 7 demo_crypto "''10.0.0.2''" 7000 "''Kitchen''"]
    by (auto simp: new_sender_def)
  have r: "sender_reachable demo_crypto t"
    using t(1) by (intro sender_reachable.step [OF sender_reachable.new, of "Call_start ''10.0.0.2'' 7000 ''Kitchen'' 5 6 7"])
      (simp_all add: call_ok_def apply_call_def)
  have "starting t" using t(2) by (simp add: starting_def)
  then show ?thesis
    using setup_always_ends [OF r, of 10000000000 0] t(3,4) r by auto
qed

end
