(* ===== verification/Sender_Findings.thy ===== *)
theory Sender_Findings
  imports Sender_Safety
begin

text \<open>
  Behaviour of the sender the code's comments or documents do not intend: a crash on an
  oversized pairing key, a null dereference for a combination of settings, a PIN that outlives
  its session, and an event channel that is never answered after transient pairing.
\<close>

section \<open>An oversized public key\<close>

text \<open>
  A receiver that answers pair-setup with a public value of more than 384 bytes makes the
  padding of \<open>hashTwoPadded\<close> throw; nothing up to the host's event loop catches it.
\<close>

lemma oversized_key_throws:
  assumes "s_state s = Pairing" and "s_pairStage s = PS_SetupM2" and "s_authMethod s = Auth_HapTransient"
    and "s_ap2 s = Some a"
    and "body = toStr (tlv_encode [(tlv_tag State, [2]), (tlv_tag PublicKey, key), (tlv_tag Salt, salt)])"
    and "256 ^ 384 \<le> bytes_nat key" and "bytes_nat key mod kSrpN3072 \<noteq> 0"
  shows "\<exists>e. onPairingResponse C 200 body s = Inl e"
proof -
  obtain e where e: "srp_process C (srp_start C ''3939'' (c_random C (s_draws s) 32)) salt key = Inl e"
    using srp_process_throws [of key C "srp_start C ''3939'' (c_random C (s_draws s) 32)" salt] assms(6,7)
    by (auto simp: kSrpNBytes_def)
  then show ?thesis
    using assms(1-5)
    by (simp add: onPairingResponse_def handlePairSetupM2_def tlv_decode_encode_distinct sendPairSetupM3_def
        on_ap2_def draw_def Let_def)
qed

section \<open>auth-setup together with AirPlay 2\<close>

text \<open>
  \<open>afterAuthOk_\<close> looks at \<open>airplay2_\<close> only, so after the one-shot \<open>auth-setup\<close> it goes into the
  AirPlay 2 set-up, where the reply to \<open>GET /info\<close> dereferences the AP2 state nobody made.
\<close>

lemma authsetup_airplay2_null:
  assumes "s_state s = Connecting" and "s_authMethod s = Auth_AuthSetup" and "s_airplay2 s" and "s_ap2 s = None"
  shows "\<exists>s1 s2. onTcpConnected C TcpControl here there s = Inr s1
    \<and> onPairingResponse C code reply s1 = Inr s2
    \<and> onPairingResponse C 200 info s2 = Inl Null_deref"
  using assms
  by (simp add: onTcpConnected_def beginAuthChain_def sendAuthSetup_def httpPost_def run_simps run.simps upd_def
      writeRtsp_def io_def emit_def queue_method_def arm_def onPairingResponse_def afterAuthOk_def sendAp2Info_def
      sendAp2Rtsp_def sendAp2SetupSession_def on_ap2_def Let_def)

section \<open>A PIN after the session\<close>

text \<open>
  \<open>waitingForPin_\<close> survives the end of the session it belongs to. A PIN the user submits after
  the receiver hung up still runs the SRP exchange on the closed connection; when the stored
  public value is refused, the application is told a second time that the session failed and
  closed.
\<close>

lemma pin_outlives_session:
  assumes "s_state s = Pairing" and "s_waitingForPin s" and "s_ap2 s = Some a"
    and "s_srpServerB s = toStr key" and "bytes_nat key = 0" and "length key \<le> c_mpi_max C"
  shows "s_state (onTcpClosed TcpControl [] s) = Idle"
    and "s_waitingForPin (onTcpClosed TcpControl [] s)"
    and "\<exists>s2. submitPin C pin (onTcpClosed TcpControl [] s) = Inr s2
      \<and> count_list (s_out s2) Ev_closed = count_list (s_out s) Ev_closed + 2"
proof -
  let ?t = "onTcpClosed TcpControl [] s"
  have f: "s_state ?t = Idle" "s_waitingForPin ?t" "s_ap2 ?t = Some a" "s_srpServerB ?t = toStr key"
    "count_list (s_out ?t) Ev_closed = count_list (s_out s) Ev_closed + 1"
    using assms(1-4) by (auto simp: onTcpClosed_def Let_def clear_backlog_def releaseSockets_def emit_def
        stopTimers_def disarm_def)
  show "s_state ?t = Idle" "s_waitingForPin ?t" by (rule f)+
  show "\<exists>s2. submitPin C pin ?t = Inr s2 \<and> count_list (s_out s2) Ev_closed = count_list (s_out s) Ev_closed + 2"
    using f srp_process_refuses [of key C] assms(5,6)
    by (simp add: submitPin_def run_simps sendPairSetupM3_def on_ap2_def draw_def Let_def arm_def disarm_def
        fail_def stopTimers_def releaseSockets_def emit_def)
qed

section \<open>The event channel after transient pairing\<close>

text \<open>
  The keys of the event channel are derived in pair-verify only. A session authenticated by
  transient pairing opens the channel but has no keys for it, so it drops what the receiver
  pushes, which according to the README is what keeps a session alive.
\<close>

lemma writeRtsp_frame: "writeRtsp C data s = Inr s' \<Longrightarrow> s_ap2 s' = s_ap2 s"
  by (auto simp: writeRtsp_def io_def emit_def Let_def split: option.splits if_splits sum.splits)

lemma requests_frame:
  "sendRequest C m u ct body extra s = Inr s' \<Longrightarrow> s_ap2 s' = s_ap2 s"
  "sendAp2Rtsp C m u ct body s = Inr s' \<Longrightarrow> s_ap2 s' = s_ap2 s"
  by (auto simp: sendRequest_def sendAp2Rtsp_def Let_def run.simps upd_def queue_method_def arm_def
      dest!: writeRtsp_frame split: sum.splits if_splits)

lemma afterAuthOk_frame: "afterAuthOk C s = Inr s' \<Longrightarrow> s_ap2 s' = s_ap2 s"
  by (auto simp: afterAuthOk_def Let_def sendAp2Info_def sendOptions_def dest!: requests_frame split: if_splits option.splits)

lemma transient_event_keys:
  assumes "s_state s = Pairing" and "s_pairStage s = PS_SetupM4" and "s_authMethod s = Auth_HapTransient"
    and "s_ap2 s = Some a" and "onPairingResponse C code body s = Inr s'" and "s_state s' \<noteq> Idle"
  shows "\<exists>a'. s_ap2 s' = Some a' \<and> a_eventIn a' = a_eventIn a \<and> a_eventOut a' = a_eventOut a"
proof -
  have "handlePairSetupM4 C body s = Inr s'"
    using assms by (auto simp: onPairingResponse_def pairing_refused_def fail_def Let_def releaseSockets_def
        stopTimers_def disarm_def emit_def split: if_splits)
  with assms(3,4,6) show ?thesis
    by (auto simp: handlePairSetupM4_def Let_def on_srp_def on_ap2_def fail_def releaseSockets_def stopTimers_def
        disarm_def emit_def control_keys_def split: option.splits sum.splits if_splits dest!: afterAuthOk_frame)
qed

lemma no_event_keys_no_answer:
  assumes "s_ap2 s = Some a" and "a_eventIn a = []"
  shows "onEventReadyRead C bytes s = Inr s"
  using assms by (simp add: onEventReadyRead_def)

end
