(* ===== verification/Host_Loop.thy ===== *)
theory Host_Loop
  imports Sender_Safety
begin

text \<open>
  The bundled host (\<open>src/src/raop_loop.cpp\<close>, \<open>raop_loop.h\<close>): two TCP and three UDP slots, the
  six operations of \<open>RaopIo\<close> the sender calls, and \<open>pump\<close>, which delivers what the sockets
  report and then ticks the sender. The POSIX branch is modelled.

  The kernel is a parameter: every system call is answered by a function of the number of the
  call, so nothing is assumed of what it answers; a call takes at least one nanosecond, which
  is what ends the two bounded waits of \<open>tcpClose\<close>. The log is the observable behaviour:
  the calls between host and sender and what the kernel did for the host.
  The calls a handler of the sender makes are carried out when the handler returns, in their
  order: the host reports nothing from inside them, and the one result, the port of
  \<open>udpBind\<close>, is an argument of \<open>start\<close>, checked against the log by the step relation below.
\<close>

section \<open>The kernel\<close>

text \<open>\<open>EWOULDBLOCK\<close> is \<open>EAGAIN\<close> on the POSIX hosts.\<close>

datatype errno = EAGAIN | EINPROGRESS | Errno int

definition wouldBlock :: "errno \<Rightarrow> bool" where
  "wouldBlock e \<longleftrightarrow> e = EAGAIN"

definition connectInProgress :: "errno \<Rightarrow> bool" where
  "connectInProgress e \<longleftrightarrow> e = EINPROGRESS \<or> e = EAGAIN"

record revents =
  re_in :: bool
  re_out :: bool
  re_err :: bool
  re_hup :: bool
  re_nval :: bool

type_synonym sock = nat

text \<open>
  The first argument of an answer is the number of the call. \<open>k_send\<close>, \<open>k_recv\<close> and
  \<open>k_recvfrom\<close> give the returned count (the bytes) and the error number left behind; in
  \<open>k_poll\<close> a descriptor is asked for readability and writability, a missing answer stands for
  no event; \<open>k_so_error\<close> is the pending error, \<open>None\<close> for 0.
\<close>

record kernel =
  k_delay :: "nat \<Rightarrow> nat"
  k_wall :: "int \<Rightarrow> 64 word"
  k_strerror :: "errno \<Rightarrow> string"
  k_inet_pton :: "string \<Rightarrow> bool"
  k_resolve :: "nat \<Rightarrow> string \<Rightarrow> string option"
  k_socket :: "nat \<Rightarrow> sock option"
  k_errno :: "nat \<Rightarrow> errno"
  k_connect :: "nat \<Rightarrow> sock \<Rightarrow> string \<Rightarrow> 16 word \<Rightarrow> bool"
  k_bind :: "nat \<Rightarrow> sock \<Rightarrow> bool"
  k_getsockname :: "nat \<Rightarrow> sock \<Rightarrow> RaopEndpoint option"
  k_getpeername :: "nat \<Rightarrow> sock \<Rightarrow> RaopEndpoint option"
  k_so_error :: "nat \<Rightarrow> sock \<Rightarrow> errno option"
  k_send :: "nat \<Rightarrow> sock \<Rightarrow> bytes \<Rightarrow> int"
  k_recv :: "nat \<Rightarrow> sock \<Rightarrow> nat \<Rightarrow> bytes option"
  k_recvfrom :: "nat \<Rightarrow> sock \<Rightarrow> nat \<Rightarrow> (bytes \<times> RaopEndpoint) option"
  k_poll :: "nat \<Rightarrow> (sock \<times> bool \<times> bool) list \<Rightarrow> int \<Rightarrow> int \<times> revents list"

section \<open>The slots\<close>

record TcpSlot =
  ts_fd :: "sock option"
  ts_gen :: "32 word"
  ts_connecting :: bool
  ts_connected :: bool
  ts_out :: bytes
  ts_outOff :: nat
  ts_failedToStart :: "string option"
  ts_sendFailed :: "string option"

record UdpSlot =
  us_fd :: "sock option"
  us_gen :: "32 word"

definition reset_slot :: "TcpSlot \<Rightarrow> TcpSlot" where
  "reset_slot t = t\<lparr>ts_fd := None, ts_connecting := False, ts_connected := False, ts_out := [],
     ts_outOff := 0, ts_failedToStart := None, ts_sendFailed := None\<rparr>"

text \<open>What the log records: both directions of the sender's interface, and the kernel's part.\<close>

datatype event =
    Io action
  | Notify call
  | Opened sock
  | Released sock
  | Sent RaopTcp bytes
  | Fin RaopTcp
  | Bound RaopUdp "16 word"
  | Datagram RaopUdp RaopEndpoint bytes
  | Waited int

record host =
  h_tcp :: "RaopTcp \<Rightarrow> TcpSlot"
  h_udp :: "RaopUdp \<Rightarrow> UdpSlot"
  h_calls :: nat
  h_now :: int
  h_log :: "event list"

definition new_host :: "int \<Rightarrow> host" where
  "new_host now = \<lparr>h_tcp = (\<lambda>_. \<lparr>ts_fd = None, ts_gen = 0, ts_connecting = False, ts_connected = False,
     ts_out = [], ts_outOff = 0, ts_failedToStart = None, ts_sendFailed = None\<rparr>),
     h_udp = (\<lambda>_. \<lparr>us_fd = None, us_gen = 0\<rparr>), h_calls = 0, h_now = now, h_log = []\<rparr>"

definition log_event :: "event \<Rightarrow> host \<Rightarrow> host" where
  "log_event e h = h\<lparr>h_log := h_log h @ [e]\<rparr>"

definition on_tcp :: "RaopTcp \<Rightarrow> (TcpSlot \<Rightarrow> TcpSlot) \<Rightarrow> host \<Rightarrow> host" where
  "on_tcp ch f h = h\<lparr>h_tcp := (h_tcp h)(ch := f (h_tcp h ch))\<rparr>"

definition on_udp :: "RaopUdp \<Rightarrow> (UdpSlot \<Rightarrow> UdpSlot) \<Rightarrow> host \<Rightarrow> host" where
  "on_udp u f h = h\<lparr>h_udp := (h_udp h)(u := f (h_udp h u))\<rparr>"

text \<open>One system call: the answer, then the call is counted and time has passed.\<close>

definition passed :: "kernel \<Rightarrow> host \<Rightarrow> host" where
  "passed K h = h\<lparr>h_calls := h_calls h + 1, h_now := h_now h + 1 + int (k_delay K (h_calls h))\<rparr>"

definition sys :: "kernel \<Rightarrow> (nat \<Rightarrow> 'a) \<Rightarrow> host \<Rightarrow> 'a \<times> host" where
  "sys K f h = (f (h_calls h), passed K h)"

definition opened :: "host \<Rightarrow> RaopTcp \<Rightarrow> bool" where
  "opened h ch \<longleftrightarrow> ts_fd (h_tcp h ch) \<noteq> None"

definition closeTcp :: "RaopTcp \<Rightarrow> host \<Rightarrow> host" where
  "closeTcp ch h = on_tcp ch reset_slot
     (case ts_fd (h_tcp h ch) of None \<Rightarrow> h | Some fd \<Rightarrow> log_event (Released fd) h)"

definition closeUdp :: "RaopUdp \<Rightarrow> host \<Rightarrow> host" where
  "closeUdp u h = on_udp u (\<lambda>t. t\<lparr>us_fd := None\<rparr>)
     (case us_fd (h_udp h u) of None \<Rightarrow> h | Some fd \<Rightarrow> log_event (Released fd) h)"

definition destroy :: "host \<Rightarrow> host" where
  "destroy h = closeUdp UdpTiming (closeUdp UdpControl (closeUdp UdpAudio
     (closeTcp TcpEvent (closeTcp TcpControl h))))"

section \<open>Writing\<close>

definition unsent :: "TcpSlot \<Rightarrow> bytes" where
  "unsent t = drop (ts_outOff t) (ts_out t)"

definition took :: "RaopTcp \<Rightarrow> nat \<Rightarrow> host \<Rightarrow> host" where
  "took ch n h = on_tcp ch (\<lambda>t. t\<lparr>ts_outOff := ts_outOff t + n\<rparr>)
     (log_event (Sent ch (take n (unsent (h_tcp h ch)))) h)"

lemma took_slot: "h_tcp (took ch n h) ch = (h_tcp h ch)\<lparr>ts_outOff := ts_outOff (h_tcp h ch) + n\<rparr>"
  by (simp add: took_def on_tcp_def log_event_def)

lemma passed_slots [simp]: "h_tcp (passed K h) = h_tcp h" "h_udp (passed K h) = h_udp h" "h_log (passed K h) = h_log h"
  by (simp_all add: passed_def)

text \<open>\<open>drain\<close>: \<open>None\<close> where the code returns true, the error where it returns false.\<close>

function drain :: "kernel \<Rightarrow> RaopTcp \<Rightarrow> host \<Rightarrow> errno option \<times> host" where
  "drain K ch h =
     (let t = h_tcp h ch
      in if ts_outOff t < length (ts_out t) then
           (let (n, h1) = sys K (\<lambda>i. k_send K i (the (ts_fd t)) (unsent t)) h;
                err = k_errno K (h_calls h)
            in if n > 0 then drain K ch (took ch (nat n) h1)
               else if n < 0 \<and> wouldBlock err then (None, h1)
               else (Some err, h1))
         else (None, on_tcp ch (\<lambda>t. t\<lparr>ts_out := [], ts_outOff := 0\<rparr>) h))"
  by pat_completeness auto
termination
  by (relation "measure (\<lambda>(K, ch, h). length (ts_out (h_tcp h ch)) - ts_outOff (h_tcp h ch))")
    (auto simp: took_slot sys_def)

declare drain.simps [simp del]

definition send_failed :: "kernel \<Rightarrow> errno \<Rightarrow> string" where
  "send_failed K e = ''send failed: '' @ k_strerror K e"

section \<open>The operations of \<open>RaopIo\<close>\<close>

definition cannot_start :: "RaopTcp \<Rightarrow> string \<Rightarrow> host \<Rightarrow> host" where
  "cannot_start ch why = on_tcp ch (\<lambda>t. t\<lparr>ts_failedToStart := Some why\<rparr>)"

definition tcpConnect :: "kernel \<Rightarrow> RaopTcp \<Rightarrow> string \<Rightarrow> 16 word \<Rightarrow> host \<Rightarrow> host" where
  "tcpConnect K ch hostname port h =
     (let h = on_tcp ch (\<lambda>t. t\<lparr>ts_gen := ts_gen t + 1\<rparr>) (closeTcp ch h);
          (res, h) = sys K (\<lambda>i. k_resolve K i hostname) h
      in case res of
           None \<Rightarrow> cannot_start ch (''cannot resolve '' @ hostname) h
         | Some ip \<Rightarrow>
             (let ((fd, err), h) = sys K (\<lambda>i. (k_socket K i, k_errno K i)) h
              in case fd of
                   None \<Rightarrow> cannot_start ch (''socket: '' @ k_strerror K err) h
                 | Some fd \<Rightarrow>
                     (let h = log_event (Opened fd) h;
                          ((rc, err), h) = sys K (\<lambda>i. (k_connect K i fd ip port, k_errno K i)) h
                      in if \<not> rc \<and> \<not> connectInProgress err
                         then cannot_start ch (k_strerror K err) (log_event (Released fd) h)
                         else on_tcp ch (\<lambda>t. t\<lparr>ts_fd := Some fd, ts_connecting := True, ts_connected := False\<rparr>) h)))"

definition tcpSend :: "kernel \<Rightarrow> RaopTcp \<Rightarrow> bytes \<Rightarrow> host \<Rightarrow> host" where
  "tcpSend K ch b h =
     (if \<not> opened h ch \<or> b = [] then h
      else let h = on_tcp ch (\<lambda>t. t\<lparr>ts_out := ts_out t @ b\<rparr>) h
           in if \<not> ts_connected (h_tcp h ch) then h
              else case drain K ch h of
                     (None, h) \<Rightarrow> h
                   | (Some err, h) \<Rightarrow>
                       if ts_sendFailed (h_tcp h ch) = None
                       then on_tcp ch (\<lambda>t. t\<lparr>ts_sendFailed := Some (send_failed K err)\<rparr>) h
                       else h)"

lemma clock_simps [simp]:
  "h_now (took ch n h) = h_now h" "h_now (on_tcp ch f h) = h_now h"
  by (simp_all add: took_def on_tcp_def log_event_def)

lemma passed_now: "h_now h < h_now (passed K h)"
  by (simp add: passed_def)

lemma drain_now: "h_now h \<le> h_now (snd (drain K ch h))"
proof (induction K ch h rule: drain.induct)
  case (1 K ch h)
  then show ?case
    by (subst drain.simps) (use passed_now [of h K] in \<open>auto simp: Let_def sys_def intro: order_trans [OF less_imp_le]\<close>)
qed

text \<open>The first wait of \<open>tcpClose\<close>: the queued bytes, for at most 500 ms.\<close>

definition pending :: "RaopTcp \<Rightarrow> host \<Rightarrow> bool" where
  "pending ch h \<longleftrightarrow> ts_outOff (h_tcp h ch) < length (ts_out (h_tcp h ch))"

function flush_loop :: "kernel \<Rightarrow> RaopTcp \<Rightarrow> int \<Rightarrow> host \<Rightarrow> host" where
  "flush_loop K ch deadline h =
     (if pending ch h \<and> h_now h < deadline then
        (case drain K ch h of
           (Some err, h1) \<Rightarrow> h1
         | (None, h1) \<Rightarrow>
             if \<not> pending ch h1 then h1
             else let left = (deadline - h_now h1) div 1000000;
                      (_, h2) = sys K (\<lambda>i. k_poll K i [(the (ts_fd (h_tcp h1 ch)), False, True)] (max 1 left)) h1
                  in flush_loop K ch deadline h2)
      else h)"
  by pat_completeness auto
termination
proof (relation "measure (\<lambda>(K, ch, deadline, h). nat (deadline - h_now h))", goal_cases)
  case (2 K ch deadline h x h1)
  then have "h_now h \<le> h_now h1" using drain_now [of h K ch] by (metis snd_conv)
  with 2 show ?case using passed_now [of h1 K] by (auto simp: sys_def)
qed auto

declare flush_loop.simps [simp del]

text \<open>The second: the peer's own FIN, for at most 300 ms.\<close>

function fin_loop :: "kernel \<Rightarrow> RaopTcp \<Rightarrow> int \<Rightarrow> host \<Rightarrow> host" where
  "fin_loop K ch deadline h =
     (let left = (deadline - h_now h) div 1000000;
          fd = the (ts_fd (h_tcp h ch))
      in if left \<le> 0 then h
         else let ready = fst (k_poll K (h_calls h) [(fd, True, False)] left);
                  h1 = passed K h;
                  got = k_recv K (h_calls h1) fd 1024;
                  err = k_errno K (h_calls h1)
              in if ready \<le> 0 then h1
                 else if got \<noteq> None \<and> got \<noteq> Some [] \<or> got = None \<and> wouldBlock err
                 then fin_loop K ch deadline (passed K h1)
                 else passed K h1)"
  by pat_completeness auto
termination
  by (relation "measure (\<lambda>(K, ch, deadline, h). nat (deadline - h_now h))")
    (auto simp: passed_def not_le pos_imp_zdiv_pos_iff)

declare fin_loop.simps [simp del]

definition tcpClose :: "kernel \<Rightarrow> RaopTcp \<Rightarrow> bool \<Rightarrow> host \<Rightarrow> host" where
  "tcpClose K ch flush h =
     (let t = h_tcp h ch
      in if ts_fd t = None then on_tcp ch reset_slot h
         else closeTcp ch
           (if flush \<and> ts_connected t \<and> ts_sendFailed t = None then
              let h = flush_loop K ch (h_now h + ms 500) h;
                  h = log_event (Fin ch) (passed K h)
              in fin_loop K ch (h_now h + ms 300) h
            else h))"

definition udpBind :: "kernel \<Rightarrow> RaopUdp \<Rightarrow> host \<Rightarrow> 16 word \<times> host" where
  "udpBind K u h =
     (let h = on_udp u (\<lambda>t. t\<lparr>us_gen := us_gen t + 1\<rparr>) (closeUdp u h);
          (fd, h) = sys K (k_socket K) h
      in case fd of
           None \<Rightarrow> (0, h)
         | Some fd \<Rightarrow>
             (let h = log_event (Opened fd) h;
                  (bound, h) = sys K (\<lambda>i. k_bind K i fd) h
              in if \<not> bound then (0, log_event (Released fd) h)
                 else let (local, h) = sys K (\<lambda>i. k_getsockname K i fd) h;
                          port = (case local of None \<Rightarrow> 0 | Some a \<Rightarrow> ep_port a)
                      in if port = 0 then (0, log_event (Released fd) h)
                         else (port, on_udp u (\<lambda>t. t\<lparr>us_fd := Some fd\<rparr>) h)))"

definition udpSend :: "kernel \<Rightarrow> RaopUdp \<Rightarrow> RaopEndpoint \<Rightarrow> bytes \<Rightarrow> host \<Rightarrow> host" where
  "udpSend K u to b h =
     (if us_fd (h_udp h u) = None \<or> \<not> k_inet_pton K (ep_ip to) then h
      else log_event (Datagram u to b) (passed K h))"

text \<open>A call the sender makes on its host; calls on the application's \<open>RaopEvents\<close> pass by.\<close>

definition perform :: "kernel \<Rightarrow> action \<Rightarrow> host \<Rightarrow> host" where
  "perform K a h =
     (let h = log_event (Io a) h
      in case a of
           TcpConnect ch hostname port \<Rightarrow> tcpConnect K ch hostname port h
         | TcpSend ch b \<Rightarrow> tcpSend K ch (toBytes b) h
         | TcpClose ch flush \<Rightarrow> tcpClose K ch flush h
         | UdpBind u \<Rightarrow> (let (port, h) = udpBind K u h in log_event (Bound u port) h)
         | UdpSend u to b \<Rightarrow> udpSend K u to (toBytes b) h
         | UdpClose u \<Rightarrow> closeUdp u h
         | _ \<Rightarrow> h)"

section \<open>Calls into the sender\<close>

type_synonym world = "sender \<times> host"

text \<open>
  A call of the sender, at the present time: its own calls on the host follow in order. An
  exception passes through the loop.
\<close>

definition call_sender :: "crypto \<Rightarrow> kernel \<Rightarrow> call \<Rightarrow> world \<Rightarrow> world result" where
  "call_sender C K c w =
     (let (s, h) = w;
          s0 = s\<lparr>s_now := h_now h, s_wall := k_wall K (h_now h)\<rparr>
      in case apply_call C c s0 of
           Inl e \<Rightarrow> Inl e
         | Inr s' \<Rightarrow> Inr (s', fold (perform K) (drop (length (s_out s)) (s_out s')) (log_event (Notify c) h)))"

definition on_host :: "(host \<Rightarrow> host) \<Rightarrow> world \<Rightarrow> world" where
  "on_host f w = (fst w, f (snd w))"

text \<open>The close that a report announces comes first.\<close>

definition report :: "crypto \<Rightarrow> kernel \<Rightarrow> RaopTcp \<Rightarrow> call \<Rightarrow> world \<Rightarrow> world result" where
  "report C K ch c w = call_sender C K c (on_host (closeTcp ch) w)"

section \<open>\<open>pump\<close>\<close>

text \<open>1. Parked notifications.\<close>

definition parked :: "crypto \<Rightarrow> kernel \<Rightarrow> RaopTcp \<Rightarrow> world \<Rightarrow> world result" where
  "parked C K ch w =
     (let t = h_tcp (snd w) ch
      in case ts_failedToStart t of
           Some why \<Rightarrow> report C K ch (Call_tcpConnectFailed ch why) w
         | None \<Rightarrow>
             (case ts_sendFailed t of
                Some why \<Rightarrow> report C K ch (Call_tcpClosed ch why) w
              | None \<Rightarrow> Inr w))"

text \<open>2. How long to block, in milliseconds.\<close>

definition pump_wait :: "int \<Rightarrow> int option \<Rightarrow> int \<Rightarrow> int" where
  "pump_wait maxWait deadline now =
     max 0 (case deadline of
              None \<Rightarrow> maxWait
            | Some dl \<Rightarrow>
                let left = dl - now
                in min maxWait (if left \<le> 0 then 0 else (left + 999000) div 1000000))"

text \<open>3. The live sockets.\<close>

datatype entry = Tcp_entry RaopTcp sock "32 word" | Udp_entry RaopUdp sock "32 word"

definition tcp_entries :: "host \<Rightarrow> RaopTcp \<Rightarrow> (entry \<times> sock \<times> bool \<times> bool) list" where
  "tcp_entries h ch =
     (let t = h_tcp h ch
      in case ts_fd t of
           None \<Rightarrow> []
         | Some fd \<Rightarrow> [(Tcp_entry ch fd (ts_gen t), fd, \<not> ts_connecting t,
                        ts_connecting t \<or> ts_outOff t < length (ts_out t))])"

definition udp_entries :: "host \<Rightarrow> RaopUdp \<Rightarrow> (entry \<times> sock \<times> bool \<times> bool) list" where
  "udp_entries h u =
     (case us_fd (h_udp h u) of
        None \<Rightarrow> []
      | Some fd \<Rightarrow> [(Udp_entry u fd (us_gen (h_udp h u)), fd, True, False)])"

definition entries :: "host \<Rightarrow> (entry \<times> sock \<times> bool \<times> bool) list" where
  "entries h = concat (map (tcp_entries h) [TcpControl, TcpEvent])
     @ concat (map (udp_entries h) [UdpAudio, UdpControl, UdpTiming])"

text \<open>4. The wait: no socket, no poll.\<close>

definition wait_sockets :: "kernel \<Rightarrow> int \<Rightarrow> host \<Rightarrow> (int \<times> revents list) \<times> host" where
  "wait_sockets K wait h =
     (let fds = map snd (entries h); h1 = log_event (Waited wait) h
      in if fds = [] then ((0, []), if wait > 0 then passed K h1 else h1)
         else sys K (\<lambda>i. k_poll K i fds wait) h1)"

text \<open>5. Delivery: a slot the sender closed or opened anew meanwhile is left alone.\<close>

definition same_tcp :: "RaopTcp \<Rightarrow> sock \<Rightarrow> 32 word \<Rightarrow> host \<Rightarrow> bool" where
  "same_tcp ch fd gen h \<longleftrightarrow> ts_fd (h_tcp h ch) = Some fd \<and> ts_gen (h_tcp h ch) = gen"

definition same_udp :: "RaopUdp \<Rightarrow> sock \<Rightarrow> 32 word \<Rightarrow> host \<Rightarrow> bool" where
  "same_udp u fd gen h \<longleftrightarrow> us_fd (h_udp h u) = Some fd \<and> us_gen (h_udp h u) = gen"

definition kBurst :: nat where "kBurst = 64"

fun udp_burst :: "crypto \<Rightarrow> kernel \<Rightarrow> RaopUdp \<Rightarrow> sock \<Rightarrow> nat \<Rightarrow> world \<Rightarrow> world result" where
  "udp_burst C K u fd 0 w = Inr w"
| "udp_burst C K u fd (Suc n) w =
     (let h = snd w; err = k_errno K (h_calls h); w = on_host (passed K) w
      in case k_recvfrom K (h_calls h) fd 4096 of
           Some (b, from) \<Rightarrow>
             if b = [] then udp_burst C K u fd n w
             else (case call_sender C K (Call_udpDatagram u b from) w of
                     Inl e \<Rightarrow> Inl e
                   | Inr w' \<Rightarrow>
                       if same_udp u fd (us_gen (h_udp h u)) (snd w') then udp_burst C K u fd n w' else Inr w')
         | None \<Rightarrow> Inr (if wouldBlock err then w else on_host (passed K) w))"

text \<open>Reading until the kernel has nothing more: the number of reads is not bounded by the code.\<close>

fun tcp_recv :: "crypto \<Rightarrow> kernel \<Rightarrow> RaopTcp \<Rightarrow> sock \<Rightarrow> nat \<Rightarrow> world \<Rightarrow> world result" where
  "tcp_recv C K ch fd 0 w = Inl Out_of_fuel"
| "tcp_recv C K ch fd (Suc n) w =
     (let h = snd w; err = k_errno K (h_calls h); w = on_host (passed K) w
      in case k_recv K (h_calls h) fd 16384 of
           Some b \<Rightarrow>
             if b = [] then report C K ch (Call_tcpClosed ch []) w
             else (case call_sender C K (Call_tcpData ch b) w of
                     Inl e \<Rightarrow> Inl e
                   | Inr w' \<Rightarrow>
                       if same_tcp ch fd (ts_gen (h_tcp h ch)) (snd w') then tcp_recv C K ch fd n w' else Inr w')
         | None \<Rightarrow> if wouldBlock err then Inr w
                   else report C K ch (Call_tcpClosed ch (k_strerror K err)) w)"

definition endpoint_of :: "RaopEndpoint option \<Rightarrow> RaopEndpoint" where
  "endpoint_of a = (case a of None \<Rightarrow> \<lparr>ep_ip = [], ep_port = 0\<rparr> | Some e \<Rightarrow> e)"

text \<open>\<open>drain\<close> and what follows it in \<open>pump\<close>: an error closes and reports, else \<open>next\<close>.\<close>

definition drain_or_report ::
    "crypto \<Rightarrow> kernel \<Rightarrow> RaopTcp \<Rightarrow> (world \<Rightarrow> world result) \<Rightarrow> world \<Rightarrow> world result" where
  "drain_or_report C K ch next_step w =
     (case drain K ch (snd w) of
        (None, h) \<Rightarrow> next_step (fst w, h)
      | (Some err, h) \<Rightarrow> report C K ch (Call_tcpClosed ch (send_failed K err)) (fst w, h))"

definition deliver_connecting :: "crypto \<Rightarrow> kernel \<Rightarrow> RaopTcp \<Rightarrow> sock \<Rightarrow> revents \<Rightarrow> world \<Rightarrow> world result" where
  "deliver_connecting C K ch fd re w =
     (if \<not> (re_out re \<or> re_err re \<or> re_hup re) then Inr w
      else
        let err = k_so_error K (h_calls (snd w)) fd; w = on_host (passed K) w
        in if err \<noteq> None \<or> re_err re \<or> re_hup re
           then report C K ch (Call_tcpConnectFailed ch
                  (case err of Some e \<Rightarrow> k_strerror K e | None \<Rightarrow> ''connection failed'')) w
           else
             let gen = ts_gen (h_tcp (snd w) ch);
                 (local, h) = sys K (\<lambda>i. endpoint_of (k_getsockname K i fd)) (snd w);
                 (peer, h) = sys K (\<lambda>i. endpoint_of (k_getpeername K i fd)) h;
                 h = on_tcp ch (\<lambda>t. t\<lparr>ts_connecting := False, ts_connected := True\<rparr>) h
             in case call_sender C K (Call_tcpConnected ch local peer) (fst w, h) of
                  Inl e \<Rightarrow> Inl e
                | Inr w' \<Rightarrow> if same_tcp ch fd gen (snd w') then drain_or_report C K ch Inr w' else Inr w')"

definition deliver_connected :: "crypto \<Rightarrow> kernel \<Rightarrow> nat \<Rightarrow> RaopTcp \<Rightarrow> sock \<Rightarrow> revents \<Rightarrow> world \<Rightarrow> world result" where
  "deliver_connected C K fuel ch fd re w =
     (let receive = (\<lambda>w. if re_in re \<or> re_hup re then tcp_recv C K ch fd fuel w else Inr w)
      in if re_err re \<or> re_nval re then
           (let err = k_so_error K (h_calls (snd w)) fd
            in report C K ch (Call_tcpClosed ch
                 (case err of Some e \<Rightarrow> k_strerror K e | None \<Rightarrow> ''socket error'')) (on_host (passed K) w))
         else if re_out re then drain_or_report C K ch receive w
         else receive w)"

definition no_event :: "revents \<Rightarrow> bool" where
  "no_event re \<longleftrightarrow> \<not> (re_in re \<or> re_out re \<or> re_err re \<or> re_hup re \<or> re_nval re)"

fun deliver :: "crypto \<Rightarrow> kernel \<Rightarrow> nat \<Rightarrow> entry \<times> revents \<Rightarrow> world \<Rightarrow> world result" where
  "deliver C K fuel (Udp_entry u fd gen, re) w =
     (if no_event re \<or> \<not> same_udp u fd gen (snd w) \<or> \<not> (re_in re \<or> re_err re \<or> re_hup re) then Inr w
      else udp_burst C K u fd kBurst w)"
| "deliver C K fuel (Tcp_entry ch fd gen, re) w =
     (if no_event re \<or> \<not> same_tcp ch fd gen (snd w) then Inr w
      else if ts_connecting (h_tcp (snd w) ch) then deliver_connecting C K ch fd re w
      else deliver_connected C K fuel ch fd re w)"

definition wait_and_deliver :: "crypto \<Rightarrow> kernel \<Rightarrow> nat \<Rightarrow> int \<Rightarrow> world \<Rightarrow> world result" where
  "wait_and_deliver C K fuel maxWait w =
     (let wait = pump_wait maxWait (nextDeadline (fst w)) (h_now (snd w));
          es = map fst (entries (snd w));
          ((ready, re), h) = wait_sockets K wait (snd w)
      in if ready > 0 then run (map (deliver C K fuel) (zip es re)) (fst w, h) else Inr (fst w, h))"

definition pump :: "crypto \<Rightarrow> kernel \<Rightarrow> nat \<Rightarrow> int \<Rightarrow> world \<Rightarrow> world result" where
  "pump C K fuel maxWait =
     run [parked C K TcpControl, parked C K TcpEvent,
          wait_and_deliver C K fuel maxWait,
          call_sender C K Call_tick]"

text \<open>\<open>run\<close>: one observation of the stop flag before each \<open>pump\<close>.\<close>

fun run_loop :: "crypto \<Rightarrow> kernel \<Rightarrow> nat \<Rightarrow> bool list \<Rightarrow> world \<Rightarrow> world result" where
  "run_loop C K fuel [] w = Inr w"
| "run_loop C K fuel (requested # flags) w =
     (if requested then Inr w
      else case pump C K fuel 50 w of Inl e \<Rightarrow> Inl e | Inr w' \<Rightarrow> run_loop C K fuel flags w')"

section \<open>The program around the loop\<close>

text \<open>
  The application configures, starts and stops the sender on the loop's thread, between two
  pumps; time may pass. The ports in a call of \<open>start\<close> are those its binds returned.
\<close>

definition app_call :: "call \<Rightarrow> bool" where
  "app_call c \<longleftrightarrow> (case c of
       Call_tcpConnected _ _ _ \<Rightarrow> False | Call_tcpConnectFailed _ _ \<Rightarrow> False | Call_tcpData _ _ \<Rightarrow> False
     | Call_tcpClosed _ _ \<Rightarrow> False | Call_udpDatagram _ _ _ \<Rightarrow> False | Call_tick \<Rightarrow> False | Env_clocks _ _ \<Rightarrow> False
     | _ \<Rightarrow> True)"

definition bound_ports :: "event list \<Rightarrow> (RaopUdp \<times> 16 word) list" where
  "bound_ports es = List.map_filter (\<lambda>e. case e of Bound u port \<Rightarrow> Some (u, port) | _ \<Rightarrow> None) es"

definition ports_agree :: "call \<Rightarrow> event list \<Rightarrow> bool" where
  "ports_agree c es \<longleftrightarrow> (case c of
       Call_start _ _ _ tp cp ap \<Rightarrow> bound_ports es = [(UdpTiming, tp), (UdpControl, cp), (UdpAudio, ap)]
     | _ \<Rightarrow> True)"

inductive loop_reachable :: "crypto \<Rightarrow> kernel \<Rightarrow> world \<Rightarrow> bool" for C K where
  new: "loop_reachable C K (new_sender now wall, new_host now)"
| app: "loop_reachable C K w \<Longrightarrow> app_call c \<Longrightarrow> call_ok c (fst w) \<Longrightarrow> call_sender C K c w = Inr w' \<Longrightarrow>
    ports_agree c (drop (length (h_log (snd w))) (h_log (snd w'))) \<Longrightarrow> loop_reachable C K w'"
| pump: "loop_reachable C K w \<Longrightarrow> pump C K fuel maxWait w = Inr w' \<Longrightarrow> loop_reachable C K w'"
| idle: "loop_reachable C K (s, h) \<Longrightarrow> loop_reachable C K (s, h\<lparr>h_now := h_now h + int d\<rparr>)"

inductive_cases loop_reachableE: "loop_reachable C K w"

end
