(* ===== verification/Host_Invariant.thy ===== *)
theory Host_Invariant
  imports Host_Loop "HOL-Library.Sublist"
begin

text \<open>
  How invariants pass through \<open>pump\<close>. The interface \<open>loop_invariant\<close> lists what the loop does to
  the world, each with what the code has checked when it does it: an invariant with these laws
  holds after every \<open>pump\<close>. \<open>host_invariant\<close> is the case of an invariant of the host alone.
\<close>

section \<open>Rules for the loops\<close>

definition cleared :: "RaopTcp \<Rightarrow> host \<Rightarrow> host" where
  "cleared ch = on_tcp ch (\<lambda>t. t\<lparr>ts_out := [], ts_outOff := 0\<rparr>)"

lemma drain_unfold:
  "drain K ch h =
     (let n = k_send K (h_calls h) (the (ts_fd (h_tcp h ch))) (unsent (h_tcp h ch)); err = k_errno K (h_calls h)
      in if \<not> pending ch h then (None, cleared ch h)
         else if n > 0 then drain K ch (took ch (nat n) (passed K h))
         else if n < 0 \<and> wouldBlock err then (None, passed K h)
         else (Some err, passed K h))"
  by (subst drain.simps) (simp add: sys_def Let_def pending_def cleared_def)

text \<open>
  What every step of the loop keeps, the loop keeps; a kernel that claims more than it was
  given ends it.
\<close>

lemma drain_rule:
  assumes "P h"
    and passed: "\<And>h. P h \<Longrightarrow> P (passed K h)"
    and took: "\<And>h n. P h \<Longrightarrow> pending ch h \<Longrightarrow> n \<le> length (unsent (h_tcp h ch)) \<Longrightarrow> P (took ch n h)"
    and overrun: "\<And>h n. P h \<Longrightarrow> pending ch h \<Longrightarrow> length (unsent (h_tcp h ch)) < n \<Longrightarrow> P (cleared ch (took ch n h))"
    and clear: "\<And>h. P h \<Longrightarrow> \<not> pending ch h \<Longrightarrow> P (cleared ch h)"
  shows "P (snd (drain K ch h))"
  using assms(1)
proof (induction "length (ts_out (h_tcp h ch)) - ts_outOff (h_tcp h ch)" arbitrary: h rule: less_induct)
  case less
  have "P (snd (drain K ch (took ch (nat n) (passed K h))))" if "n > 0" "pending ch h" for n
  proof (cases "nat n \<le> length (unsent (h_tcp h ch))")
    case True
    then show ?thesis
      using that less.prems by (intro less.hyps took passed) (auto simp: took_slot pending_def)
  next
    case False
    then have "\<not> pending ch (took ch (nat n) (passed K h))"
      by (simp add: pending_def took_slot unsent_def)
    then show ?thesis
      using that less.prems False by (subst drain_unfold) (simp add: overrun passed pending_def)
  qed
  then show ?case using less.prems
    by (subst drain_unfold) (simp add: Let_def passed clear)
qed

lemma flush_unfold:
  "flush_loop K ch deadline h =
     (if pending ch h \<and> h_now h < deadline then
        let h1 = snd (drain K ch h)
        in if fst (drain K ch h) \<noteq> None \<or> \<not> pending ch h1 then h1
           else flush_loop K ch deadline (passed K h1)
      else h)"
  by (subst flush_loop.simps) (simp add: sys_def Let_def split: prod.split option.split)

lemma flush_rule:
  assumes "P h"
    and passed: "\<And>h. P h \<Longrightarrow> P (passed K h)"
    and drain: "\<And>h. P h \<Longrightarrow> P (snd (drain K ch h))"
  shows "P (flush_loop K ch deadline h)"
  using assms(1)
proof (induction "nat (deadline - h_now h)" arbitrary: h rule: less_induct)
  case less
  have "P (flush_loop K ch deadline (passed K (snd (drain K ch h))))" if "h_now h < deadline"
    using that less.prems drain_now [of h K ch] passed_now [of "snd (drain K ch h)" K]
    by (intro less.hyps drain passed) auto
  then show ?case using less.prems
    by (subst flush_unfold) (simp add: Let_def drain)
qed

lemma fin_rule:
  assumes "P h" and passed: "\<And>h. P h \<Longrightarrow> P (passed K h)"
  shows "P (fin_loop K ch deadline h)"
  using assms(1)
proof (induction "nat (deadline - h_now h)" arbitrary: h rule: less_induct)
  case less
  have "P (fin_loop K ch deadline (passed K (passed K h)))" if "0 < (deadline - h_now h) div 1000000"
    using that less.prems passed_now [of h K] passed_now [of "passed K h" K]
    by (intro less.hyps passed) (auto simp: pos_imp_zdiv_pos_iff)
  then show ?case using less.prems
    by (subst fin_loop.simps) (auto simp: Let_def passed)
qed

lemma tcpClose_rule:
  assumes "P h"
    and passed: "\<And>h. P h \<Longrightarrow> P (passed K h)"
    and drain: "\<And>h. P h \<Longrightarrow> P (snd (drain K ch h))"
    and fin: "\<And>h. P h \<Longrightarrow> P (log_event (Fin ch) h)"
    and close: "\<And>h. P h \<Longrightarrow> Q (closeTcp ch h)"
  shows "Q (tcpClose K ch flush h)"
proof -
  have shut: "on_tcp ch reset_slot h = closeTcp ch h" if "ts_fd (h_tcp h ch) = None"
    using that by (simp add: closeTcp_def)
  have "P (flush_loop K ch d h)" for d
    using assms(1) passed drain by (rule flush_rule)
  then have "P (log_event (Fin ch) (passed K (flush_loop K ch d h)))" for d
    by (intro fin passed)
  then have "P (fin_loop K ch d' (log_event (Fin ch) (passed K (flush_loop K ch d h))))" for d d'
    using passed by (rule fin_rule)
  then show ?thesis
    using assms(1) by (simp add: tcpClose_def Let_def shut close)
qed

section \<open>Log, clock and call counter only grow\<close>

definition grows :: "host \<Rightarrow> host \<Rightarrow> bool" where
  "grows h h' \<longleftrightarrow> prefix (h_log h) (h_log h') \<and> h_calls h \<le> h_calls h' \<and> h_now h \<le> h_now h'"

named_theorems growing

lemma grows_refl [growing, intro]: "grows h h"
  by (simp add: grows_def)

lemma grows_trans: "grows h h1 \<Longrightarrow> grows h1 h2 \<Longrightarrow> grows h h2"
  by (auto simp: grows_def)

lemma grows_small [growing]:
  "grows h h1 \<Longrightarrow> grows h (passed K h1)" "grows h h1 \<Longrightarrow> grows h (log_event e h1)"
  "grows h h1 \<Longrightarrow> grows h (on_tcp ch f h1)" "grows h h1 \<Longrightarrow> grows h (on_udp u g h1)"
  "grows h h1 \<Longrightarrow> grows h (took ch n h1)" "grows h h1 \<Longrightarrow> grows h (cleared ch h1)"
  by (auto simp: grows_def passed_def log_event_def on_tcp_def on_udp_def took_def cleared_def
      intro: prefix_order.trans)

lemma grows_close [growing]:
  "grows h h1 \<Longrightarrow> grows h (closeTcp ch h1)" "grows h h1 \<Longrightarrow> grows h (closeUdp u h1)"
  by (auto simp: closeTcp_def closeUdp_def split: option.splits intro!: growing)

lemma grows_drain [growing]: "grows h h1 \<Longrightarrow> grows h (snd (drain K ch h1))"
  by (rule drain_rule) (auto intro: growing)

lemma grows_drain_eq: "drain K ch h1 = (r, h2) \<Longrightarrow> grows h h1 \<Longrightarrow> grows h h2"
  using grows_drain [of h h1 K ch] by simp

lemma grows_tcpClose [growing]: "grows h h1 \<Longrightarrow> grows h (tcpClose K ch flush h1)"
  by (rule tcpClose_rule [where P = "grows h"]) (auto intro: growing)

lemma grows_connect: "grows h h1 \<Longrightarrow> grows h (tcpConnect K ch hostname port h1)"
  by (auto simp: tcpConnect_def cannot_start_def sys_def Let_def split: option.splits intro!: growing)

lemma grows_perform: "grows h (perform K a h)"
  by (cases a)
    (auto simp: perform_def tcpSend_def udpBind_def udpSend_def
      sys_def Let_def split: option.splits prod.splits intro!: grows_connect growing dest!: grows_drain_eq intro: grows_drain_eq)

lemma grows_performs: "grows h h1 \<Longrightarrow> grows h (fold (perform K) as h1)"
  by (induction as arbitrary: h1) (auto intro: grows_trans [OF _ grows_perform])

lemma grows_call: "call_sender C K c (s, h) = Inr (s', h') \<Longrightarrow> grows h h'"
  by (auto simp: call_sender_def Let_def split: sum.splits intro!: grows_performs growing)

section \<open>What a delivery relies on\<close>

lemma drain_slot:
  "ts_fd (h_tcp (snd (drain K ch h)) ch) = ts_fd (h_tcp h ch)
   \<and> ts_gen (h_tcp (snd (drain K ch h)) ch) = ts_gen (h_tcp h ch)
   \<and> ts_connecting (h_tcp (snd (drain K ch h)) ch) = ts_connecting (h_tcp h ch)
   \<and> ts_connected (h_tcp (snd (drain K ch h)) ch) = ts_connected (h_tcp h ch)
   \<and> ts_failedToStart (h_tcp (snd (drain K ch h)) ch) = ts_failedToStart (h_tcp h ch)"
  by (rule drain_rule) (auto simp: took_slot cleared_def on_tcp_def)

lemma on_host_simps [simp]: "fst (on_host f w) = fst w" "snd (on_host f w) = f (snd w)"
  by (simp_all add: on_host_def)

lemma on_host_pair: "(fst w, f (snd w)) = on_host f w"
  by (simp add: on_host_def)

definition holds :: "(fault \<Rightarrow> bool) \<Rightarrow> (world \<Rightarrow> bool) \<Rightarrow> world result \<Rightarrow> bool" where
  "holds E I r = (case r of Inl e \<Rightarrow> E e | Inr w \<Rightarrow> I w)"

lemma holds_simps [simp]: "holds E I (Inl e) = E e" "holds E I (Inr w) = I w"
  by (simp_all add: holds_def)

lemma holds_case:
  "holds E I r \<Longrightarrow> (\<And>w. r = Inr w \<Longrightarrow> I w \<Longrightarrow> holds E I (f w)) \<Longrightarrow>
   holds E I (case r of Inl e \<Rightarrow> Inl e | Inr w \<Rightarrow> f w)"
  by (cases r) auto

lemma holds_run:
  "I w \<Longrightarrow> list_all (\<lambda>f. \<forall>w. I w \<longrightarrow> holds E I (f w)) fs \<Longrightarrow> holds E I (run fs w)"
proof (induction fs arbitrary: w)
  case (Cons f fs)
  then have "holds E I (f w)" by (auto simp del: split_paired_All)
  with Cons show ?case by (cases "f w") (simp_all add: run.simps)
qed (simp add: run.simps)

text \<open>
  Reading ends for lack of fuel only while data keeps coming; from call number \<open>fuel - 1\<close> on
  a dry kernel has none.
\<close>

definition dry :: "kernel \<Rightarrow> nat \<Rightarrow> bool" where
  "dry K fuel \<longleftrightarrow> 0 < fuel \<and> (\<forall>i fd n. fuel \<le> Suc i \<longrightarrow> k_recv K i fd n = None)"

definition mark_connected :: "RaopTcp \<Rightarrow> host \<Rightarrow> host" where
  "mark_connected ch = on_tcp ch (\<lambda>t. t\<lparr>ts_connecting := False, ts_connected := True\<rparr>)"

text \<open>
  The laws an invariant \<open>I\<close> must have; \<open>up h ch\<close> is what the loop knows of a slot whose socket
  it has just handled as a connected one, and \<open>E\<close> the faults that may end a \<open>pump\<close>.
\<close>

locale loop_invariant =
  fixes C :: crypto and K :: kernel and fuel :: nat and E :: "fault \<Rightarrow> bool" and I :: "world \<Rightarrow> bool"
    and up :: "host \<Rightarrow> RaopTcp \<Rightarrow> bool"
  assumes patience: "E Out_of_fuel \<or> dry K fuel"
    and passed: "I w \<Longrightarrow> I (on_host (passed K) w)"
    and waited: "I w \<Longrightarrow> I (on_host (log_event (Waited n)) w)"
    and drained: "I w \<Longrightarrow> I (on_host (\<lambda>h. snd (drain K ch h)) w)"
    and plain_call: "I w \<Longrightarrow> c = Call_tick \<or> c = Call_udpDatagram u b a \<Longrightarrow> holds E I (call_sender C K c w)"
    and connect_failed: "I w \<Longrightarrow> ts_failedToStart (h_tcp (snd w) ch) \<noteq> None
        \<or> opened (snd w) ch \<and> ts_connecting (h_tcp (snd w) ch) \<Longrightarrow>
      holds E I (report C K ch (Call_tcpConnectFailed ch why) w)"
    and send_failure: "I w \<Longrightarrow> ts_failedToStart (h_tcp (snd w) ch) = None \<Longrightarrow> ts_sendFailed (h_tcp (snd w) ch) \<noteq> None \<Longrightarrow>
      holds E I (report C K ch (Call_tcpClosed ch why) w)"
    and closed: "I w \<Longrightarrow> up (snd w) ch \<Longrightarrow> holds E I (report C K ch (Call_tcpClosed ch why) w)"
    and connected: "I w \<Longrightarrow> opened (snd w) ch \<Longrightarrow> ts_connecting (h_tcp (snd w) ch) \<Longrightarrow>
      holds E I (call_sender C K (Call_tcpConnected ch l p) (on_host (mark_connected ch) w))"
    and connected_up: "I w \<Longrightarrow> same_tcp ch fd gen (snd w) \<Longrightarrow> ts_connecting (h_tcp (snd w) ch) \<Longrightarrow>
      call_sender C K (Call_tcpConnected ch l p) (on_host (mark_connected ch) w) = Inr w' \<Longrightarrow>
      same_tcp ch fd gen (snd w') \<Longrightarrow> up (snd w') ch"
    and data: "I w \<Longrightarrow> up (snd w) ch \<Longrightarrow> holds E I (call_sender C K (Call_tcpData ch b) w)"
    and data_up: "I w \<Longrightarrow> up (snd w) ch \<Longrightarrow> same_tcp ch fd gen (snd w) \<Longrightarrow>
      call_sender C K (Call_tcpData ch b) w = Inr w' \<Longrightarrow> same_tcp ch fd gen (snd w') \<Longrightarrow> up (snd w') ch"
    and up_open: "I w \<Longrightarrow> opened (snd w) ch \<Longrightarrow> \<not> ts_connecting (h_tcp (snd w) ch) \<Longrightarrow> up (snd w) ch"
    and up_passed: "up h ch \<Longrightarrow> up (passed K h) ch"
    and up_drained: "I w \<Longrightarrow> up (snd w) ch \<Longrightarrow> up (snd (drain K ch (snd w))) ch"
begin

lemma parked_holds: "I w \<Longrightarrow> holds E I (parked C K ch w)"
  by (auto simp: parked_def Let_def connect_failed send_failure split: option.split)

lemma udp_burst_holds: "I w \<Longrightarrow> holds E I (udp_burst C K u fd n w)"
proof (induction n arbitrary: w)
  case (Suc n)
  have *: "I (on_host (passed K) w)" "I (on_host (passed K) (on_host (passed K) w))"
    using Suc.prems by (simp_all add: passed)
  then show ?case
    by (auto simp: Let_def split: option.split intro!: Suc.IH holds_case plain_call)
qed simp

lemma tcp_recv_holds:
  "I w \<Longrightarrow> up (snd w) ch \<Longrightarrow> same_tcp ch fd gen (snd w) \<Longrightarrow> E Out_of_fuel \<or> 0 < n \<and> fuel \<le> n + h_calls (snd w) \<Longrightarrow>
   holds E I (tcp_recv C K ch fd n w)"
proof (induction n arbitrary: w)
  case (Suc n)
  define w1 where "w1 = on_host (passed K) w"
  have w1: "I w1" "up (snd w1) ch" "same_tcp ch fd gen (snd w1)" "h_calls (snd w1) = Suc (h_calls (snd w))"
    using Suc.prems by (simp_all add: w1_def passed up_passed same_tcp_def)
      (simp add: passed_def)
  have gen: "ts_gen (h_tcp (snd w) ch) = gen"
    using Suc.prems by (simp add: same_tcp_def)
  have "holds E I (tcp_recv C K ch fd n w')"
    if call: "call_sender C K (Call_tcpData ch b) w1 = Inr w'" and "I w'" and same: "same_tcp ch fd gen (snd w')"
      and got: "k_recv K (h_calls (snd w)) fd 16384 = Some b" for b w'
  proof (rule Suc.IH)
    show "up (snd w') ch" using data_up [OF w1(1,2,3) call same] .
    have "h_calls (snd w1) \<le> h_calls (snd w')"
      using grows_call [of C K "Call_tcpData ch b" "fst w1" "snd w1" "fst w'" "snd w'"] call by (simp add: grows_def)
    then have "fuel \<le> n + h_calls (snd w')" if "fuel \<le> Suc n + h_calls (snd w)" using that w1(4) by simp
    moreover have "0 < n" if "dry K fuel" "fuel \<le> Suc n + h_calls (snd w)"
      using that got by (cases n) (auto simp: dry_def)
    ultimately show "E Out_of_fuel \<or> 0 < n \<and> fuel \<le> n + h_calls (snd w')"
      using Suc.prems(4) patience by auto
  qed (use that in simp_all)
  then show ?case
    using w1 by (auto simp: Let_def gen w1_def [symmetric] split: option.split intro!: holds_case data closed)
qed auto

lemma drain_or_report_holds:
  assumes "I w" and "up (snd w) ch"
    and "\<And>w'. w' = on_host (\<lambda>h. snd (drain K ch h)) w \<Longrightarrow> I w' \<Longrightarrow> up (snd w') ch \<Longrightarrow> holds E I (f w')"
  shows "holds E I (drain_or_report C K ch f w)"
proof -
  obtain r h where drain: "drain K ch (snd w) = (r, h)" by fastforce
  then have "on_host (\<lambda>h. snd (drain K ch h)) w = (fst w, h)" by (simp add: on_host_def)
  then have "I (fst w, h)" "up h ch" "up h ch \<Longrightarrow> holds E I (f (fst w, h))"
    using assms(3) [OF refl drained [OF assms(1)]] drained [OF assms(1), of ch] up_drained [OF assms(1,2)] drain
    by simp_all
  then show ?thesis
    using closed [of "(fst w, h)" ch] by (simp add: drain_or_report_def drain split: option.split)
qed

lemma deliver_connecting_holds:
  assumes "I w" and "same_tcp ch fd gen (snd w)" and "ts_connecting (h_tcp (snd w) ch)"
  shows "holds E I (deliver_connecting C K ch fd re w)"
proof -
  define w1 where "w1 = on_host (passed K) w"
  define w3 where "w3 = on_host (passed K) (on_host (passed K) w1)"
  have w1: "I w1" "opened (snd w1) ch" "ts_connecting (h_tcp (snd w1) ch)" "ts_gen (h_tcp (snd w1) ch) = gen"
    using assms by (simp_all add: w1_def passed opened_def same_tcp_def)
  have w3: "I w3" "opened (snd w3) ch" "ts_connecting (h_tcp (snd w3) ch)" "same_tcp ch fd gen (snd w3)"
    using w1 assms by (simp_all add: w3_def w1_def passed opened_def same_tcp_def)
  have "holds E I (case call_sender C K (Call_tcpConnected ch l p) (on_host (mark_connected ch) w3) of
      Inl e \<Rightarrow> Inl e
    | Inr w' \<Rightarrow> if same_tcp ch fd gen (snd w') then drain_or_report C K ch Inr w' else Inr w')" for l p
    by (rule holds_case [OF connected [OF w3(1,2,3)]])
      (auto intro!: drain_or_report_holds connected_up [OF w3(1) w3(4) w3(3)])
  then show ?thesis
    using assms(1) connect_failed [OF w1(1)] w1
    by (auto simp: deliver_connecting_def Let_def sys_def w1_def [symmetric])
      (simp_all add: w3_def on_host_def mark_connected_def)
qed

lemma deliver_holds: "I w \<Longrightarrow> holds E I (deliver C K fuel er w)"
proof (cases er)
  case (Pair e re)
  assume I: "I w"
  show ?thesis
  proof (cases e)
    case (Udp_entry u fd gen)
    then show ?thesis using Pair I by (simp add: udp_burst_holds)
  next
    case (Tcp_entry ch fd gen)
    have receive: "holds E I (tcp_recv C K ch fd fuel w')"
      if "I w'" "up (snd w') ch" "same_tcp ch fd gen (snd w')" for w'
      using that patience by (auto simp: dry_def intro!: tcp_recv_holds)
    have "holds E I (deliver_connected C K fuel ch fd re w)"
      if "same_tcp ch fd gen (snd w)" and "\<not> ts_connecting (h_tcp (snd w) ch)"
    proof -
      have "up (snd w) ch" using that up_open [OF I] by (auto simp: opened_def same_tcp_def)
      moreover have "I (on_host (passed K) w)" "up (snd (on_host (passed K) w)) ch"
        using I \<open>up (snd w) ch\<close> by (simp_all add: passed up_passed)
      moreover have drained_same: "same_tcp ch fd gen (snd (on_host (\<lambda>h. snd (drain K ch h)) w))"
        using that drain_slot [of K ch "snd w"] by (simp add: same_tcp_def)
      moreover have "holds E I (drain_or_report C K ch (tcp_recv C K ch fd fuel) w)"
        using I \<open>up (snd w) ch\<close> drained_same by (intro drain_or_report_holds) (simp_all add: receive)
      moreover have "holds E I (drain_or_report C K ch Inr w)"
        using I \<open>up (snd w) ch\<close> by (rule drain_or_report_holds) simp
      ultimately show ?thesis
        using I that receive [of w] by (simp add: deliver_connected_def Let_def closed)
    qed
    then show ?thesis using Pair Tcp_entry I by (auto intro: deliver_connecting_holds)
  qed
qed

lemma pump_holds: "I w \<Longrightarrow> holds E I (pump C K fuel maxWait w)"
proof -
  assume I: "I w"
  have "holds E I (wait_and_deliver C K fuel maxWait w)" if "I w" for w
  proof -
    have "I (on_host (log_event (Waited n)) w)" "I (on_host (passed K) (on_host (log_event (Waited n)) w))" for n
      using that by (simp_all add: waited passed)
    then show ?thesis
      using that deliver_holds
      by (auto simp: wait_and_deliver_def wait_sockets_def sys_def Let_def on_host_def list_all_iff case_prod_beta
          intro!: holds_run)
  qed
  then show ?thesis
    unfolding pump_def using I by (intro holds_run) (auto intro: parked_holds plain_call)
qed

end

section \<open>Invariants of the host\<close>

text \<open>
  For an invariant of the host alone it is enough that the primitive steps keep it, whatever
  the sender asks for and the kernel answers.
\<close>

definition noted :: "event \<Rightarrow> bool" where
  "noted e \<longleftrightarrow> (case e of
       Io a \<Rightarrow> (case a of TcpConnect _ _ _ \<Rightarrow> False | TcpSend _ _ \<Rightarrow> False | _ \<Rightarrow> True)
     | Opened _ \<Rightarrow> False | Released _ \<Rightarrow> False | Sent _ _ \<Rightarrow> False | _ \<Rightarrow> True)"

definition enqueued :: "RaopTcp \<Rightarrow> bytes \<Rightarrow> host \<Rightarrow> host" where
  "enqueued ch b = on_tcp ch (\<lambda>t. t\<lparr>ts_out := ts_out t @ b\<rparr>)"

definition park_failure :: "RaopTcp \<Rightarrow> string \<Rightarrow> host \<Rightarrow> host" where
  "park_failure ch why = on_tcp ch (\<lambda>t. t\<lparr>ts_sendFailed := Some why\<rparr>)"

locale host_invariant =
  fixes C :: crypto and K :: kernel and J :: "host \<Rightarrow> bool"
  assumes new: "J (new_host now)"
    and idle: "J h \<Longrightarrow> J (h\<lparr>h_now := now\<rparr>)"
    and passed: "J h \<Longrightarrow> J (passed K h)"
    and took: "J h \<Longrightarrow> pending ch h \<Longrightarrow> n \<le> length (unsent (h_tcp h ch)) \<Longrightarrow> J (took ch n h)"
    and overrun: "J h \<Longrightarrow> pending ch h \<Longrightarrow> length (unsent (h_tcp h ch)) < n \<Longrightarrow> J (cleared ch (took ch n h))"
    and clear: "J h \<Longrightarrow> \<not> pending ch h \<Longrightarrow> J (cleared ch h)"
    and note_event: "J h \<Longrightarrow> noted e \<Longrightarrow> J (log_event e h)"
    and close: "J h \<Longrightarrow> J (closeTcp ch h)"
    and close_udp: "J h \<Longrightarrow> J (closeUdp u h)"
    and mark: "J h \<Longrightarrow> opened h ch \<Longrightarrow> J (mark_connected ch h)"
    and dial: "J h \<Longrightarrow> J (tcpConnect K ch hostname port (log_event (Io (TcpConnect ch hostname port)) h))"
    and bind_udp: "J h \<Longrightarrow> J (snd (udpBind K u h))"
    and queue: "J h \<Longrightarrow> opened h ch \<Longrightarrow> J (enqueued ch (toBytes b) (log_event (Io (TcpSend ch b)) h))"
    and not_queued: "J h \<Longrightarrow> \<not> opened h ch \<or> b = [] \<Longrightarrow> J (log_event (Io (TcpSend ch b)) h)"
    and park: "J h \<Longrightarrow> ts_connected (h_tcp h ch) \<Longrightarrow> J (park_failure ch why h)"
begin

lemma drained: "J h \<Longrightarrow> J (snd (drain K ch h))"
  by (rule drain_rule) (auto intro: passed took overrun clear)

lemma tcpSend_keeps:
  assumes "J h" and "h' = log_event (Io (TcpSend ch b)) h"
  shows "J (tcpSend K ch (toBytes b) h')"
proof (cases "\<not> opened h ch \<or> b = []")
  case True
  then show ?thesis
    using assms not_queued [OF assms(1) True] by (auto simp: tcpSend_def opened_def log_event_def toBytes_def)
next
  case False
  define h1 where "h1 = enqueued ch (toBytes b) h'"
  have h1: "J h1" using queue [OF assms(1)] False by (simp add: h1_def assms(2))
  have slot: "opened h' ch" using False by (simp add: assms(2) opened_def log_event_def)
  have "tcpSend K ch (toBytes b) h' =
      (if \<not> ts_connected (h_tcp h1 ch) then h1
       else case drain K ch h1 of
              (None, h) \<Rightarrow> h
            | (Some err, h) \<Rightarrow>
                if ts_sendFailed (h_tcp h ch) = None then park_failure ch (send_failed K err) h else h)"
    using False slot unfolding tcpSend_def h1_def enqueued_def park_failure_def
    by (simp add: toBytes_def Let_def)
  then show ?thesis
    using h1 drained [OF h1, of ch] drain_slot [of K ch h1]
    by (auto simp: park split: prod.split option.split)
qed

lemma tcpClose_keeps: "J h \<Longrightarrow> J (tcpClose K ch flush h)"
  by (rule tcpClose_rule [where P = J]) (auto simp: noted_def intro: passed drained note_event close)

lemma perform_keeps: "J h \<Longrightarrow> J (perform K a h)"
  using note_event [of h "Io a"]
  by (cases a)
    (auto simp: perform_def Let_def noted_def udpSend_def dial close_udp case_prod_beta
      intro!: tcpSend_keeps tcpClose_keeps note_event bind_udp passed)

lemma performs_keep: "J h \<Longrightarrow> J (fold (perform K) as h)"
  by (induction as arbitrary: h) (simp_all add: perform_keeps)

lemma call_keeps: "J (snd w) \<Longrightarrow> holds (\<lambda>_. True) (\<lambda>w. J (snd w)) (call_sender C K c w)"
  by (auto simp: call_sender_def Let_def noted_def split: sum.split prod.split intro!: performs_keep note_event)

end

sublocale host_invariant \<subseteq> loop: loop_invariant C K fuel "\<lambda>_. True" "\<lambda>w. J (snd w)" "\<lambda>_ _. True" for fuel
  by unfold_locales
    (auto simp: report_def noted_def del: split_paired_All intro!: call_keeps passed drained note_event close mark)

context host_invariant
begin

theorem reachable_keeps: "loop_reachable C K w \<Longrightarrow> J (snd w)"
proof (induction rule: loop_reachable.induct)
  case (app w c w')
  then show ?case using call_keeps [of w c] by simp
next
  case (pump w fuel maxWait w')
  then show ?case using loop.pump_holds [of w fuel maxWait] by simp
qed (simp_all add: new idle)

end

end
