(* ===== verification/Host_Properties.thy ===== *)
theory Host_Properties
  imports Host_Invariant "HOL-Library.Multiset"
begin

text \<open>
  What the bundled host guarantees: its slots stay well-formed, no socket is leaked or closed
  twice, the bytes the kernel takes are those the sender queued, in order.
\<close>

section \<open>A run\<close>

text \<open>A kernel on which everything works, and the loop after \<open>start\<close> on it.\<close>

definition demo_kernel :: kernel where
  "demo_kernel = \<lparr>k_delay = (\<lambda>_. 10), k_wall = (\<lambda>_. 0), k_strerror = (\<lambda>_. ''error''), k_inet_pton = (\<lambda>_. True),
     k_resolve = (\<lambda>_ n. Some n), k_socket = (\<lambda>i. Some (3 + i)), k_errno = (\<lambda>_. EAGAIN), k_connect = (\<lambda>_ _ _ _. True),
     k_bind = (\<lambda>_ _. True), k_getsockname = (\<lambda>i _. Some \<lparr>ep_ip = ''10.0.0.1'', ep_port = 6000 + of_nat i\<rparr>),
     k_getpeername = (\<lambda>_ _. Some \<lparr>ep_ip = ''10.0.0.2'', ep_port = 7000\<rparr>), k_so_error = (\<lambda>_ _. None),
     k_send = (\<lambda>_ _ b. 1), k_recv = (\<lambda>_ _ _. None), k_recvfrom = (\<lambda>_ _ _. None),
     k_poll = (\<lambda>_ _ _. (0, []))\<rparr>"

lemma start_actions:
  assumes "s_state s = Idle" and "tp \<noteq> 0" and "cp \<noteq> 0" and "ap \<noteq> 0"
  shows "\<exists>t. start C hostname port name tp cp ap s = Inr t
    \<and> s_out t = s_out s @ [UdpBind UdpTiming, UdpBind UdpControl, UdpBind UdpAudio, TcpConnect TcpControl hostname port]"
proof -
  have "s_out (fresh_ids C u) = s_out u" for u
    by (simp add: fresh_ids_def rand32_def rand64_def rand16_def draw_def Let_def)
  with assms show ?thesis
    by (simp add: start_def run.simps(2) [of "stop C"] stop_def run_simps reset_session_def arm_def emit_def)
qed

lemma demo_started:
  "\<exists>w. loop_reachable demo_crypto demo_kernel w \<and> ts_fd (h_tcp (snd w) TcpControl) = Some 13
     \<and> us_fd (h_udp (snd w) UdpAudio) = Some 9
     \<and> h_log (snd w) = [Notify (Call_start ''10.0.0.2'' 7000 ''Kitchen'' 6002 6005 6008),
          Io (UdpBind UdpTiming), Opened 3, Bound UdpTiming 6002,
          Io (UdpBind UdpControl), Opened 6, Bound UdpControl 6005,
          Io (UdpBind UdpAudio), Opened 9, Bound UdpAudio 6008,
          Io (TcpConnect TcpControl ''10.0.0.2'' 7000), Opened 13]"
proof -
  let ?c = "Call_start ''10.0.0.2'' 7000 ''Kitchen'' 6002 6005 6008"
  let ?s = "(new_sender 0 0)\<lparr>s_now := 0, s_wall := 0\<rparr>"
  obtain t where t: "start demo_crypto ''10.0.0.2'' 7000 ''Kitchen'' 6002 6005 6008 ?s = Inr t"
      "s_out t = [UdpBind UdpTiming, UdpBind UdpControl, UdpBind UdpAudio, TcpConnect TcpControl ''10.0.0.2'' 7000]"
    using start_actions [of ?s 6002 6005 6008 demo_crypto "''10.0.0.2''" 7000 "''Kitchen''"]
    by (auto simp: new_sender_def)
  define h where "h = fold (perform demo_kernel) (s_out t) (log_event (Notify ?c) (new_host 0))"
  have call: "call_sender demo_crypto demo_kernel ?c (new_sender 0 0, new_host 0) = Inr (t, h)"
    using t(1) by (simp add: call_sender_def apply_call_def h_def new_host_def demo_kernel_def new_sender_def)
  have h: "ts_fd (h_tcp h TcpControl) = Some 13 \<and> us_fd (h_udp h UdpAudio) = Some 9
     \<and> h_log h = [Notify ?c, Io (UdpBind UdpTiming), Opened 3, Bound UdpTiming 6002,
          Io (UdpBind UdpControl), Opened 6, Bound UdpControl 6005,
          Io (UdpBind UdpAudio), Opened 9, Bound UdpAudio 6008,
          Io (TcpConnect TcpControl ''10.0.0.2'' 7000), Opened 13]"
    by (simp add: h_def t(2) perform_def udpBind_def tcpConnect_def sys_def Let_def closeUdp_def closeTcp_def
        on_udp_def on_tcp_def log_event_def passed_def new_host_def demo_kernel_def reset_slot_def)
  have "loop_reachable demo_crypto demo_kernel (t, h)"
    using call h
    by (intro loop_reachable.app [OF loop_reachable.new])
      (auto simp: app_call_def call_ok_def ports_agree_def bound_ports_def List.map_filter_def new_host_def)
  then show ?thesis using h by (intro exI [of _ "(t, h)"]) simp
qed

section \<open>Well-formed slots\<close>

definition dials :: "RaopTcp \<Rightarrow> event list \<Rightarrow> nat" where
  "dials ch es = length (filter (\<lambda>e. case e of Io (TcpConnect ch' _ _) \<Rightarrow> ch' = ch | _ \<Rightarrow> False) es)"

definition slot_wf :: "TcpSlot \<Rightarrow> bool" where
  "slot_wf t \<longleftrightarrow> (case ts_fd t of
       None \<Rightarrow> \<not> ts_connecting t \<and> \<not> ts_connected t \<and> ts_out t = [] \<and> ts_sendFailed t = None
     | Some _ \<Rightarrow> ts_failedToStart t = None \<and> ts_connected t = (\<not> ts_connecting t)
         \<and> (ts_connecting t \<longrightarrow> ts_sendFailed t = None))"

definition tcp_slot_ok :: "RaopTcp \<Rightarrow> host \<Rightarrow> bool" where
  "tcp_slot_ok ch h \<longleftrightarrow> slot_wf (h_tcp h ch) \<and> ts_gen (h_tcp h ch) = of_nat (dials ch (h_log h))"

lemma dials_append [simp]: "dials ch (es @ fs) = dials ch es + dials ch fs"
  by (simp add: dials_def)

lemma dials_one [simp]:
  "dials ch [] = 0"
  "dials ch (e # es) = (case e of Io (TcpConnect ch' _ _) \<Rightarrow> if ch' = ch then 1 else 0 | _ \<Rightarrow> 0) + dials ch es"
  by (auto simp: dials_def split: event.split action.split)

lemmas host_ops = passed_def took_def cleared_def log_event_def on_tcp_def on_udp_def closeTcp_def closeUdp_def
  mark_connected_def enqueued_def park_failure_def reset_slot_def cannot_start_def opened_def pending_def

text \<open>How an attempt to connect, and one to bind, can go.\<close>

definition redialled :: "RaopTcp \<Rightarrow> host \<Rightarrow> TcpSlot" where
  "redialled ch h = (reset_slot (h_tcp h ch))\<lparr>ts_gen := ts_gen (h_tcp h ch) + 1\<rparr>"

lemma tcpConnect_cases:
  obtains (unstarted) why es where
    "h_tcp (tcpConnect K ch hostname port h) = (h_tcp h)(ch := (redialled ch h)\<lparr>ts_failedToStart := Some why\<rparr>)"
    "h_log (tcpConnect K ch hostname port h) = h_log (closeTcp ch h) @ es"
    "es = [] \<or> (\<exists>fd. es = [Opened fd, Released fd])"
  | (dialling) fd where
    "h_tcp (tcpConnect K ch hostname port h) = (h_tcp h)(ch := (redialled ch h)\<lparr>ts_fd := Some fd, ts_connecting := True\<rparr>)"
    "h_log (tcpConnect K ch hostname port h) = h_log (closeTcp ch h) @ [Opened fd]"
proof -
  let ?n = "h_calls h"
  have calls: "h_calls (closeTcp ch h) = ?n" and slots: "h_tcp (closeTcp ch h) = (h_tcp h)(ch := reset_slot (h_tcp h ch))"
    by (simp_all add: closeTcp_def on_tcp_def log_event_def split: option.split)
  note simps = tcpConnect_def sys_def Let_def cannot_start_def on_tcp_def log_event_def passed_def
    redialled_def calls slots reset_slot_def
  show thesis
  proof (cases "k_resolve K ?n hostname")
    case None
    then show thesis by (intro unstarted [of _ "[]"]) (simp_all add: simps)
  next
    case resolved: (Some ip)
    show thesis
    proof (cases "k_socket K (Suc ?n)")
      case None
      with resolved show thesis by (intro unstarted [of _ "[]"]) (simp_all add: simps)
    next
      case made: (Some fd)
      show thesis
      proof (cases "\<not> k_connect K (Suc (Suc ?n)) fd ip port \<and> \<not> connectInProgress (k_errno K (Suc (Suc ?n)))")
        case True
        with resolved made show thesis by (intro unstarted [of _ "[Opened fd, Released fd]"]) (simp_all add: simps)
      next
        case False
        with resolved made show thesis by (intro dialling) (auto simp: simps)
      qed
    qed
  qed
qed

lemma tcpConnect_udp: "h_udp (tcpConnect K ch hostname port h) = h_udp h"
  by (auto simp: tcpConnect_def sys_def Let_def host_ops split: option.split)

lemma udpBind_cases:
  obtains (unbound) es where
    "h_udp (snd (udpBind K u h)) = (h_udp h)(u := (h_udp h u)\<lparr>us_fd := None, us_gen := us_gen (h_udp h u) + 1\<rparr>)"
    "h_log (snd (udpBind K u h)) = h_log (closeUdp u h) @ es"
    "es = [] \<or> (\<exists>fd. es = [Opened fd, Released fd])"
  | (bound) fd where
    "h_udp (snd (udpBind K u h)) = (h_udp h)(u := (h_udp h u)\<lparr>us_gen := us_gen (h_udp h u) + 1, us_fd := Some fd\<rparr>)"
    "h_log (snd (udpBind K u h)) = h_log (closeUdp u h) @ [Opened fd]"
proof -
  let ?n = "h_calls h"
  have calls: "h_calls (closeUdp u h) = ?n"
    and slots: "h_udp (closeUdp u h) = (h_udp h)(u := (h_udp h u)\<lparr>us_fd := None\<rparr>)"
    by (simp_all add: closeUdp_def on_udp_def log_event_def split: option.split)
  note simps = udpBind_def sys_def Let_def on_udp_def log_event_def passed_def calls slots
  show thesis
  proof (cases "k_socket K ?n")
    case None
    then show thesis by (intro unbound [of "[]"]) (simp_all add: simps)
  next
    case made: (Some fd)
    let ?local = "k_getsockname K (Suc (Suc ?n)) fd"
    show thesis
    proof (cases "k_bind K (Suc ?n) fd \<and> (case ?local of None \<Rightarrow> 0 | Some a \<Rightarrow> ep_port a) \<noteq> 0")
      case True
      with made show thesis by (intro bound [of fd]) (simp_all add: simps)
    next
      case False
      with made show thesis by (intro unbound [of "[Opened fd, Released fd]"]) (auto simp: simps)
    qed
  qed
qed

lemma udpBind_tcp: "h_tcp (snd (udpBind K u h)) = h_tcp h"
  by (auto simp: udpBind_def sys_def Let_def host_ops split: option.split)

lemma closeTcp_log: "h_log (closeTcp ch h) = h_log h @ (case ts_fd (h_tcp h ch) of None \<Rightarrow> [] | Some fd \<Rightarrow> [Released fd])"
  by (simp add: host_ops split: option.split)

lemma closeUdp_log: "h_log (closeUdp u h) = h_log h @ (case us_fd (h_udp h u) of None \<Rightarrow> [] | Some fd \<Rightarrow> [Released fd])"
  by (simp add: host_ops split: option.split)

interpretation slots: host_invariant C K "tcp_slot_ok ch" for C K ch
proof
  fix h ch' hostname port assume "tcp_slot_ok ch h"
  then show "tcp_slot_ok ch (tcpConnect K ch' hostname port (log_event (Io (TcpConnect ch' hostname port)) h))"
    by (cases rule: tcpConnect_cases [of K ch' hostname port "log_event (Io (TcpConnect ch' hostname port)) h"])
      (auto simp: tcp_slot_ok_def closeTcp_log log_event_def redialled_def reset_slot_def slot_wf_def split: option.splits)
next
  fix h u assume "tcp_slot_ok ch h"
  then show "tcp_slot_ok ch (snd (udpBind K u h))"
    by (cases rule: udpBind_cases [of K u h])
      (auto simp: tcp_slot_ok_def closeUdp_log udpBind_tcp split: option.splits)
qed (auto simp: tcp_slot_ok_def host_ops slot_wf_def noted_def new_host_def split: option.splits event.splits action.splits)

section \<open>Sockets\<close>

definition sockets :: "event list \<Rightarrow> sock multiset \<times> sock multiset" where
  "sockets es = (mset (List.map_filter (\<lambda>e. case e of Opened fd \<Rightarrow> Some fd | _ \<Rightarrow> None) es),
     mset (List.map_filter (\<lambda>e. case e of Released fd \<Rightarrow> Some fd | _ \<Rightarrow> None) es))"

definition fd_set :: "sock option \<Rightarrow> sock multiset" where
  "fd_set fd = (case fd of None \<Rightarrow> {#} | Some f \<Rightarrow> {#f#})"

definition held_sockets :: "host \<Rightarrow> sock multiset" where
  "held_sockets h = fd_set (ts_fd (h_tcp h TcpControl)) + fd_set (ts_fd (h_tcp h TcpEvent))
     + fd_set (us_fd (h_udp h UdpAudio)) + fd_set (us_fd (h_udp h UdpControl)) + fd_set (us_fd (h_udp h UdpTiming))"

definition balanced :: "host \<Rightarrow> bool" where
  "balanced h \<longleftrightarrow> fst (sockets (h_log h)) = snd (sockets (h_log h)) + held_sockets h"

lemma sockets_simps [simp]:
  "fst (sockets []) = {#}" "snd (sockets []) = {#}"
  "fst (sockets (es @ fs)) = fst (sockets es) + fst (sockets fs)"
  "snd (sockets (es @ fs)) = snd (sockets es) + snd (sockets fs)"
  "fst (sockets (e # es)) = (case e of Opened fd \<Rightarrow> {#fd#} | _ \<Rightarrow> {#}) + fst (sockets es)"
  "snd (sockets (e # es)) = (case e of Released fd \<Rightarrow> {#fd#} | _ \<Rightarrow> {#}) + snd (sockets es)"
  by (auto simp: sockets_def List.map_filter_def split: event.split)

lemma fd_set_simps [simp]: "fd_set None = {#}" "fd_set (Some f) = {#f#}"
  by (simp_all add: fd_set_def)

lemma balanced_closeTcp: "balanced h \<Longrightarrow> balanced (closeTcp ch h)"
  by (cases ch) (auto simp: balanced_def held_sockets_def host_ops split: option.split)

lemma balanced_closeUdp: "balanced h \<Longrightarrow> balanced (closeUdp u h)"
  by (cases u) (auto simp: balanced_def held_sockets_def host_ops split: option.split)

interpretation socks: host_invariant C K balanced for C K
proof
  fix h ch hostname port assume "balanced h"
  define h1 where "h1 = log_event (Io (TcpConnect ch hostname port)) h"
  have "balanced h1" using \<open>balanced h\<close> by (simp add: h1_def balanced_def held_sockets_def log_event_def)
  then have "balanced (closeTcp ch h1)" by (rule balanced_closeTcp)
  then show "balanced (tcpConnect K ch hostname port (log_event (Io (TcpConnect ch hostname port)) h))"
    unfolding h1_def [symmetric]
    by (cases ch; cases rule: tcpConnect_cases [of K ch hostname port h1])
      (auto simp: balanced_def held_sockets_def redialled_def host_ops tcpConnect_udp split: option.splits)
next
  fix h u assume "balanced h"
  then have "balanced (closeUdp u h)" by (rule balanced_closeUdp)
  then show "balanced (snd (udpBind K u h))"
    by (cases u; cases rule: udpBind_cases [of K u h])
      (auto simp: balanced_def held_sockets_def host_ops udpBind_tcp split: option.splits)
next
  fix h ch n assume "balanced h"
  then show "balanced (took ch n h)" by (cases ch) (auto simp: balanced_def held_sockets_def host_ops)
next
  fix h ch n assume "balanced h"
  then show "balanced (cleared ch (took ch n h))" by (cases ch) (auto simp: balanced_def held_sockets_def host_ops)
next
  fix h ch assume "balanced h"
  then show "balanced (closeTcp ch h)" by (rule balanced_closeTcp)
next
  fix h u assume "balanced h"
  then show "balanced (closeUdp u h)" by (rule balanced_closeUdp)
next
  fix h ch assume "balanced h"
  then show "balanced (cleared ch h)" by (cases ch) (auto simp: balanced_def held_sockets_def host_ops)
next
  fix h ch assume "balanced h"
  then show "balanced (mark_connected ch h)" by (cases ch) (auto simp: balanced_def held_sockets_def host_ops)
next
  fix h ch b assume "balanced h"
  then show "balanced (enqueued ch (toBytes b) (log_event (Io (TcpSend ch b)) h))"
    by (cases ch) (auto simp: balanced_def held_sockets_def host_ops)
next
  fix h ch why assume "balanced h"
  then show "balanced (park_failure ch why h)" by (cases ch) (auto simp: balanced_def held_sockets_def host_ops)
qed (auto simp: balanced_def held_sockets_def noted_def host_ops new_host_def
    split: event.splits)

text \<open>
  C18. The host leaks no socket and closes none twice: in every reachable state the sockets it
  has opened are, each as often as it was opened, those it has closed and those its slots hold;
  when the loop is destroyed, every socket opened has been closed exactly once per opening.
\<close>

theorem host_no_leak:
  assumes "loop_reachable C K w"
  shows "fst (sockets (h_log (snd w))) = snd (sockets (h_log (snd w))) + held_sockets (snd w)
    \<and> fst (sockets (h_log (destroy (snd w)))) = snd (sockets (h_log (destroy (snd w))))"
proof -
  have b: "balanced (snd w)" using assms by (rule socks.reachable_keeps)
  then have held: "fst (sockets (h_log (snd w))) = snd (sockets (h_log (snd w))) + held_sockets (snd w)"
    by (simp add: balanced_def)
  have "balanced (destroy (snd w))"
    using b by (simp add: destroy_def balanced_closeTcp balanced_closeUdp)
  moreover have "held_sockets (destroy (snd w)) = {#}"
    by (simp add: held_sockets_def destroy_def host_ops split: option.split)
  ultimately show ?thesis
    using held by (simp add: balanced_def)
qed

theorem host_no_leak_witness:
  "\<exists>w. loop_reachable demo_crypto demo_kernel w \<and> us_fd (h_udp (snd w) UdpAudio) = Some 9
    \<and> fst (sockets (h_log (snd w))) = snd (sockets (h_log (snd w))) + held_sockets (snd w)
    \<and> fst (sockets (h_log (destroy (snd w)))) = snd (sockets (h_log (destroy (snd w))))"
  using demo_started host_no_leak by blast

section \<open>Bytes\<close>

text \<open>
  Per channel, since its last \<open>tcpConnect\<close>: the bytes the sender queued and the bytes the
  kernel took.
\<close>

fun wire_step :: "RaopTcp \<Rightarrow> event \<Rightarrow> bytes \<times> bytes \<Rightarrow> bytes \<times> bytes" where
  "wire_step ch (Io (TcpConnect ch' hostname port)) (q, s) = (if ch' = ch then ([], []) else (q, s))"
| "wire_step ch (Io (TcpSend ch' b)) (q, s) = (if ch' = ch then (q @ toBytes b, s) else (q, s))"
| "wire_step ch (Sent ch' b) (q, s) = (if ch' = ch then (q, s @ b) else (q, s))"
| "wire_step ch e (q, s) = (q, s)"

definition queued_bytes :: "RaopTcp \<Rightarrow> event list \<Rightarrow> bytes" where
  "queued_bytes ch es = fst (fold (wire_step ch) es ([], []))"

definition wire_bytes :: "RaopTcp \<Rightarrow> event list \<Rightarrow> bytes" where
  "wire_bytes ch es = snd (fold (wire_step ch) es ([], []))"

definition in_order :: "RaopTcp \<Rightarrow> host \<Rightarrow> bool" where
  "in_order ch h \<longleftrightarrow> prefix (wire_bytes ch (h_log h)) (queued_bytes ch (h_log h))
     \<and> (opened h ch \<longrightarrow> queued_bytes ch (h_log h) = wire_bytes ch (h_log h) @ unsent (h_tcp h ch))
     \<and> ts_outOff (h_tcp h ch) \<le> length (ts_out (h_tcp h ch)) \<and> slot_wf (h_tcp h ch)"

lemma wire_append [simp]:
  "queued_bytes ch (es @ fs) = fst (fold (wire_step ch) fs (queued_bytes ch es, wire_bytes ch es))"
  "wire_bytes ch (es @ fs) = snd (fold (wire_step ch) fs (queued_bytes ch es, wire_bytes ch es))"
  "queued_bytes ch [] = []" "wire_bytes ch [] = []"
  by (simp_all add: queued_bytes_def wire_bytes_def)

lemma unsent_split: "drop m xs = take n (drop m xs) @ drop (m + n) xs"
  by (metis add.commute append_take_drop_id drop_drop)

lemma in_order_wf: "in_order ch h \<Longrightarrow> pending ch' h \<Longrightarrow> ch' = ch \<Longrightarrow> opened h ch"
  by (auto simp: in_order_def slot_wf_def pending_def opened_def split: option.splits)

interpretation order: host_invariant C K "in_order ch" for C K ch
proof
  fix h ch' hostname port assume h: "in_order ch h"
  then show "in_order ch (tcpConnect K ch' hostname port (log_event (Io (TcpConnect ch' hostname port)) h))"
    by (cases rule: tcpConnect_cases [of K ch' hostname port "log_event (Io (TcpConnect ch' hostname port)) h"];
        cases "ch' = ch")
      (auto simp: in_order_def closeTcp_log log_event_def redialled_def reset_slot_def slot_wf_def opened_def
        unsent_def split: option.splits)
next
  fix h u assume "in_order ch h"
  then show "in_order ch (snd (udpBind K u h))"
    by (cases rule: udpBind_cases [of K u h])
      (auto simp: in_order_def closeUdp_log udpBind_tcp opened_def split: option.splits)
next
  fix h ch' n assume h: "in_order ch h" and p: "pending ch' h" and n: "n \<le> length (unsent (h_tcp h ch'))"
  show "in_order ch (took ch' n h)"
    using h n in_order_wf [OF h p]
    by (cases "ch' = ch") (auto simp: in_order_def host_ops unsent_def slot_wf_def take_is_prefix unsent_split
      split: option.splits)
next
  fix h ch' n assume h: "in_order ch h" and p: "pending ch' h" and n: "length (unsent (h_tcp h ch')) < n"
  show "in_order ch (cleared ch' (took ch' n h))"
    using h n in_order_wf [OF h p]
    by (cases "ch' = ch") (auto simp: in_order_def host_ops unsent_def slot_wf_def split: option.splits)
next
  fix h ch' and b :: string assume h: "in_order ch h" and o: "opened h ch'"
  show "in_order ch (enqueued ch' (toBytes b) (log_event (Io (TcpSend ch' b)) h))"
    using h o by (cases "ch' = ch") (auto simp: in_order_def host_ops unsent_def slot_wf_def split: option.splits)
next
  fix h ch' and b :: string assume h: "in_order ch h" and o: "\<not> opened h ch' \<or> b = []"
  show "in_order ch (log_event (Io (TcpSend ch' b)) h)"
    using h o by (cases "ch' = ch") (auto simp: in_order_def host_ops unsent_def slot_wf_def toBytes_def split: option.splits)
qed (auto simp: in_order_def host_ops unsent_def slot_wf_def noted_def new_host_def split: option.splits event.splits action.splits)

text \<open>
  C14. TCP data leaves in order and exactly once: since the last \<open>tcpConnect\<close> of a channel, the
  bytes the kernel took are a prefix of the bytes the sender queued, and while the socket is
  open what is missing is exactly what the slot still holds, whatever the kernel accepts at a
  time and whatever closes and reopenings come in between.
\<close>

theorem host_wire_order:
  assumes "loop_reachable C K w"
  shows "prefix (wire_bytes ch (h_log (snd w))) (queued_bytes ch (h_log (snd w)))
    \<and> (opened (snd w) ch \<longrightarrow>
      queued_bytes ch (h_log (snd w)) = wire_bytes ch (h_log (snd w)) @ unsent (h_tcp (snd w) ch))"
  using order.reachable_keeps [OF assms, of ch] by (simp_all add: in_order_def)

theorem host_wire_order_witness:
  "\<exists>w. loop_reachable demo_crypto demo_kernel w \<and> opened (snd w) TcpControl
    \<and> queued_bytes TcpControl (h_log (snd w)) = wire_bytes TcpControl (h_log (snd w)) @ unsent (h_tcp (snd w) TcpControl)"
proof -
  obtain w where w: "loop_reachable demo_crypto demo_kernel w" "opened (snd w) TcpControl"
    using demo_started by (auto simp: opened_def)
  then show ?thesis using host_wire_order [OF w(1), of TcpControl] by blast
qed

section \<open>How long \<open>pump\<close> blocks\<close>

text \<open>
  \<open>pump\<close> blocks for no longer than it was asked to and never for a negative time, which
  \<open>poll\<close> would take for ever; a deadline that is due is not waited for, and with one ahead it
  sleeps past the point one microsecond before it, unless capped, and less than a millisecond
  longer than needed.
\<close>

theorem pump_wait_bounds:
  "0 \<le> pump_wait maxWait dl now \<and> pump_wait maxWait dl now \<le> max 0 maxWait
   \<and> (case dl of
        None \<Rightarrow> pump_wait maxWait dl now = max 0 maxWait
      | Some d \<Rightarrow>
          if d \<le> now then pump_wait maxWait dl now = 0
          else pump_wait maxWait dl now * 1000000 < d - now + 1000000
             \<and> (pump_wait maxWait dl now = max 0 maxWait \<or> d - now < pump_wait maxWait dl now * 1000000 + 1000))"
proof (cases dl)
  case (Some d)
  define q where "q = (d - now + 999000) div 1000000"
  have "q * 1000000 + (d - now + 999000) mod 1000000 = d - now + 999000"
    unfolding q_def by (rule div_mult_mod_eq)
  moreover have "0 \<le> (d - now + 999000) mod 1000000" "(d - now + 999000) mod 1000000 < 1000000"
    by simp_all
  ultimately have "q * 1000000 \<le> d - now + 999000" "d - now + 999000 < q * 1000000 + 1000000"
    by linarith+
  then show ?thesis using Some by (auto simp: pump_wait_def Let_def q_def [symmetric] min_def max_def)
qed (simp add: pump_wait_def)

end
