(* ===== verification/Host_Contract.thy ===== *)
theory Host_Contract
  imports Host_Properties Sender_Watchdog
begin

text \<open>
  The contract between host and sender (\<open>src/src/raop_io.h\<close>, the header note of
  \<open>src/src/raop_loop.cpp\<close>) as an automaton per TCP channel, and the loop with the whole sender
  in it: every run of \<open>pump\<close> obeys the contract, and the sender is only ever driven through
  the states its own theorems are about.
\<close>

section \<open>The host's contract\<close>

text \<open>
  What the sender may count on, per TCP channel: a connection is reported made or failed only
  while one is being made, data and a close only on one that is made, and after a failure or a
  close nothing more until the sender connects again. \<open>tcpConnect\<close> and \<open>tcpClose\<close> are the
  sender's, at any time. \<open>None\<close> is a breach.
\<close>

datatype link = Down | Dialing | Up

fun link_step :: "RaopTcp \<Rightarrow> event \<Rightarrow> link \<Rightarrow> link option" where
  "link_step ch (Io (TcpConnect ch' _ _)) l = Some (if ch' = ch then Dialing else l)"
| "link_step ch (Io (TcpClose ch' _)) l = Some (if ch' = ch then Down else l)"
| "link_step ch (Notify (Call_tcpConnected ch' _ _)) l =
     (if ch' \<noteq> ch then Some l else if l = Dialing then Some Up else None)"
| "link_step ch (Notify (Call_tcpConnectFailed ch' _)) l =
     (if ch' \<noteq> ch then Some l else if l = Dialing then Some Down else None)"
| "link_step ch (Notify (Call_tcpData ch' _)) l =
     (if ch' \<noteq> ch then Some l else if l = Up then Some Up else None)"
| "link_step ch (Notify (Call_tcpClosed ch' _)) l =
     (if ch' \<noteq> ch then Some l else if l = Up then Some Down else None)"
| "link_step ch _ l = Some l"

definition link_after :: "RaopTcp \<Rightarrow> event list \<Rightarrow> link option" where
  "link_after ch es = fold (\<lambda>e l. Option.bind l (link_step ch e)) es (Some Down)"

definition link_of :: "TcpSlot \<Rightarrow> link" where
  "link_of t = (if ts_failedToStart t \<noteq> None then Dialing
     else case ts_fd t of None \<Rightarrow> Down | Some _ \<Rightarrow> if ts_connecting t then Dialing else Up)"

definition linked :: "RaopTcp \<Rightarrow> host \<Rightarrow> bool" where
  "linked ch h \<longleftrightarrow> link_after ch (h_log h) = Some (link_of (h_tcp h ch))"

lemma link_append [simp]:
  "link_after ch (es @ fs) = fold (\<lambda>e l. Option.bind l (link_step ch e)) fs (link_after ch es)"
  by (simp add: link_after_def)

lemma link_quiet [simp]:
  "link_step ch (Sent ch' b) = Some" "link_step ch (Released fd) = Some" "link_step ch (Opened fd) = Some"
  "link_step ch (Fin ch') = Some" "link_step ch (Waited n) = Some" "link_step ch (Bound u port) = Some"
  "link_step ch (Datagram u a b) = Some"
  by (rule ext; simp)+

lemmas link_defs = linked_def link_of_def host_ops

lemma linked_small:
  "linked ch h \<Longrightarrow> linked ch (passed K h)"
  "linked ch h \<Longrightarrow> linked ch (took ch' n h)"
  "linked ch h \<Longrightarrow> linked ch (cleared ch' h)"
  "linked ch h \<Longrightarrow> linked ch (enqueued ch' b h)"
  "linked ch h \<Longrightarrow> linked ch (park_failure ch' why h)"
  "linked ch h \<Longrightarrow> linked ch (closeUdp u h)"
  "linked ch h \<Longrightarrow> linked ch (log_event (Fin ch') h)"
  "linked ch h \<Longrightarrow> linked ch (log_event (Waited w) h)"
  "linked ch h \<Longrightarrow> linked ch (log_event (Bound u port) h)"
  "linked ch h \<Longrightarrow> linked ch (log_event (Datagram u a b) h)"
  by (auto simp: link_defs split: option.splits)

lemma linked_drain: "linked ch h \<Longrightarrow> linked ch (snd (drain K ch' h))"
  by (rule drain_rule) (auto intro: linked_small)

lemma linked_other [simp]:
  "ch' \<noteq> ch \<Longrightarrow> linked ch (closeTcp ch' h) = linked ch h"
  "ch' \<noteq> ch \<Longrightarrow> linked ch (mark_connected ch' h) = linked ch h"
  by (auto simp: link_defs split: option.splits)

lemma link_drain: "link_after ch (h_log (snd (drain K ch' h))) = link_after ch (h_log h)"
  by (rule drain_rule) (auto simp: host_ops)

lemma linked_connect:
  assumes "linked ch h"
  shows "linked ch (tcpConnect K ch' hostname port (log_event (Io (TcpConnect ch' hostname port)) h))"
  using assms
  by (cases rule: tcpConnect_cases [of K ch' hostname port "log_event (Io (TcpConnect ch' hostname port)) h"];
      cases "ch' = ch")
    (auto simp: linked_def link_of_def closeTcp_log log_event_def redialled_def reset_slot_def split: option.splits)

lemma linked_close:
  assumes "linked ch h"
  shows "linked ch (tcpClose K ch' flush (log_event (Io (TcpClose ch' flush)) h))"
proof (cases "ch' = ch")
  case True
  let ?down = "\<lambda>h. link_after ch (h_log h) = Some Down"
  have "?down (log_event (Io (TcpClose ch' flush)) h)"
    using assms True by (simp add: linked_def log_event_def)
  then show ?thesis
    by (rule tcpClose_rule [where P = ?down]) (auto simp: True link_drain link_defs split: option.split)
next
  case False
  then have "linked ch (log_event (Io (TcpClose ch' flush)) h)"
    using assms by (simp add: linked_def log_event_def)
  then show ?thesis
    by (rule tcpClose_rule [where P = "linked ch"]) (auto simp: False intro: linked_small linked_drain)
qed

lemma linked_send:
  assumes "linked ch h"
  shows "linked ch (tcpSend K ch' b (log_event (Io (TcpSend ch' b')) h))"
proof -
  define h1 where "h1 = log_event (Io (TcpSend ch' b')) h"
  have h1: "linked ch h1" using assms by (simp add: h1_def linked_def log_event_def)
  have queued: "linked ch (enqueued ch' b h1)" using h1 by (rule linked_small)
  show ?thesis
    using h1 queued linked_drain [OF queued, of K ch'] linked_small(5)
    by (auto simp: tcpSend_def Let_def enqueued_def park_failure_def h1_def [symmetric] split: prod.split option.split)
qed

lemma linked_bind: "linked ch h \<Longrightarrow> linked ch (snd (udpBind K u h))"
  by (cases rule: udpBind_cases [of K u h])
    (auto simp: linked_def link_of_def closeUdp_log udpBind_tcp split: option.splits)

lemma linked_io: "linked ch h \<Longrightarrow> (\<And>l. link_step ch (Io a) l = Some l) \<Longrightarrow> linked ch (log_event (Io a) h)"
  by (simp add: linked_def log_event_def)

lemma linked_perform: "linked ch h \<Longrightarrow> linked ch (perform K a h)"
  by (cases a)
    (auto simp: perform_def Let_def udpSend_def case_prod_beta linked_io
      intro!: linked_connect linked_close linked_send linked_small linked_bind)

lemma linked_performs: "linked ch h \<Longrightarrow> linked ch (fold (perform K) as h)"
  by (induction as arbitrary: h) (simp_all add: linked_perform)

section \<open>A socket that was not reopened\<close>

definition steady :: "RaopTcp \<Rightarrow> host \<Rightarrow> host \<Rightarrow> bool" where
  "steady ch h0 h \<longleftrightarrow> (opened h ch \<longrightarrow> opened h0 ch \<and> ts_connecting (h_tcp h ch) = ts_connecting (h_tcp h0 ch))"

lemma steady_small:
  "steady ch h0 h \<Longrightarrow> steady ch h0 (passed K h)"
  "steady ch h0 h \<Longrightarrow> steady ch h0 (took ch' n h)"
  "steady ch h0 h \<Longrightarrow> steady ch h0 (cleared ch' h)"
  "steady ch h0 h \<Longrightarrow> steady ch h0 (enqueued ch' b h)"
  "steady ch h0 h \<Longrightarrow> steady ch h0 (park_failure ch' why h)"
  "steady ch h0 h \<Longrightarrow> steady ch h0 (closeTcp ch' h)"
  "steady ch h0 h \<Longrightarrow> steady ch h0 (closeUdp u h)"
  "steady ch h0 h \<Longrightarrow> steady ch h0 (log_event e h)"
  by (auto simp: steady_def host_ops split: option.splits)

lemma steady_drain: "steady ch h0 h \<Longrightarrow> steady ch h0 (snd (drain K ch' h))"
  by (rule drain_rule) (auto intro: steady_small)

lemma steady_send: "steady ch h0 h \<Longrightarrow> steady ch h0 (tcpSend K ch' b h)"
  using steady_drain [of ch h0 "enqueued ch' b h" K ch'] steady_small(4) [of ch h0 h ch' b] steady_small(5)
  by (auto simp: tcpSend_def Let_def enqueued_def park_failure_def split: prod.split option.split)

lemma dials_grow: "grows h h' \<Longrightarrow> dials ch (h_log h) \<le> dials ch (h_log h')"
  by (auto simp: grows_def prefix_def)

lemma steady_perform:
  assumes "steady ch h0 h" and "dials ch (h_log (perform K a h)) = dials ch (h_log h)"
  shows "steady ch h0 (perform K a h)"
proof (cases a)
  case (TcpConnect ch' hostname port)
  have "ch' \<noteq> ch"
  proof
    assume "ch' = ch"
    then have "dials ch (h_log h) < dials ch (h_log (log_event (Io a) h))" by (simp add: TcpConnect log_event_def)
    also have "\<dots> \<le> dials ch (h_log (perform K a h))"
      by (rule dials_grow) (auto simp: TcpConnect perform_def intro: grows_connect)
    finally show False using assms(2) by simp
  qed
  then show ?thesis
    using assms(1)
    by (cases rule: tcpConnect_cases [of K ch' hostname port "log_event (Io a) h"])
      (auto simp: TcpConnect perform_def steady_def opened_def log_event_def)
next
  case (TcpClose ch' flush)
  have "steady ch h0 (log_event (Io (TcpClose ch' flush)) h)"
    using assms(1) by (rule steady_small)
  then have "steady ch h0 (tcpClose K ch' flush (log_event (Io (TcpClose ch' flush)) h))"
    by (rule tcpClose_rule [where P = "steady ch h0"]) (rule steady_small steady_drain; assumption)+
  then show ?thesis by (simp add: TcpClose perform_def)
next
  case (TcpSend ch' b)
  show ?thesis
    using assms(1) by (simp add: TcpSend perform_def steady_send steady_small)
next
  case (UdpBind u)
  show ?thesis
    using assms(1) by (simp add: UdpBind perform_def Let_def case_prod_beta steady_def opened_def udpBind_tcp log_event_def)
next
  case (UdpSend u to b)
  show ?thesis
    using assms(1) by (simp add: UdpSend perform_def Let_def udpSend_def steady_small)
qed (use assms(1) in \<open>simp_all add: perform_def Let_def steady_small\<close>)

lemma steady_performs:
  assumes "steady ch h0 h" and "dials ch (h_log (fold (perform K) as h)) = dials ch (h_log h)"
  shows "steady ch h0 (fold (perform K) as h)"
  using assms
proof (induction as arbitrary: h)
  case (Cons a as)
  let ?h = "perform K a h"
  have "dials ch (h_log h) \<le> dials ch (h_log ?h)" by (rule dials_grow [OF grows_perform])
  moreover have "dials ch (h_log ?h) \<le> dials ch (h_log (fold (perform K) as ?h))"
    by (rule dials_grow [OF grows_performs]) auto
  ultimately have "dials ch (h_log ?h) = dials ch (h_log h)"
    and "dials ch (h_log (fold (perform K) as ?h)) = dials ch (h_log ?h)"
    using Cons.prems(2) by simp_all
  then show ?case using Cons.IH [OF steady_perform [OF Cons.prems(1)]] by simp
qed simp

section \<open>The contract, through \<open>pump\<close>\<close>

text \<open>
  The generation counter has 32 bits: the code tells a reopened socket from the one it was
  handling as long as a channel is dialled fewer than \<open>2 ^ 32\<close> times.
\<close>

definition few :: "RaopTcp \<Rightarrow> host \<Rightarrow> bool" where
  "few ch h \<longleftrightarrow> dials ch (h_log h) < 2 ^ 32"

definition contract :: "host \<Rightarrow> bool" where
  "contract h \<longleftrightarrow> (\<forall>ch. tcp_slot_ok ch h \<and> (few ch h \<longrightarrow> linked ch h))"

definition socket_up :: "host \<Rightarrow> RaopTcp \<Rightarrow> bool" where
  "socket_up h ch \<longleftrightarrow> (few ch h \<longrightarrow> opened h ch \<and> \<not> ts_connecting (h_tcp h ch))"

lemma few_before: "grows h h' \<Longrightarrow> few ch h' \<Longrightarrow> few ch h"
  using dials_grow [of h h' ch] by (simp add: few_def)

lemma call_grows: "call_sender C K c w = Inr w' \<Longrightarrow> grows (snd w) (snd w')"
  using grows_call [of C K c "fst w" "snd w" "fst w'" "snd w'"] by simp

lemma few_same: "few ch (passed K h) = few ch h" "few ch (log_event (Waited w) h) = few ch h"
  by (simp_all add: few_def log_event_def)

text \<open>A call keeps the contract if announcing it does.\<close>

lemma contract_call:
  assumes "\<And>ch. tcp_slot_ok ch h"
    and "\<And>ch. few ch h \<Longrightarrow> linked ch (log_event (Notify c) h)"
  shows "holds (\<lambda>_. True) (\<lambda>w. contract (snd w)) (call_sender C K c (s, h))"
proof (cases "call_sender C K c (s, h)")
  case (Inr w')
  have "tcp_slot_ok ch (snd w')" for ch
    using slots.call_keeps [where ch = ch and w = "(s, h)" and C = C and K = K and c = c] assms(1) Inr by simp
  moreover have "linked ch (snd w')" if "few ch (snd w')" for ch
  proof -
    have "few ch h" using that few_before call_grows [OF Inr] by simp
    then show ?thesis
      using assms(2) [of ch] Inr
      by (auto simp: call_sender_def Let_def split: sum.splits intro!: linked_performs)
  qed
  ultimately show ?thesis by (simp add: Inr contract_def)
qed simp

lemma dials_same:
  assumes "tcp_slot_ok ch h" "tcp_slot_ok ch h'" "few ch h" "few ch h'" and "ts_gen (h_tcp h ch) = ts_gen (h_tcp h' ch)"
  shows "dials ch (h_log h) = dials ch (h_log h')"
proof -
  have "(of_nat (dials ch (h_log h)) :: 32 word) = of_nat (dials ch (h_log h'))"
    using assms by (simp add: tcp_slot_ok_def)
  then have "unat (of_nat (dials ch (h_log h)) :: 32 word) = unat (of_nat (dials ch (h_log h')) :: 32 word)"
    by simp
  then show ?thesis using assms(3,4) by (simp add: few_def unat_word_of_nat)
qed

text \<open>What re-validation by descriptor and generation gives.\<close>

lemma revalidated:
  assumes "\<And>ch. tcp_slot_ok ch h" and "few ch h \<Longrightarrow> opened h ch \<and> \<not> ts_connecting (h_tcp h ch)"
    and gen: "ts_gen (h_tcp h ch) = gen" and call: "call_sender C K c (s, h) = Inr w'"
    and same: "same_tcp ch fd gen (snd w')"
  shows "socket_up (snd w') ch"
proof -
  have "opened (snd w') ch \<and> \<not> ts_connecting (h_tcp (snd w') ch)" if few: "few ch (snd w')"
  proof -
    let ?h = "log_event (Notify c) h"
    have before: "few ch h" using few few_before call_grows [OF call] by simp
    have "tcp_slot_ok ch (snd w')"
      using slots.call_keeps [where ch = ch and w = "(s, h)" and C = C and K = K and c = c] assms(1) call by simp
    then have "dials ch (h_log h) = dials ch (h_log (snd w'))"
      using same gen by (intro dials_same assms(1) before few) (simp_all add: same_tcp_def)
    moreover obtain as where "snd w' = fold (perform K) as ?h"
      using call by (auto simp: call_sender_def Let_def split: sum.splits)
    ultimately have "steady ch ?h (snd w')"
      using steady_performs [of ch ?h ?h K as] by (simp add: log_event_def steady_def)
    then show ?thesis
      using assms(2) [OF before] same by (simp add: steady_def same_tcp_def opened_def log_event_def)
  qed
  then show ?thesis by (simp add: socket_up_def)
qed

lemma contract_close_report:
  assumes "contract h" and "few ch h \<Longrightarrow> linked ch (log_event (Notify c) (closeTcp ch h))"
    and "\<And>ch' l. ch' \<noteq> ch \<Longrightarrow> link_step ch' (Notify c) l = Some l"
  shows "holds (\<lambda>_. True) (\<lambda>w. contract (snd w)) (report C K ch c (s, h))"
proof -
  have "linked ch' (log_event (Notify c) (closeTcp ch h))" if "few ch' (closeTcp ch h)" for ch'
  proof (cases "ch' = ch")
    case True
    then show ?thesis using assms(2) that few_before [OF grows_close(1) [OF grows_refl]] by simp
  next
    case False
    then have "linked ch' h"
      using assms(1) that few_before [OF grows_close(1) [OF grows_refl]] by (simp add: contract_def)
    then have "linked ch' (closeTcp ch h)" using False by simp
    then show ?thesis using assms(3) [OF False] by (simp add: linked_def log_event_def)
  qed
  moreover have "tcp_slot_ok ch' (closeTcp ch h)" for ch'
    using assms(1) by (simp add: contract_def slots.close)
  ultimately show ?thesis
    by (simp add: report_def on_host_def contract_call)
qed

lemma contract_plain:
  assumes "contract h" and "\<And>ch l. link_step ch (Notify c) l = Some l"
  shows "holds (\<lambda>_. True) (\<lambda>w. contract (snd w)) (call_sender C K c (s, h))"
  using assms by (intro contract_call) (auto simp: contract_def linked_def log_event_def)

lemma linked_closed:
  "linked ch h \<Longrightarrow> link_of (h_tcp h ch) = Up \<Longrightarrow> linked ch (log_event (Notify (Call_tcpClosed ch why)) (closeTcp ch h))"
  "linked ch h \<Longrightarrow> link_of (h_tcp h ch) = Dialing \<Longrightarrow> linked ch (log_event (Notify (Call_tcpConnectFailed ch why)) (closeTcp ch h))"
  by (auto simp: linked_def closeTcp_log log_event_def split: option.splits)
    (simp_all add: link_of_def host_ops split: option.splits)

lemma up_link: "tcp_slot_ok ch h \<Longrightarrow> opened h ch \<Longrightarrow> \<not> ts_connecting (h_tcp h ch) \<Longrightarrow> link_of (h_tcp h ch) = Up"
  by (auto simp: link_of_def tcp_slot_ok_def slot_wf_def opened_def split: option.splits)

lemma mark_facts:
  assumes "contract h" and "opened h ch" and "ts_connecting (h_tcp h ch)"
  shows "tcp_slot_ok ch' (mark_connected ch h)"
    and "few ch' (mark_connected ch h) \<Longrightarrow> linked ch' (log_event (Notify (Call_tcpConnected ch l p)) (mark_connected ch h))"
proof -
  show "tcp_slot_ok ch' (mark_connected ch h)" using assms by (simp add: contract_def slots.mark)
  assume "few ch' (mark_connected ch h)"
  then have "linked ch' h" using assms(1) by (simp add: contract_def few_def host_ops)
  moreover have "tcp_slot_ok ch h" using assms(1) by (simp add: contract_def)
  ultimately show "linked ch' (log_event (Notify (Call_tcpConnected ch l p)) (mark_connected ch h))"
    using assms(2,3)
    by (cases "ch' = ch") (auto simp: linked_def link_of_def host_ops tcp_slot_ok_def slot_wf_def split: option.splits)
qed

interpretation contract: loop_invariant C K fuel "\<lambda>_. True" "\<lambda>w. contract (snd w)" socket_up for C K fuel
proof
  fix w :: world assume "contract (snd w)"
  then show "contract (snd (on_host (passed K) w))"
    by (auto simp: contract_def few_same intro!: slots.passed linked_small)
next
  fix w :: world and n assume "contract (snd w)"
  then show "contract (snd (on_host (log_event (Waited n)) w))"
    by (auto simp: contract_def noted_def few_same intro!: slots.note_event linked_small)
next
  fix w :: world and ch assume "contract (snd w)"
  then show "contract (snd (on_host (\<lambda>h. snd (drain K ch h)) w))"
    using few_before [OF grows_drain [OF grows_refl]]
    by (auto simp: contract_def intro!: slots.drained linked_drain)
next
  fix w :: world and c u b a assume "contract (snd w)" and "c = Call_tick \<or> c = Call_udpDatagram u b a"
  then show "holds (\<lambda>_. True) (\<lambda>w. contract (snd w)) (call_sender C K c w)"
    using contract_plain [of "snd w" c C K "fst w"] by auto
next
  fix w :: world and ch why assume c: "contract (snd w)"
    and "ts_failedToStart (h_tcp (snd w) ch) \<noteq> None \<or> opened (snd w) ch \<and> ts_connecting (h_tcp (snd w) ch)"
  then have "link_of (h_tcp (snd w) ch) = Dialing"
    by (auto simp: link_of_def opened_def)
  then have "few ch (snd w) \<Longrightarrow> linked ch (log_event (Notify (Call_tcpConnectFailed ch why)) (closeTcp ch (snd w)))"
    using c by (auto simp: contract_def intro!: linked_closed)
  then show "holds (\<lambda>_. True) (\<lambda>w. contract (snd w)) (report C K ch (Call_tcpConnectFailed ch why) w)"
    using contract_close_report [OF c, of ch "Call_tcpConnectFailed ch why" C K "fst w"] by auto
next
  fix w :: world and ch why assume c: "contract (snd w)"
    and "ts_failedToStart (h_tcp (snd w) ch) = None" and "ts_sendFailed (h_tcp (snd w) ch) \<noteq> None"
  moreover have "tcp_slot_ok ch (snd w)" using c by (simp add: contract_def)
  ultimately have "link_of (h_tcp (snd w) ch) = Up"
    by (auto simp: tcp_slot_ok_def slot_wf_def link_of_def split: option.splits)
  then have "few ch (snd w) \<Longrightarrow> linked ch (log_event (Notify (Call_tcpClosed ch why)) (closeTcp ch (snd w)))"
    using c by (auto simp: contract_def intro!: linked_closed)
  then show "holds (\<lambda>_. True) (\<lambda>w. contract (snd w)) (report C K ch (Call_tcpClosed ch why) w)"
    using contract_close_report [OF c, of ch "Call_tcpClosed ch why" C K "fst w"] by auto
next
  fix w :: world and ch why assume c: "contract (snd w)" and up: "socket_up (snd w) ch"
  then have "few ch (snd w) \<Longrightarrow> linked ch (log_event (Notify (Call_tcpClosed ch why)) (closeTcp ch (snd w)))"
    using up_link by (auto simp: contract_def socket_up_def intro!: linked_closed)
  then show "holds (\<lambda>_. True) (\<lambda>w. contract (snd w)) (report C K ch (Call_tcpClosed ch why) w)"
    using contract_close_report [OF c, of ch "Call_tcpClosed ch why" C K "fst w"] by auto
next
  fix w :: world and ch l p assume c: "contract (snd w)" and "opened (snd w) ch" "ts_connecting (h_tcp (snd w) ch)"
  then show "holds (\<lambda>_. True) (\<lambda>w. contract (snd w)) (call_sender C K (Call_tcpConnected ch l p) (on_host (mark_connected ch) w))"
    unfolding on_host_def by (intro contract_call mark_facts)
next
  fix w w' :: world and ch fd gen l p
  assume c: "contract (snd w)" and same: "same_tcp ch fd gen (snd w)" and "ts_connecting (h_tcp (snd w) ch)"
    and call: "call_sender C K (Call_tcpConnected ch l p) (on_host (mark_connected ch) w) = Inr w'"
    and after: "same_tcp ch fd gen (snd w')"
  then have o: "opened (snd w) ch" by (simp add: same_tcp_def opened_def)
  show "socket_up (snd w') ch"
  proof (rule revalidated [OF _ _ _ call [unfolded on_host_def] after])
    show "tcp_slot_ok ch' (mark_connected ch (snd w))" for ch' using c o by (simp add: contract_def slots.mark)
  qed (use o same in \<open>simp_all add: mark_connected_def on_tcp_def opened_def same_tcp_def\<close>)
next
  fix w :: world and ch b assume c: "contract (snd w)" and up: "socket_up (snd w) ch"
  have "linked ch' (log_event (Notify (Call_tcpData ch b)) (snd w))" if "few ch' (snd w)" for ch'
  proof -
    have "linked ch' (snd w)" using c that by (simp add: contract_def)
    moreover have "link_of (h_tcp (snd w) ch) = Up" if "ch' = ch"
      using c up \<open>few ch' (snd w)\<close> that up_link [of ch "snd w"] by (simp add: contract_def socket_up_def)
    ultimately show ?thesis by (auto simp: linked_def log_event_def)
  qed
  then show "holds (\<lambda>_. True) (\<lambda>w. contract (snd w)) (call_sender C K (Call_tcpData ch b) w)"
    using contract_call [of "snd w" "Call_tcpData ch b" C K "fst w"] c by (simp add: contract_def)
next
  fix w w' :: world and ch fd gen b
  assume c: "contract (snd w)" and up: "socket_up (snd w) ch" and same: "same_tcp ch fd gen (snd w)"
    and call: "call_sender C K (Call_tcpData ch b) w = Inr w'" and after: "same_tcp ch fd gen (snd w')"
  show "socket_up (snd w') ch"
  proof (rule revalidated [OF _ _ _ _ after])
    show "call_sender C K (Call_tcpData ch b) (fst w, snd w) = Inr w'" using call by simp
  qed (use c up same in \<open>simp_all add: contract_def socket_up_def same_tcp_def\<close>)
next
  fix w :: world and ch assume "socket_up (snd w) ch"
  then show "socket_up (snd (drain K ch (snd w))) ch" for K
    using drain_slot [of K ch "snd w"] few_before [OF grows_drain [OF grows_refl]]
    by (simp add: socket_up_def opened_def)
qed (auto simp: socket_up_def few_def opened_def)

lemma reachable_contract: "loop_reachable C K w \<Longrightarrow> contract (snd w)"
proof (induction rule: loop_reachable.induct)
  case (new now wall)
  show ?case
    by (simp add: contract_def slots.new) (simp add: linked_def link_after_def link_of_def new_host_def)
next
  case (app w c w')
  then have "link_step ch (Notify c) l = Some l" for ch l
    by (cases c) (simp_all add: app_call_def)
  then show ?case using app contract_plain [of "snd w" c C K "fst w"] by simp
next
  case (pump w fuel maxWait w')
  then show ?case using contract.pump_holds [of w C K fuel maxWait] by simp
next
  case (idle s h d)
  then show ?case by (auto simp: contract_def slots.idle linked_def few_def)
qed

text \<open>
  C3. The host keeps its contract with the sender: in every run of the loop, on either TCP
  channel, a connection is reported made or failed only while one is being made, data and a
  close only on a connection that is up, and each failure or close once, after which nothing
  more is reported until the sender connects again; what the host's slot says is what the
  sender has been told. This is so whatever the sender closes and reopens from inside a
  notification, as long as no channel is dialled \<open>2 ^ 32\<close> times, which is where the generation
  counter wraps.
\<close>

theorem host_contract:
  assumes "loop_reachable C K w" and "dials ch (h_log (snd w)) < 2 ^ 32"
  shows "link_after ch (h_log (snd w)) = Some (link_of (h_tcp (snd w) ch))"
  using reachable_contract [OF assms(1)] assms(2) by (simp add: contract_def few_def linked_def)

theorem host_contract_witness:
  "\<exists>w. loop_reachable demo_crypto demo_kernel w \<and> opened (snd w) TcpControl
    \<and> link_after TcpControl (h_log (snd w)) = Some (link_of (h_tcp (snd w) TcpControl))"
proof -
  obtain w where w: "loop_reachable demo_crypto demo_kernel w" "opened (snd w) TcpControl"
      "dials TcpControl (h_log (snd w)) < 2 ^ 32"
    using demo_started by (auto simp: opened_def)
  then show ?thesis using host_contract [OF w(1,3)] by blast
qed

section \<open>The sender in the loop\<close>

definition driven :: "crypto \<Rightarrow> world \<Rightarrow> bool" where
  "driven C w \<longleftrightarrow> crypto_ok C \<and> sender_reachable C (fst w) \<and> s_now (fst w) \<le> h_now (snd w)"

definition loop_fault :: "kernel \<Rightarrow> nat \<Rightarrow> fault \<Rightarrow> bool" where
  "loop_fault K fuel e \<longleftrightarrow> srp_fault e \<or> e = Out_of_fuel \<and> \<not> dry K fuel"

definition notification :: "call \<Rightarrow> bool" where
  "notification c \<longleftrightarrow> (case c of
       Call_tcpConnected _ _ _ \<Rightarrow> True | Call_tcpConnectFailed _ _ \<Rightarrow> True | Call_tcpData _ _ \<Rightarrow> True
     | Call_tcpClosed _ _ \<Rightarrow> True | Call_udpDatagram _ _ _ \<Rightarrow> True | Call_tick \<Rightarrow> True | _ \<Rightarrow> False)"

text \<open>
  What concerns the sender alone passes through \<open>pump\<close> as soon as the calls \<open>pump\<close> makes keep it:
  the host only moves, and its clock only goes on.
\<close>

locale sender_pass =
  fixes C :: crypto and K :: kernel and fuel :: nat and E :: "fault \<Rightarrow> bool" and I :: "world \<Rightarrow> bool"
  assumes patient: "E Out_of_fuel \<or> dry K fuel"
    and host_moves: "I w \<Longrightarrow> fst w' = fst w \<Longrightarrow> h_now (snd w) \<le> h_now (snd w') \<Longrightarrow> I w'"
    and noted: "I w \<Longrightarrow> notification c \<Longrightarrow> holds E I (call_sender C K c w)"
begin

lemma moved: "I w \<Longrightarrow> h_now (snd w) \<le> h_now (f (snd w)) \<Longrightarrow> I (on_host f w)"
  by (rule host_moves) simp_all

lemma reported: "I w \<Longrightarrow> notification c \<Longrightarrow> holds E I (report C K ch c w)"
  unfolding report_def
  by (intro noted moved) (simp_all add: closeTcp_def on_tcp_def log_event_def split: option.split)

end

sublocale sender_pass \<subseteq> loop_invariant C K fuel E I "\<lambda>_ _. True"
proof
  show "E Out_of_fuel \<or> dry K fuel" by (rule patient)
next
  fix w :: world and ch assume "I w"
  then show "I (on_host (\<lambda>h. snd (drain K ch h)) w)"
    by (rule moved) (rule drain_now)
next
  fix w :: world assume "I w"
  then show "I (on_host (passed K) w)"
    by (rule moved) (rule less_imp_le [OF passed_now])
next
  fix w :: world and ch l p assume "I w"
  then have "I (on_host (mark_connected ch) w)"
    by (rule moved) (simp add: mark_connected_def on_tcp_def)
  then show "holds E I (call_sender C K (Call_tcpConnected ch l p) (on_host (mark_connected ch) w))"
    by (rule noted) (simp add: notification_def)
next
  fix w :: world and n assume "I w"
  then show "I (on_host (log_event (Waited n)) w)"
    by (rule moved) (simp add: log_event_def)
qed (auto simp: notification_def intro!: noted reported)

lemma driven_call:
  assumes "driven C w" and ok: "\<And>now wall. call_ok c ((fst w)\<lparr>s_now := now, s_wall := wall\<rparr>)"
    and still: "clock_after c (h_now (snd w)) = h_now (snd w)"
  shows "holds (loop_fault K fuel) (\<lambda>w'. driven C w' \<and> prefix (s_out (fst w)) (s_out (fst w'))) (call_sender C K c w)"
proof -
  obtain s h where w: "w = (s, h)" by fastforce
  define s0 where "s0 = s\<lparr>s_now := h_now h, s_wall := k_wall K (h_now h)\<rparr>"
  have clocks: "apply_call C (Env_clocks (h_now h) (k_wall K (h_now h))) s = Inr s0"
    by (simp add: apply_call_def s0_def)
  have "sender_reachable C s" "call_ok (Env_clocks (h_now h) (k_wall K (h_now h))) s"
    using assms(1) by (simp_all add: driven_def w call_ok_def)
  then have s0: "sender_reachable C s0" using clocks by (rule sender_reachable.step)
  have ok0: "call_ok c s0" using ok by (simp add: w s0_def)
  have c: "crypto_ok C" using assms(1) by (simp add: driven_def)
  show ?thesis
  proof (cases "apply_call C c s0")
    case (Inl e)
    then have "srp_fault e"
      using apply_call_sane [OF c reachable_sane [OF s0 c] ok0] by simp
    then show ?thesis using Inl by (simp add: w call_sender_def Let_def s0_def [symmetric] loop_fault_def)
  next
    case (Inr s')
    have "sender_reachable C s'" using s0 ok0 Inr by (rule sender_reachable.step)
    moreover have "s_now s' = h_now h"
      using apply_call_frame(2) [OF s0 ok0 Inr] still by (simp add: s0_def w)
    moreover have "prefix (s_out s) (s_out s')"
      using apply_call_frame(1) [OF s0 ok0 Inr] by (simp add: s0_def)
    moreover have "h_now h \<le> h_now (fold (perform K) as (log_event (Notify c) h))" for as
      using grows_performs [of h "log_event (Notify c) h" K as] by (simp add: growing grows_def log_event_def)
    ultimately show ?thesis
      using Inr c by (simp add: w call_sender_def Let_def s0_def [symmetric] driven_def)
  qed
qed

text \<open>With any actions that were taken before.\<close>

lemma driven_notification:
  assumes "driven C w \<and> prefix before (s_out (fst w))" and "notification c"
  shows "holds (loop_fault K fuel) (\<lambda>w. driven C w \<and> prefix before (s_out (fst w))) (call_sender C K c w)"
proof -
  have "call_ok c ((fst w)\<lparr>s_now := now, s_wall := wall\<rparr>)" "clock_after c now = now" for now wall
    using assms(2) by (cases c; simp add: notification_def call_ok_def clock_after_def)+
  then have "holds (loop_fault K fuel) (\<lambda>w'. driven C w' \<and> prefix (s_out (fst w)) (s_out (fst w'))) (call_sender C K c w)"
    using assms(1) by (intro driven_call) simp_all
  then show ?thesis
    using assms(1) by (cases "call_sender C K c w") (auto intro: prefix_order.trans)
qed

interpretation drv: sender_pass C K fuel "loop_fault K fuel" "\<lambda>w. driven C w \<and> prefix before (s_out (fst w))" for C K fuel before
  by (unfold_locales, simp add: loop_fault_def, force simp: driven_def, rule driven_notification)

lemma loop_driven: "loop_reachable C K w \<Longrightarrow> crypto_ok C \<Longrightarrow> driven C w"
proof (induction rule: loop_reachable.induct)
  case (new now wall)
  then show ?case by (simp add: driven_def sender_reachable.new) (simp add: new_sender_def new_host_def)
next
  case (app w c w')
  then have "call_ok c ((fst w)\<lparr>s_now := now, s_wall := wall\<rparr>)" "clock_after c now = now" for now wall
    by (cases c; simp add: call_ok_def app_call_def clock_after_def)+
  then have "holds (loop_fault K 0) (\<lambda>w'. driven C w' \<and> prefix (s_out (fst w)) (s_out (fst w'))) (call_sender C K c w)"
    using app by (intro driven_call) simp_all
  then show ?case using app by simp
next
  case (pump w fuel maxWait w')
  then show ?case using drv.pump_holds [of C w "[]" K fuel maxWait] by simp
next
  case (idle s h d)
  then show ?case by (simp add: driven_def)
qed



end
