(* ===== verification/Host_Close.thy ===== *)
theory Host_Close
  imports Host_Contract
begin

text \<open>
  The two places where the host waits on its peer: the graceful close, which is bounded, and
  the reading of a TCP socket, which is not.
\<close>

section \<open>A graceful close\<close>

text \<open>A socket that fails only for want of room.\<close>

definition no_hard_error :: "kernel \<Rightarrow> sock \<Rightarrow> bool" where
  "no_hard_error K fd \<longleftrightarrow> (\<forall>i b. 0 < k_send K i fd b \<or> k_send K i fd b < 0 \<and> wouldBlock (k_errno K i))"

lemma drain_succeeds:
  assumes "no_hard_error K fd" and "ts_fd (h_tcp h ch) = Some fd"
  shows "fst (drain K ch h) = None"
  using assms(2)
proof (induction "length (ts_out (h_tcp h ch)) - ts_outOff (h_tcp h ch)" arbitrary: h rule: less_induct)
  case less
  let ?n = "k_send K (h_calls h) fd (unsent (h_tcp h ch))"
  have "fst (drain K ch (took ch (nat ?n) (passed K h))) = None" if "?n > 0" "pending ch h"
    using that less.prems by (intro less.hyps) (auto simp: took_slot pending_def)
  moreover have "0 < ?n \<or> ?n < 0 \<and> wouldBlock (k_errno K (h_calls h))"
    using assms(1) by (simp add: no_hard_error_def)
  ultimately show ?case
    using less.prems by (subst drain_unfold) (auto simp: Let_def)
qed

lemma flush_done:
  assumes "no_hard_error K fd" and "ts_fd (h_tcp h ch) = Some fd"
  shows "\<not> pending ch (flush_loop K ch deadline h) \<or> deadline \<le> h_now (flush_loop K ch deadline h)"
  using assms(2)
proof (induction "nat (deadline - h_now h)" arbitrary: h rule: less_induct)
  case less
  let ?h = "snd (drain K ch h)"
  have "\<not> pending ch (flush_loop K ch deadline (passed K ?h)) \<or> deadline \<le> h_now (flush_loop K ch deadline (passed K ?h))"
    if "h_now h < deadline"
    using that less.prems drain_now [of h K ch] passed_now [of ?h K] drain_slot [of K ch h]
    by (intro less.hyps) auto
  then show ?case
    using drain_succeeds [OF assms(1) less.prems] by (subst (1 2) flush_unfold) (auto simp: Let_def)
qed

lemma grows_flush: "grows h (flush_loop K ch deadline h)"
  by (rule flush_rule [where P = "grows h"]) (auto intro: growing)

lemma flush_order:
  assumes "in_order ch h"
  shows "in_order ch (flush_loop K ch deadline h)"
  using assms by (rule flush_rule) (auto intro: order.passed order.drained)

lemma flush_open: "ts_fd (h_tcp (flush_loop K ch deadline h) ch) = ts_fd (h_tcp h ch)"
  by (rule flush_rule [where P = "\<lambda>h'. ts_fd (h_tcp h' ch) = ts_fd (h_tcp h ch)"]) (simp_all add: drain_slot)

lemma fin_log: "h_log (fin_loop K ch deadline h) = h_log h"
  by (rule fin_rule [where P = "\<lambda>h'. h_log h' = h_log h"]) simp_all

lemma fin_fd: "h_tcp (fin_loop K ch deadline h) = h_tcp h"
  by (rule fin_rule [where P = "\<lambda>h'. h_tcp h' = h_tcp h"]) simp_all

text \<open>
  C19. A close with \<open>flush\<close> sends what is queued before it shuts the connection down: on a
  socket that fails only for want of room, every byte the sender queued (the TEARDOWN last)
  has been taken by the kernel before the FIN, unless half a second passed first; nothing is
  sent after the FIN, and the socket is released.
\<close>

theorem close_flushes_first:
  assumes "in_order ch h" and "ts_fd (h_tcp h ch) = Some fd" and "ts_connected (h_tcp h ch)"
    and "ts_sendFailed (h_tcp h ch) = None" and "no_hard_error K fd"
  shows "\<exists>es. h_log (tcpClose K ch True h) = es @ [Fin ch, Released fd]
    \<and> prefix (h_log h) es
    \<and> (wire_bytes ch es = queued_bytes ch es
       \<or> h_now h + ms 500 \<le> h_now (flush_loop K ch (h_now h + ms 500) h))"
proof -
  define h1 where "h1 = flush_loop K ch (h_now h + ms 500) h"
  have flush: "flush_loop K ch (h_now h + 500000000) h = h1" by (simp add: h1_def)
  have o: "in_order ch h1" using assms(1) by (simp add: h1_def flush_order)
  have fd: "ts_fd (h_tcp h1 ch) = Some fd" using assms(2) by (simp add: h1_def flush_open)
  have "h_log (tcpClose K ch True h) = h_log h1 @ [Fin ch, Released fd]"
    using assms(2,3,4) fd
    by (simp add: tcpClose_def Let_def closeTcp_log fin_log fin_fd flush) (simp add: log_event_def)
  moreover have "prefix (h_log h) (h_log h1)"
    using grows_flush [of h K ch "h_now h + ms 500"] by (simp add: h1_def grows_def)
  moreover have "wire_bytes ch (h_log h1) = queued_bytes ch (h_log h1)" if "\<not> pending ch h1"
    using o fd that by (simp add: in_order_def opened_def unsent_def pending_def)
  ultimately show ?thesis
    using flush_done [OF assms(5,2), of "h_now h + ms 500"] by (auto simp: flush)
qed

definition tcp_only :: "TcpSlot \<Rightarrow> event list \<Rightarrow> host" where
  "tcp_only t es = (new_host 0)\<lparr>h_tcp := (\<lambda>_. t), h_log := es\<rparr>"

definition up_slot :: "bytes \<Rightarrow> TcpSlot" where
  "up_slot b = \<lparr>ts_fd = Some 3, ts_gen = 1, ts_connecting = False, ts_connected = True, ts_out = b, ts_outOff = 0,
     ts_failedToStart = None, ts_sendFailed = None\<rparr>"

theorem close_flushes_first_witness:
  "\<exists>es. h_log (tcpClose demo_kernel TcpControl True
       (tcp_only (up_slot [0x61, 0x62]) [Io (TcpConnect TcpControl ''h'' 1), Io (TcpSend TcpControl ''ab'')]))
      = es @ [Fin TcpControl, Released 3]
    \<and> prefix (h_log (tcp_only (up_slot [0x61, 0x62]) [Io (TcpConnect TcpControl ''h'' 1), Io (TcpSend TcpControl ''ab'')])) es
    \<and> (wire_bytes TcpControl es = queued_bytes TcpControl es
       \<or> h_now (tcp_only (up_slot [0x61, 0x62]) [Io (TcpConnect TcpControl ''h'' 1), Io (TcpSend TcpControl ''ab'')]) + ms 500
         \<le> h_now (flush_loop demo_kernel TcpControl
              (h_now (tcp_only (up_slot [0x61, 0x62]) [Io (TcpConnect TcpControl ''h'' 1), Io (TcpSend TcpControl ''ab'')]) + ms 500)
              (tcp_only (up_slot [0x61, 0x62]) [Io (TcpConnect TcpControl ''h'' 1), Io (TcpSend TcpControl ''ab'')])))"
  by (rule close_flushes_first)
    (simp_all add: in_order_def tcp_only_def up_slot_def queued_bytes_def wire_bytes_def opened_def unsent_def slot_wf_def
      toBytes_def char_byte_def no_hard_error_def demo_kernel_def)

section \<open>A peer that never stops\<close>

lemma call_event_data:
  assumes "s_ap2 s = Some a" and "a_eventIn a = []"
  shows "call_sender C K (Call_tcpData TcpEvent b) (s, h)
    = Inr (s\<lparr>s_now := h_now h, s_wall := k_wall K (h_now h)\<rparr>, log_event (Notify (Call_tcpData TcpEvent b)) h)"
  using assms by (simp add: call_sender_def apply_call_def onTcpData_def onEventReadyRead_def Let_def)



end
