(* ===== verification/Qt_Host.thy ===== *)
theory Qt_Host
  imports Host_Contract
begin

text \<open>
  The optional host on Qt's event loop (\<open>src/src/raop_qt_host.cpp\<close>): each slot owns a Qt socket
  whose signals call the sender. Qt itself is a parameter: the conversions of addresses and the
  result of a bind are answers of the record \<open>qt\<close>, and a signal is an input. The contract is the
  one of the bundled loop.
\<close>

section \<open>Qt\<close>

text \<open>A \<open>QHostAddress\<close> is opaque; sockets are objects, numbered as they are made.\<close>

type_synonym qaddress = string

record qt =
  qt_toIPv4Address :: "qaddress \<Rightarrow> 32 word option"
  qt_fromIPv4 :: "32 word \<Rightarrow> qaddress"
  qt_toString :: "qaddress \<Rightarrow> string"
  qt_bind :: "nat \<Rightarrow> 16 word option"

text \<open>
  The signals connected to. \<open>Q_errorOccurred\<close> says whether the error is
  \<open>RemoteHostClosedError\<close>; \<open>Q_readyRead\<close> carries what \<open>readAll\<close> gives, \<open>Q_datagrams\<close> the pending
  datagrams, \<open>None\<close> for one that cannot be read.
\<close>

datatype qsignal =
    Q_connected RaopTcp nat qaddress "16 word" qaddress "16 word"
  | Q_readyRead RaopTcp nat bytes
  | Q_errorOccurred RaopTcp nat bool string
  | Q_disconnected RaopTcp nat
  | Q_datagrams RaopUdp nat "(bytes \<times> qaddress \<times> 16 word) option list"
  | Q_timeout

section \<open>The host\<close>

record QTcp =
  qs_sock :: "nat option"
  qs_connected :: bool

record qhost =
  q_tcp :: "RaopTcp \<Rightarrow> QTcp"
  q_udp :: "RaopUdp \<Rightarrow> nat option"
  q_sender :: bool
  q_ticker :: "int option"
  q_objects :: nat
  q_log :: "event list"

definition new_qhost :: qhost where
  "new_qhost = \<lparr>q_tcp = (\<lambda>_. \<lparr>qs_sock = None, qs_connected = False\<rparr>), q_udp = (\<lambda>_. None), q_sender = False,
     q_ticker = None, q_objects = 0, q_log = []\<rparr>"

definition qlog :: "event \<Rightarrow> qhost \<Rightarrow> qhost" where
  "qlog e q = q\<lparr>q_log := q_log q @ [e]\<rparr>"

definition endpointOf :: "qt \<Rightarrow> qaddress \<Rightarrow> 16 word \<Rightarrow> RaopEndpoint" where
  "endpointOf Q a port =
     (let v4 = (case qt_toIPv4Address Q a of Some ip4 \<Rightarrow> qt_fromIPv4 Q ip4 | None \<Rightarrow> a)
      in \<lparr>ep_ip = qt_toString Q v4, ep_port = port\<rparr>)"

text \<open>Dropping a socket disconnects its signals: none reaches the slot any more.\<close>

definition dropTcp :: "RaopTcp \<Rightarrow> qhost \<Rightarrow> qhost" where
  "dropTcp ch q =
     (case qs_sock (q_tcp q ch) of
        None \<Rightarrow> q
      | Some s \<Rightarrow> qlog (Released s) (q\<lparr>q_tcp := (q_tcp q)(ch := \<lparr>qs_sock = None, qs_connected = False\<rparr>)\<rparr>))"

definition dropUdp :: "RaopUdp \<Rightarrow> qhost \<Rightarrow> qhost" where
  "dropUdp u q =
     (case q_udp q u of
        None \<Rightarrow> q
      | Some s \<Rightarrow> qlog (Released s) (q\<lparr>q_udp := (q_udp q)(u := None)\<rparr>))"

text \<open>A new socket object.\<close>

definition qnew :: "qhost \<Rightarrow> nat \<times> qhost" where
  "qnew q = (q_objects q, qlog (Opened (q_objects q)) (q\<lparr>q_objects := q_objects q + 1\<rparr>))"

definition q_tcpConnect :: "RaopTcp \<Rightarrow> qhost \<Rightarrow> qhost" where
  "q_tcpConnect ch q =
     (let (s, q) = qnew (dropTcp ch q)
      in q\<lparr>q_tcp := (q_tcp q)(ch := (q_tcp q ch)\<lparr>qs_sock := Some s\<rparr>)\<rparr>)"

text \<open>Qt queues what is written and sends it when it can.\<close>

definition q_tcpSend :: "RaopTcp \<Rightarrow> bytes \<Rightarrow> qhost \<Rightarrow> qhost" where
  "q_tcpSend ch b q = (if qs_sock (q_tcp q ch) = None \<or> b = [] then q else qlog (Sent ch b) q)"

definition q_tcpClose :: "RaopTcp \<Rightarrow> bool \<Rightarrow> qhost \<Rightarrow> qhost" where
  "q_tcpClose ch flush q =
     (if qs_sock (q_tcp q ch) = None then q
      else dropTcp ch (if flush \<and> qs_connected (q_tcp q ch) then qlog (Fin ch) q else q))"

definition q_udpBind :: "qt \<Rightarrow> RaopUdp \<Rightarrow> qhost \<Rightarrow> 16 word \<times> qhost" where
  "q_udpBind Q u q =
     (let (s, q) = qnew (dropUdp u q)
      in case qt_bind Q s of
           None \<Rightarrow> (0, qlog (Released s) q)
         | Some port \<Rightarrow> (port, q\<lparr>q_udp := (q_udp q)(u := Some s)\<rparr>))"

definition q_udpSend :: "RaopUdp \<Rightarrow> RaopEndpoint \<Rightarrow> bytes \<Rightarrow> qhost \<Rightarrow> qhost" where
  "q_udpSend u to b q = (if q_udp q u = None then q else qlog (Datagram u to b) q)"

definition q_perform :: "qt \<Rightarrow> action \<Rightarrow> qhost \<Rightarrow> qhost" where
  "q_perform Q a q =
     (let q = qlog (Io a) q
      in case a of
           TcpConnect ch hostname port \<Rightarrow> q_tcpConnect ch q
         | TcpSend ch b \<Rightarrow> q_tcpSend ch (toBytes b) q
         | TcpClose ch flush \<Rightarrow> q_tcpClose ch flush q
         | UdpBind u \<Rightarrow> (let (port, q) = q_udpBind Q u q in qlog (Bound u port) q)
         | UdpSend u to b \<Rightarrow> q_udpSend u to (toBytes b) q
         | UdpClose u \<Rightarrow> dropUdp u q
         | _ \<Rightarrow> q)"

section \<open>Signals\<close>

type_synonym qworld = "sender \<times> qhost"

definition q_call :: "crypto \<Rightarrow> qt \<Rightarrow> call \<Rightarrow> qworld \<Rightarrow> qworld result" where
  "q_call C Q c w =
     (let (s, q) = w
      in case apply_call C c s of
           Inl e \<Rightarrow> Inl e
         | Inr s' \<Rightarrow> Inr (s', fold (q_perform Q) (drop (length (s_out s)) (s_out s')) (qlog (Notify c) q)))"

text \<open>A slot's lambda runs for the signals of the socket the slot holds, while a sender is driven.\<close>

definition live_tcp :: "RaopTcp \<Rightarrow> nat \<Rightarrow> qhost \<Rightarrow> bool" where
  "live_tcp ch s q \<longleftrightarrow> qs_sock (q_tcp q ch) = Some s \<and> q_sender q"

definition q_drop_report :: "crypto \<Rightarrow> qt \<Rightarrow> RaopTcp \<Rightarrow> call \<Rightarrow> qworld \<Rightarrow> qworld result" where
  "q_drop_report C Q ch c w = q_call C Q c (fst w, dropTcp ch (snd w))"

fun q_datagrams :: "crypto \<Rightarrow> qt \<Rightarrow> RaopUdp \<Rightarrow> (bytes \<times> qaddress \<times> 16 word) option list \<Rightarrow> qworld \<Rightarrow> qworld result" where
  "q_datagrams C Q u [] w = Inr w"
| "q_datagrams C Q u (d # ds) w =
     (if q_udp (snd w) u = None \<or> \<not> q_sender (snd w) then Inr w
      else case d of
             None \<Rightarrow> Inr w
           | Some (b, a, port) \<Rightarrow>
               (case q_call C Q (Call_udpDatagram u b (endpointOf Q a port)) w of
                  Inl e \<Rightarrow> Inl e
                | Inr w' \<Rightarrow> q_datagrams C Q u ds w'))"

definition sender_active :: "sender \<Rightarrow> bool" where
  "sender_active s \<longleftrightarrow> s_state s \<noteq> Idle"

definition q_tick :: "crypto \<Rightarrow> qt \<Rightarrow> qworld \<Rightarrow> qworld result" where
  "q_tick C Q w =
     (if \<not> q_sender (snd w) then Inr w
      else case q_call C Q Call_tick w of
             Inl e \<Rightarrow> Inl e
           | Inr w' \<Rightarrow> Inr (fst w', (snd w')\<lparr>q_ticker := Some (if sender_active (fst w') then 4 else 50)\<rparr>))"

fun q_signal :: "crypto \<Rightarrow> qt \<Rightarrow> qsignal \<Rightarrow> qworld \<Rightarrow> qworld result" where
  "q_signal C Q (Q_connected ch s la lp pa pp) w =
     (if \<not> live_tcp ch s (snd w) then Inr w
      else q_call C Q (Call_tcpConnected ch (endpointOf Q la lp) (endpointOf Q pa pp))
             (fst w, (snd w)\<lparr>q_tcp := (q_tcp (snd w))(ch := (q_tcp (snd w) ch)\<lparr>qs_connected := True\<rparr>)\<rparr>))"
| "q_signal C Q (Q_readyRead ch s data) w =
     (if \<not> live_tcp ch s (snd w) \<or> data = [] then Inr w else q_call C Q (Call_tcpData ch data) w)"
| "q_signal C Q (Q_errorOccurred ch s remoteClosed why) w =
     (if \<not> live_tcp ch s (snd w) then Inr w
      else if \<not> qs_connected (q_tcp (snd w) ch) then q_drop_report C Q ch (Call_tcpConnectFailed ch why) w
      else if remoteClosed then Inr w
      else q_drop_report C Q ch (Call_tcpClosed ch why) w)"
| "q_signal C Q (Q_disconnected ch s) w =
     (if \<not> live_tcp ch s (snd w) then Inr w else q_drop_report C Q ch (Call_tcpClosed ch []) w)"
| "q_signal C Q (Q_datagrams u s ds) w =
     (if q_udp (snd w) u \<noteq> Some s then Inr w else q_datagrams C Q u ds w)"
| "q_signal C Q Q_timeout w =
     (if q_ticker (snd w) = None then Inr w else q_tick C Q w)"

definition q_drive :: "qhost \<Rightarrow> qhost" where
  "q_drive q = q\<lparr>q_sender := True, q_ticker := Some 4\<rparr>"

definition q_release :: "qhost \<Rightarrow> qhost" where
  "q_release q = q\<lparr>q_ticker := None, q_sender := False\<rparr>"

definition q_destroy :: "qhost \<Rightarrow> qhost" where
  "q_destroy q = dropUdp UdpTiming (dropUdp UdpControl (dropUdp UdpAudio (dropTcp TcpEvent (dropTcp TcpControl (q_release q)))))"

text \<open>
  What Qt promises of a socket: it connects once, and only a socket that has connected has data
  to read and gets disconnected.
\<close>

definition qt_signal_ok :: "qsignal \<Rightarrow> qhost \<Rightarrow> bool" where
  "qt_signal_ok g q \<longleftrightarrow> (case g of
       Q_connected ch s _ _ _ _ \<Rightarrow> qs_sock (q_tcp q ch) = Some s \<longrightarrow> \<not> qs_connected (q_tcp q ch)
     | Q_readyRead ch s _ \<Rightarrow> qs_sock (q_tcp q ch) = Some s \<longrightarrow> qs_connected (q_tcp q ch)
     | Q_disconnected ch s \<Rightarrow> qs_sock (q_tcp q ch) = Some s \<longrightarrow> qs_connected (q_tcp q ch)
     | _ \<Rightarrow> True)"

inductive qt_reachable :: "crypto \<Rightarrow> qt \<Rightarrow> qworld \<Rightarrow> bool" for C Q where
  new: "qt_reachable C Q (new_sender now wall, new_qhost)"
| app: "qt_reachable C Q w \<Longrightarrow> app_call c \<Longrightarrow> call_ok c (fst w) \<Longrightarrow> q_call C Q c w = Inr w' \<Longrightarrow>
    ports_agree c (drop (length (q_log (snd w))) (q_log (snd w'))) \<Longrightarrow> qt_reachable C Q w'"
| signal: "qt_reachable C Q w \<Longrightarrow> qt_signal_ok g (snd w) \<Longrightarrow> q_signal C Q g w = Inr w' \<Longrightarrow> qt_reachable C Q w'"
| drive: "qt_reachable C Q (s, q) \<Longrightarrow> qt_reachable C Q (s, q_drive q)"
| release: "qt_reachable C Q (s, q) \<Longrightarrow> qt_reachable C Q (s, q_release q)"
| clocks: "qt_reachable C Q (s, q) \<Longrightarrow> s_now s \<le> now \<Longrightarrow> qt_reachable C Q (s\<lparr>s_now := now, s_wall := wall\<rparr>, q)"

section \<open>One contract, two hosts\<close>

text \<open>
  What a host does for the sender keeps its slots in step with what the sender has been told;
  the bundled loop and the Qt host both provide it.
\<close>

locale raop_host =
  fixes log_of :: "'h \<Rightarrow> event list" and phase :: "RaopTcp \<Rightarrow> 'h \<Rightarrow> link" and wf :: "'h \<Rightarrow> bool"
    and does :: "action \<Rightarrow> 'h \<Rightarrow> 'h"
  assumes wf_does: "wf h \<Longrightarrow> wf (does a h)"
    and in_step: "wf h \<Longrightarrow> link_after ch (log_of h) = Some (phase ch h) \<Longrightarrow>
      link_after ch (log_of (does a h)) = Some (phase ch (does a h))"
begin

lemma wf_all: "wf h \<Longrightarrow> wf (fold does as h)"
  by (induction as arbitrary: h) (simp_all add: wf_does)

lemma all_in_step: "wf h \<Longrightarrow> link_after ch (log_of h) = Some (phase ch h) \<Longrightarrow>
    link_after ch (log_of (fold does as h)) = Some (phase ch (fold does as h))"
  by (induction as arbitrary: h) (simp_all add: in_step wf_does)

text \<open>A notification the automaton allows, and everything the sender does in answer to it.\<close>

lemma notified:
  assumes "wf h" and "log_of h = es @ [Notify c]" and "link_after ch es = Some l"
    and "link_step ch (Notify c) l = Some (phase ch h)"
  shows "link_after ch (log_of (fold does as h)) = Some (phase ch (fold does as h))"
  using assms by (intro all_in_step) simp_all

end

interpretation poll_host: raop_host h_log "\<lambda>ch h. link_of (h_tcp h ch)" "\<lambda>_. True" "perform K" for K
  by unfold_locales (use linked_perform in \<open>simp_all add: linked_def\<close>)

definition q_phase :: "QTcp \<Rightarrow> link" where
  "q_phase t = (case qs_sock t of None \<Rightarrow> Down | Some _ \<Rightarrow> if qs_connected t then Up else Dialing)"

definition q_wf :: "qhost \<Rightarrow> bool" where
  "q_wf q \<longleftrightarrow> (\<forall>ch. qs_sock (q_tcp q ch) = None \<longrightarrow> \<not> qs_connected (q_tcp q ch))"

lemmas q_ops = q_perform_def q_tcpConnect_def q_tcpSend_def q_tcpClose_def q_udpBind_def q_udpSend_def
  dropTcp_def dropUdp_def qnew_def qlog_def q_phase_def q_wf_def

interpretation qt_host: raop_host q_log "\<lambda>ch q. q_phase (q_tcp q ch)" q_wf "q_perform Q" for Q
proof
  fix q a assume "q_wf q"
  then show "q_wf (q_perform Q a q)" by (cases a) (auto simp: q_ops Let_def split: option.splits)
next
  fix q ch a assume "q_wf q" and "link_after ch (q_log q) = Some (q_phase (q_tcp q ch))"
  then show "link_after ch (q_log (q_perform Q a q)) = Some (q_phase (q_tcp (q_perform Q a q) ch))"
    by (cases a) (auto simp: q_ops Let_def split: option.splits)
qed

definition q_contract :: "qhost \<Rightarrow> bool" where
  "q_contract q \<longleftrightarrow> q_wf q \<and> (\<forall>ch. link_after ch (q_log q) = Some (q_phase (q_tcp q ch)))"

lemma q_call_contract:
  assumes "q_wf q" and "\<And>ch. \<exists>l. link_after ch (q_log q) = Some l \<and> link_step ch (Notify c) l = Some (q_phase (q_tcp q ch))"
    and "q_call C Q c (s, q) = Inr w'"
  shows "q_contract (snd w')"
proof -
  obtain as where w': "snd w' = fold (q_perform Q) as (qlog (Notify c) q)"
    using assms(3) by (auto simp: q_call_def split: sum.splits)
  have wf: "q_wf (qlog (Notify c) q)" using assms(1) by (simp add: q_wf_def qlog_def)
  show ?thesis
    unfolding q_contract_def w'
  proof (intro conjI allI)
    show "q_wf (fold (q_perform Q) as (qlog (Notify c) q))" using wf by (rule qt_host.wf_all)
    fix ch
    obtain l where "link_after ch (q_log q) = Some l" "link_step ch (Notify c) l = Some (q_phase (q_tcp q ch))"
      using assms(2) by blast
    then show "link_after ch (q_log (fold (q_perform Q) as (qlog (Notify c) q)))
        = Some (q_phase (q_tcp (fold (q_perform Q) as (qlog (Notify c) q)) ch))"
      using wf by (intro qt_host.notified [where es = "q_log q" and c = c and l = l]) (simp_all add: qlog_def)
  qed
qed

lemma q_plain_contract:
  assumes "q_contract q" and "\<And>ch l. link_step ch (Notify c) l = Some l" and "q_call C Q c (s, q) = Inr w'"
  shows "q_contract (snd w')"
  using assms by (intro q_call_contract [OF _ _ assms(3)]) (auto simp: q_contract_def)

lemma q_closed_contract:
  assumes "q_contract q" and "c = Call_tcpClosed ch why \<and> q_phase (q_tcp q ch) = Up
      \<or> c = Call_tcpConnectFailed ch why \<and> q_phase (q_tcp q ch) = Dialing"
    and "q_drop_report C Q ch c (s, q) = Inr w'"
  shows "q_contract (snd w')"
proof (rule q_call_contract)
  show "q_wf (dropTcp ch q)" using assms(1) by (auto simp: q_contract_def q_ops split: option.split)
  show "q_call C Q c (s, dropTcp ch q) = Inr w'" using assms(3) by (simp add: q_drop_report_def)
  show "\<exists>l. link_after ch' (q_log (dropTcp ch q)) = Some l \<and> link_step ch' (Notify c) l = Some (q_phase (q_tcp (dropTcp ch q) ch'))" for ch'
    using assms(1,2) by (cases "ch' = ch") (auto simp: q_contract_def q_ops split: option.splits if_splits)
qed

lemma q_data_contract:
  assumes "q_contract q" and "q_phase (q_tcp q ch) = Up" and "q_call C Q (Call_tcpData ch b) (s, q) = Inr w'"
  shows "q_contract (snd w')"
proof (rule q_call_contract [OF _ _ assms(3)])
  show "\<exists>l. link_after ch' (q_log q) = Some l \<and> link_step ch' (Notify (Call_tcpData ch b)) l = Some (q_phase (q_tcp q ch'))" for ch'
    using assms(1,2) by (auto simp: q_contract_def)
qed (use assms(1) in \<open>simp add: q_contract_def\<close>)

lemma q_datagrams_contract: "q_contract (snd w) \<Longrightarrow> q_datagrams C Q u ds w = Inr w' \<Longrightarrow> q_contract (snd w')"
proof (induction ds arbitrary: w)
  case (Cons d ds)
  have call: "q_call C Q (Call_udpDatagram u b a) w = Inr v \<Longrightarrow> q_contract (snd v)" for b a v
    using q_plain_contract [of "snd w" "Call_udpDatagram u b a" C Q "fst w" v] Cons.prems(1) by simp
  show ?case
    using Cons.prems
    by (auto split: if_splits option.splits sum.splits dest!: call intro: Cons.IH)
qed simp

lemma q_signal_contract:
  assumes "q_contract (snd w)" and "qt_signal_ok g (snd w)" and "q_signal C Q g w = Inr w'"
  shows "q_contract (snd w')"
proof -
  obtain s q where w: "w = (s, q)" by fastforce
  have q: "q_contract q" using assms(1) by (simp add: w)
  show ?thesis
  proof (cases g)
    case (Q_connected ch obj la lp pa pp)
    show ?thesis
    proof (cases "live_tcp ch obj q")
      case True
      let ?q = "q\<lparr>q_tcp := (q_tcp q)(ch := (q_tcp q ch)\<lparr>qs_connected := True\<rparr>)\<rparr>"
      have "q_call C Q (Call_tcpConnected ch (endpointOf Q la lp) (endpointOf Q pa pp)) (s, ?q) = Inr w'"
        using assms(3) True by (simp add: w Q_connected)
      then show ?thesis
        using q assms(2) True
        by (intro q_call_contract [of ?q])
          (auto simp: w Q_connected q_contract_def q_wf_def q_phase_def live_tcp_def qt_signal_ok_def split: option.splits)
    qed (use assms(3) q in \<open>auto simp: w Q_connected\<close>)
  next
    case (Q_readyRead ch obj data)
    then show ?thesis
      using assms(2,3) q
      by (auto simp: w live_tcp_def q_phase_def qt_signal_ok_def split: if_splits intro: q_data_contract [OF q, rotated])
  next
    case (Q_errorOccurred ch obj remoteClosed why)
    then show ?thesis
      using assms(2,3) q
      by (auto simp: w live_tcp_def q_phase_def split: if_splits intro: q_closed_contract [OF q, rotated])
  next
    case (Q_disconnected ch obj)
    then show ?thesis
      using assms(2,3) q
      by (auto simp: w live_tcp_def q_phase_def qt_signal_ok_def split: if_splits intro: q_closed_contract [OF q, rotated])
  next
    case (Q_datagrams u obj ds)
    then show ?thesis
      using assms(3) q q_datagrams_contract [of "(s, q)" C Q u ds w'] by (auto simp: w split: if_splits)
  next
    case Q_timeout
    then show ?thesis
      using assms(3) q q_plain_contract [of q Call_tick C Q s]
      by (auto simp: w q_tick_def q_contract_def q_wf_def split: if_splits sum.splits)
  qed
qed

lemma qt_reachable_contract: "qt_reachable C Q w \<Longrightarrow> q_contract (snd w)"
proof (induction rule: qt_reachable.induct)
  case (new now wall)
  show ?case by (simp add: q_contract_def q_wf_def new_qhost_def q_phase_def link_after_def)
next
  case (app w c w')
  then have "link_step ch (Notify c) l = Some l" for ch l
    by (cases c) (simp_all add: app_call_def)
  then show ?case using app q_plain_contract [of "snd w" c C Q "fst w" w'] by simp
next
  case (signal w g w')
  then show ?case by (blast intro: q_signal_contract)
qed (simp_all add: q_contract_def q_wf_def q_drive_def q_release_def)


definition demo_qt :: qt where
  "demo_qt = \<lparr>qt_toIPv4Address = (\<lambda>_. None), qt_fromIPv4 = (\<lambda>_. []), qt_toString = (\<lambda>a. a),
     qt_bind = (\<lambda>i. Some (6000 + of_nat i))\<rparr>"

lemma demo_qt_started:
  "\<exists>w. qt_reachable demo_crypto demo_qt w \<and> qs_sock (q_tcp (snd w) TcpControl) = Some 3"
proof -
  let ?c = "Call_start ''10.0.0.2'' 7000 ''Kitchen'' 6000 6001 6002"
  obtain t where t: "start demo_crypto ''10.0.0.2'' 7000 ''Kitchen'' 6000 6001 6002 (new_sender 0 0) = Inr t"
      "s_out t = [UdpBind UdpTiming, UdpBind UdpControl, UdpBind UdpAudio, TcpConnect TcpControl ''10.0.0.2'' 7000]"
    using start_actions [of "new_sender 0 0" 6000 6001 6002 demo_crypto "''10.0.0.2''" 7000 "''Kitchen''"]
    by (auto simp: new_sender_def)
  define q where "q = fold (q_perform demo_qt) (s_out t) (qlog (Notify ?c) new_qhost)"
  have call: "q_call demo_crypto demo_qt ?c (new_sender 0 0, new_qhost) = Inr (t, q)"
    using t(1) by (simp add: q_call_def apply_call_def q_def) (simp add: new_sender_def)
  have q: "qs_sock (q_tcp q TcpControl) = Some 3"
      "bound_ports (q_log q) = [(UdpTiming, 6000), (UdpControl, 6001), (UdpAudio, 6002)]"
    by (simp_all add: q_def t(2) q_ops new_qhost_def demo_qt_def bound_ports_def List.map_filter_def Let_def)
  have "qt_reachable demo_crypto demo_qt (t, q)"
    using call q(2) by (intro qt_reachable.app [OF qt_reachable.new])
      (auto simp: app_call_def call_ok_def ports_agree_def new_qhost_def)
  then show ?thesis using q(1) by (intro exI [of _ "(t, q)"]) simp
qed


end
