(* ===== verification/Sender_Framing.thy ===== *)
theory Sender_Framing
  imports Sender_Safety
begin

text \<open>
  TCP delivers bytes, not messages: the two parsers of \<open>RaopSender\<close> take complete messages off
  the front of a buffer to which every delivery is appended. The interface \<open>stream_parser\<close> says
  when such a parser does not depend on how the stream is cut.
\<close>

section \<open>Parsers of a stream\<close>

text \<open>All complete messages at the front, and the rest; the length of the buffer is fuel enough.\<close>

fun take_messages :: "('a list \<Rightarrow> ('m \<times> 'a list) option) \<Rightarrow> nat \<Rightarrow> 'a list \<Rightarrow> 'm list \<times> 'a list" where
  "take_messages nx 0 buf = ([], buf)"
| "take_messages nx (Suc n) buf =
     (case nx buf of
        None \<Rightarrow> ([], buf)
      | Some (m, rest) \<Rightarrow> let (ms, rest') = take_messages nx n rest in (m # ms, rest'))"

definition messages :: "('a list \<Rightarrow> ('m \<times> 'a list) option) \<Rightarrow> 'a list \<Rightarrow> 'm list \<times> 'a list" where
  "messages nx buf = take_messages nx (length buf) buf"

text \<open>One delivery after another.\<close>

fun deliveries :: "('a list \<Rightarrow> ('m \<times> 'a list) option) \<Rightarrow> 'a list list \<Rightarrow> 'a list \<Rightarrow> 'm list \<times> 'a list" where
  "deliveries nx [] buf = ([], buf)"
| "deliveries nx (seg # segs) buf =
     (let (ms, rest) = messages nx (buf @ seg); (ms', rest') = deliveries nx segs rest in (ms @ ms', rest'))"

locale stream_parser =
  fixes nx :: "'a list \<Rightarrow> ('m \<times> 'a list) option"
  assumes shorter: "nx buf = Some (m, rest) \<Longrightarrow> length rest < length buf"
    and stable: "nx buf = Some (m, rest) \<Longrightarrow> nx (buf @ tail) = Some (m, rest @ tail)"
begin

lemma enough_fuel: "length buf \<le> n \<Longrightarrow> take_messages nx n buf = messages nx buf"
  unfolding messages_def
proof (induction "length buf" arbitrary: buf n rule: less_induct)
  case less
  show ?case
  proof (cases "nx buf")
    case None
    then show ?thesis by (cases n; cases "length buf") simp_all
  next
    case (Some p)
    obtain m rest where p: "p = (m, rest)" by fastforce
    then have r: "length rest < length buf" using Some shorter by simp
    then obtain k l where k: "n = Suc k" "length buf = Suc l" "length rest \<le> k" "length rest \<le> l"
      using less.prems by (cases n; cases "length buf") auto
    then show ?thesis
      using less.hyps [OF r, of k] less.hyps [OF r, of l] Some p by simp
  qed
qed

lemma messages_step: "messages nx buf =
    (case nx buf of None \<Rightarrow> ([], buf) | Some (m, rest) \<Rightarrow> let (ms, rest') = messages nx rest in (m # ms, rest'))"
proof (cases "nx buf")
  case (Some p)
  then obtain m rest where p: "nx buf = Some (m, rest)" by (cases p) simp
  then have "length rest < length buf" by (rule shorter)
  then obtain l where "length buf = Suc l" "length rest \<le> l" by (cases "length buf") auto
  then show ?thesis using p enough_fuel [of rest l] by (simp add: messages_def)
qed (cases "length buf"; simp add: messages_def)

lemma messages_append:
  "messages nx (buf @ tail) = (let (ms, rest) = messages nx buf; (ms', rest') = messages nx (rest @ tail) in (ms @ ms', rest'))"
proof (induction "length buf" arbitrary: buf rule: less_induct)
  case less
  show ?case
  proof (cases "nx buf")
    case None
    then show ?thesis by (simp add: messages_step [of buf])
  next
    case (Some p)
    then obtain m rest where p: "nx buf = Some (m, rest)" by (cases p) simp
    then show ?thesis
      using less.hyps [OF shorter [OF p]]
      by (simp add: messages_step [of buf] messages_step [of "buf @ tail"] stable [OF p] case_prod_beta Let_def)
  qed
qed

lemma nothing_yet: "messages nx [] = ([], [])"
  by (simp add: messages_def)

lemma rest_kept: "messages nx (snd (messages nx buf)) = ([], snd (messages nx buf))"
proof (induction "length buf" arbitrary: buf rule: less_induct)
  case less
  show ?case
  proof (cases "nx buf")
    case (Some p)
    then obtain m rest where p: "nx buf = Some (m, rest)" by (cases p) simp
    then show ?thesis
      using less.hyps [OF shorter [OF p]] by (simp add: messages_step [of buf] case_prod_beta Let_def)
  qed (simp add: messages_step [of buf])
qed

lemma deliveries_from: "messages nx buf = ([], buf) \<Longrightarrow> deliveries nx segs buf = messages nx (buf @ concat segs)"
proof (induction segs arbitrary: buf)
  case (Cons seg segs)
  have "deliveries nx segs (snd (messages nx (buf @ seg))) = messages nx (snd (messages nx (buf @ seg)) @ concat segs)"
    by (rule Cons.IH [OF rest_kept])
  then show ?case
    using messages_append [of "buf @ seg" "concat segs"] by (simp add: case_prod_beta Let_def)
qed simp

lemma any_segmentation: "deliveries nx segs [] = messages nx (concat segs)"
  using deliveries_from [OF nothing_yet, of segs] by simp

end

section \<open>The two parsers\<close>

lemma starts_with_app: "length p \<le> length s \<Longrightarrow> starts_with (s @ t) p = starts_with s p"
  by (simp add: starts_with_iff)

lemma find_str_append: "find_str s sub = Some i \<Longrightarrow> find_str (s @ t) sub = Some i"
proof (induction s arbitrary: i)
  case (Cons c s)
  show ?case
  proof (cases "starts_with (c # s) sub")
    case True
    then have "take (length sub) (c # s) = sub" by (simp add: starts_with_iff)
    then have "length sub \<le> length (c # s)" by (metis length_take min.cobounded1)
    then show ?thesis using True Cons.prems starts_with_app [of sub "c # s" t] by simp
  next
    case False
    with Cons.prems obtain j where j: "find_str s sub = Some j" "i = Suc j" by auto
    then have "length sub \<le> length (c # s)" using find_str_Some_length [of s sub j] by simp
    then show ?thesis using False j Cons.IH [OF j(1)] starts_with_app [of sub "c # s" t] by simp
  qed
qed (cases t; auto split: if_splits)

lemma next_message_stable:
  assumes "next_message rx = Some (r, rest)"
  shows "next_message (rx @ tail) = Some (r, rest @ tail)"
proof -
  obtain i where i: "find_str rx head_end = Some i" using assms by (auto simp: next_message_def split: option.splits)
  have "i \<le> length rx" using find_str_Some_length [OF i] by simp
  then show ?thesis
    using assms find_str_append [OF i, of tail] i
    by (auto simp: next_message_def Let_def substr_def split: if_splits)
qed

lemma event_request_stable:
  assumes "event_request rx = Some (r, rest)"
  shows "event_request (rx @ tail) = Some (r, rest @ tail)"
proof -
  obtain i where i: "find_str rx head_end = Some i" using assms by (auto simp: event_request_def split: option.splits)
  have "i \<le> length rx" using find_str_Some_length [OF i] by simp
  then show ?thesis
    using assms find_str_append [OF i, of tail] i
    by (auto simp: event_request_def Let_def split: if_splits prod.splits)
qed

interpretation replies: stream_parser next_message
  by unfold_locales (auto dest: next_message_shorter next_message_stable)

interpretation pushed: stream_parser event_request
  by unfold_locales (auto dest: event_request_shorter event_request_stable)


end
