(* ===== verification/Sender_Paired.thy ===== *)
theory Sender_Paired
  imports Sender_Watchdog
begin

text \<open>
  A session carried through pair-verify with stored credentials, call by call, up to the state in
  which the control channel is encrypted: the concrete run on which the facts about encrypted
  sessions are instantiated. The receiver's two replies are parsed by the sender's own parser;
  the primitives are \<open>demo_crypto\<close>.
\<close>

section \<open>The receiver's side\<close>

definition m2_inner :: bytes where
  "m2_inner = tlv_encode [(1,[2]), (0x0A,[4])] @ demo_tag (pad12 (toBytes ''PV-Msg02'')) []"

definition m2_body :: string where
  "m2_body = toStr (tlv_encode [(3, replicate 32 9), (5, m2_inner)])"

definition ok_head :: string where
  "ok_head = ''RTSP/1.0 200 OK'' @ crlf"

definition m2_reply :: string where
  "m2_reply = ok_head @ ''Content-Length: 58'' @ crlf @ crlf @ m2_body"

definition demo_creds :: RaopCreds where
  "demo_creds = \<lparr>ltsk = replicate 32 1, ltpk = [1], atvId = [2], clientId = ''c''\<rparr>"

text \<open>Nothing has been streamed and the clock has not moved.\<close>

definition unpaced :: "sender \<Rightarrow> bool" where
  "unpaced s \<longleftrightarrow> s_now s = 0 \<and> s_clockStart s = 0 \<and> s_framesSent s = 0 \<and> t_interval (s_pacer s) = ms kPacerMs
     \<and> t_due (s_pacer s) \<le> ms kPacerMs \<and> \<not> s_waitingForPin s
     \<and> rs_inBuf (s_rs s) = [] \<and> rs_srcPhase (s_rs s) = 0
     \<and> s_eventEncBuf s = [] \<and> s_eventPlainBuf s = []"

text \<open>Between two pair-verify messages: one request is outstanding.\<close>

definition verifying :: "pair_stage \<Rightarrow> sender \<Rightarrow> bool" where
  "verifying st s \<longleftrightarrow> s_state s = Pairing \<and> s_pairStage s = st \<and> s_airplay2 s \<and> s_authMethod s = Auth_HapPin
     \<and> \<not> s_strictAuth s \<and> \<not> s_controlEncrypted s \<and> s_rxBuf s = [] \<and> s_pendingMethods s = [''POST'']
     \<and> s_pendingIsHttp s = [True] \<and> unpaced s"

lemma demo_parts: "c_ed_keypair demo_crypto seed = (seed, seed @ seed)" "c_random demo_crypto k n = replicate n (of_nat (k + 1))"
  "c_x25519 demo_crypto x y = replicate 32 7" "c_x25519_base demo_crypto x = replicate 32 9"
  "length (c_hkdf demo_crypto salt info ikm n) = n"
  "c_seal demo_crypto key nonce aad pt = (pt, demo_tag nonce aad)"
  "c_open demo_crypto key nonce aad ct tg = (if tg = demo_tag nonce aad then Some ct else None)"
  "c_ed_sign demo_crypto m p q = replicate 64 3"
  by (simp_all add: demo_crypto_def min_def)

section \<open>Call by call\<close>

lemma begin_stage:
  "\<exists>s. run_calls demo_crypto
     [Call_setAuth Auth_HapPin True [] (raopCredsToJson demo_creds) [], Call_start [] 7000 [] 1 2 3] (new_sender 0 0) = Inr s
   \<and> s_state s = Connecting \<and> s_airplay2 s \<and> s_authMethod s = Auth_HapPin \<and> \<not> s_strictAuth s \<and> \<not> s_controlEncrypted s
   \<and> s_rxBuf s = [] \<and> s_pendingMethods s = [] \<and> s_pendingIsHttp s = [] \<and> s_credsJson s = raopCredsToJson demo_creds \<and> unpaced s"
  by (simp add: unpaced_def kPacerMs_def apply_call_def start_def stop_def setAuth_def new_sender_def new_timer_def run.simps upd_def io_def emit_def reset_session_def fresh_ids_def
     rand32_def rand64_def rand16_def draw_def arm_def Let_def del: replicate.simps)

text \<open>A success that answers the only outstanding request.\<close>

lemma m2_parsed:
  "\<exists>hs. next_message m2_reply = Some (\<lparr>r_status = ''RTSP/1.0 200 OK'', r_headers = hs, r_body = m2_body\<rparr>, [])"
proof -
  have "map_option (\<lambda>(r, rest). (r_status r, r_body r, rest)) (next_message m2_reply)
      = Some (''RTSP/1.0 200 OK'', m2_body, [])" by code_simp
  then obtain r where "next_message m2_reply = Some (r, [])" "r_status r = ''RTSP/1.0 200 OK''" "r_body r = m2_body" by auto
  then show ?thesis by (cases r) auto
qed

lemma m4_parsed:
  "\<exists>hs. next_message (ok_head @ crlf) = Some (\<lparr>r_status = ''RTSP/1.0 200 OK'', r_headers = hs, r_body = []\<rparr>, [])"
proof -
  have "map_option (\<lambda>(r, rest). (r_status r, r_body r, rest)) (next_message (ok_head @ crlf))
      = Some (''RTSP/1.0 200 OK'', [], [])" by code_simp
  then obtain r where "next_message (ok_head @ crlf) = Some (r, [])" "r_status r = ''RTSP/1.0 200 OK''" "r_body r = []" by auto
  then show ?thesis by (cases r) auto
qed

lemma status_200: "splitOn ''RTSP/1.0 200 OK'' (CHR '' '') = [''RTSP/1.0'', ''200'', ''OK'']" "toInt ''200'' = 200"
  by code_simp+

lemma reply_stage:
  assumes v: "verifying st s" and a: "s_ap2 s = Some a"
    and m: "next_message reply = Some (\<lparr>r_status = ''RTSP/1.0 200 OK'', r_headers = hs, r_body = body\<rparr>, [])"
    and len: "length reply \<le> 4 * 1024 * 1024" "reply \<noteq> []"
    and r: "onPairingResponse C 200 body (s\<lparr>s_rxBuf := [], s_pendingMethods := [], s_pendingIsHttp := []\<rparr>) = Inr s'" "s_rxBuf s' = []"
  shows "apply_call C (Call_tcpData TcpControl (toBytes reply)) s = Inr s'"
proof -
  have n: "next_message [] = None" by code_simp
  from v have d: "dispatch C \<lparr>r_status = ''RTSP/1.0 200 OK'', r_headers = hs, r_body = body\<rparr> (s\<lparr>s_rxBuf := []\<rparr>) = Inr s'"
    using r(1) by (simp add: dispatch_def verifying_def status_200 Let_def)
  obtain k where k: "length reply = Suc k" using len(2) by (cases reply) auto
  from v a len m n d r(2) k show ?thesis
    by (simp add: apply_call_def onTcpData_def onRtspReadyRead_def Let_def verifying_def message_loop.simps)
qed

lemma connect_stage:
  assumes "s_state s = Connecting" "s_airplay2 s" "s_authMethod s = Auth_HapPin" "\<not> s_strictAuth s" "\<not> s_controlEncrypted s"
    "s_rxBuf s = []" "s_pendingMethods s = []" "s_pendingIsHttp s = []" "s_credsJson s = raopCredsToJson demo_creds" "unpaced s"
  shows "\<exists>s' a. apply_call demo_crypto (Call_tcpConnected TcpControl e1 e2) s = Inr s' \<and> verifying PS_VerifyM2 s' \<and> s_ap2 s' = Some a
    \<and> length (kp_priv (a_verifyKeys a)) = 32 \<and> length (a_ltSeed a) = 32"
proof -
  have "raopCredsToJson demo_creds \<noteq> []" by (simp add: raopCredsToJson_def jsonEscapeInto_def)
  then show ?thesis using assms
    by (simp add: unpaced_def apply_call_def onTcpConnected_def beginAuthChain_def beginHapPin_def renew_ap2_def draw_uuid_def draw_def Let_def
     on_ap2_def creds_from_to load_creds_def demo_creds_def ed25519PublicFromSeed_def sendPairVerifyM1_def post_tlv_def httpPost_def
     run.simps upd_def writeRtsp_def io_def emit_def queue_method_def verifying_def arm_def x25519Generate_def demo_parts
     del: replicate.simps)
qed

text \<open>The keys of a session are there.\<close>

definition keys_set :: "RaopAp2State \<Rightarrow> bool" where
  "keys_set a \<longleftrightarrow> length (a_controlOut a) = 32 \<and> length (a_controlIn a) = 32 \<and> length (a_sharedSecret a) = 32
     \<and> length (a_eventOut a) = 32 \<and> length (a_eventIn a) = 32"

lemma m2_stage:
  assumes v: "verifying PS_VerifyM2 s" and a: "s_ap2 s = Some a" and k: "length (kp_priv (a_verifyKeys a)) = 32" "length (a_ltSeed a) = 32"
  shows "\<exists>s' a. apply_call demo_crypto (Call_tcpData TcpControl (toBytes m2_reply)) s = Inr s' \<and> verifying PS_VerifyDone s' \<and> s_ap2 s' = Some a
    \<and> keys_set a"
proof -
  obtain hs where m: "next_message m2_reply = Some (\<lparr>r_status = ''RTSP/1.0 200 OK'', r_headers = hs, r_body = m2_body\<rparr>, [])"
    using m2_parsed by blast
  have t: "tlv_decode (toBytes m2_body) = [(3, replicate 32 9), (5, m2_inner)]" by code_simp
  have s: "foldl (OR) 0 (replicate 32 7 :: bytes) = 7" by code_simp
  have l: "length m2_reply = 97" by code_simp
  have i: "length m2_inner = 22" "drop 6 m2_inner = demo_tag (pad12 (toBytes ''PV-Msg02'')) []"
    "tlv_decode (take 6 m2_inner) = [(1,[2]), (0x0A,[4])]"
    by code_simp+
  obtain s' a' where r: "onPairingResponse demo_crypto 200 m2_body (s\<lparr>s_rxBuf := [], s_pendingMethods := [], s_pendingIsHttp := []\<rparr>) = Inr s'" 
     and v': "s_rxBuf s' = []" "verifying PS_VerifyDone s'"  "s_ap2 s' = Some a'" "keys_set a'"
    using v a k
    by (simp add: unpaced_def keys_set_def onPairingResponse_def verifying_def handlePairVerifyM2_def t on_ap2_def Let_def x25519SharedSecret_def demo_parts s
      chacha20Poly1305Decrypt_def chacha20Poly1305Encrypt_def i sendPairVerifyM3_def ed25519Sign_def post_tlv_def httpPost_def
     run.simps upd_def writeRtsp_def io_def emit_def queue_method_def arm_def event_keys_def control_keys_def del: replicate.simps)
  show ?thesis using reply_stage [OF v a m _ _ r v'(1)] l v' by fastforce
qed

text \<open>The control channel is encrypted, and one request is outstanding.\<close>

definition settled :: "pair_stage \<Rightarrow> RaopAp2State \<Rightarrow> sender \<Rightarrow> bool" where
  "settled st a s \<longleftrightarrow> s_state s = Handshake \<and> s_pairStage s = st \<and> s_airplay2 s \<and> s_authMethod s = Auth_HapPin
     \<and> s_controlEncrypted s \<and> s_rxBuf s = [] \<and> s_rtspEncBuf s = [] \<and> length (s_pendingMethods s) = 1
     \<and> s_pendingIsHttp s = [True] \<and> s_ap2 s = Some a \<and> keys_set a \<and> unpaced s"

definition sealed_by :: "RaopAp2State \<Rightarrow> 64 word \<Rightarrow> string \<Rightarrow> string \<times> 64 word" where
  "sealed_by a ctr data = (case seal_frames demo_crypto (a_controlOut a) ctr data of Inl e \<Rightarrow> ([], 0) | Inr p \<Rightarrow> p)"

lemma sealing:
  assumes "keys_set a"
  shows "seal_frames demo_crypto (a_controlOut a) ctr data = Inr (fst (sealed_by a ctr data), snd (sealed_by a ctr data))"
proof -
  have "length (a_controlOut a) = 32" using assms by (simp add: keys_set_def)
  from open_sealed [OF demo_crypto_ok this, of ctr data] show ?thesis by (auto simp: sealed_by_def)
qed

lemmas sending_defs = run.simps upd_def writeRtsp_def io_def emit_def queue_method_def arm_def Let_def sendAp2Rtsp_def case_prod_beta

lemma m4_stage:
  assumes v: "verifying PS_VerifyDone s" and a: "s_ap2 s = Some a" and k: "keys_set a"
  shows "\<exists>s'. apply_call demo_crypto (Call_tcpData TcpControl (toBytes (ok_head @ crlf))) s = Inr s' \<and> settled PS_Ap2Info a s'"
proof -
  obtain hs where m: "next_message (ok_head @ crlf) = Some (\<lparr>r_status = ''RTSP/1.0 200 OK'', r_headers = hs, r_body = []\<rparr>, [])"
    using m4_parsed by blast
  have l: "length (ok_head @ crlf) = 19" by code_simp
  have o: "seal_frames demo_crypto (a_controlOut a) ctr data = Inr (fst (sealed_by a ctr data), snd (sealed_by a ctr data))" for ctr data
    using sealing [OF k] .
  obtain s' where r: "onPairingResponse demo_crypto 200 [] (s\<lparr>s_rxBuf := [], s_pendingMethods := [], s_pendingIsHttp := []\<rparr>) = Inr s'"
     and v': "s_rxBuf s' = []" "settled PS_Ap2Info a s'"
    using v a k
    by (simp add: unpaced_def settled_def keys_set_def onPairingResponse_def verifying_def afterAuthOk_def sendAp2Info_def o sending_defs)
  show ?thesis using reply_stage [OF v a m _ _ r v'(1)] l v' by fastforce
qed

text \<open>A success that comes encrypted.\<close>

lemma sealed_reply_stage:
  assumes v: "settled st a s"
    and m: "next_message reply = Some (\<lparr>r_status = ''RTSP/1.0 200 OK'', r_headers = hs, r_body = body\<rparr>, [])"
    and len: "length reply \<le> 4 * 1024 * 1024" "reply \<noteq> []"
    and r: "\<And>c. \<exists>s'. onPairingResponse demo_crypto 200 body (s\<lparr>s_ctrlRecvCtr := c, s_rtspEncBuf := [], s_rxBuf := [], s_pendingMethods := [], s_pendingIsHttp := []\<rparr>) = Inr s'
      \<and> s_rxBuf s' = [] \<and> P s'"
  shows "\<exists>s' bytes. apply_call demo_crypto (Call_tcpData TcpControl bytes) s = Inr s' \<and> P s'"
proof -
  obtain out c where "seal_frames demo_crypto (a_controlIn a) (s_ctrlRecvCtr s) reply = Inr (out, c)"
    and o: "\<forall>rest. open_frames demo_crypto (a_controlIn a) (s_ctrlRecvCtr s) (out @ rest)
       = (let (ok, plain, c, r) = open_frames demo_crypto (a_controlIn a) c rest in (ok, reply @ plain, c, r))"
    using open_sealed [OF demo_crypto_ok, of "a_controlIn a" "s_ctrlRecvCtr s" reply] v by (auto simp: settled_def keys_set_def)
  have o: "open_frames demo_crypto (a_controlIn a) (s_ctrlRecvCtr s) out = (True, reply, c, [])"
    using o [rule_format, of "[]"] by (simp add: open_frames_short)
  obtain s' where s': "onPairingResponse demo_crypto 200 body (s\<lparr>s_ctrlRecvCtr := c, s_rtspEncBuf := [], s_rxBuf := [], s_pendingMethods := [], s_pendingIsHttp := []\<rparr>) = Inr s'"
    "s_rxBuf s' = []" "P s'" using r by blast
  have n: "next_message [] = None" by code_simp
  obtain mt where pm: "s_pendingMethods s = [mt]" using v by (auto simp: settled_def length_Suc_conv)
  have d: "dispatch demo_crypto \<lparr>r_status = ''RTSP/1.0 200 OK'', r_headers = hs, r_body = body\<rparr>
      (s\<lparr>s_ctrlRecvCtr := c, s_rtspEncBuf := [], s_rxBuf := []\<rparr>) = Inr s'"
    using s'(1) v pm by (simp add: dispatch_def settled_def status_200 Let_def)
  obtain k where k: "length reply = Suc k" using len(2) by (cases reply) auto
  have "apply_call demo_crypto (Call_tcpData TcpControl (toBytes out)) s = Inr s'"
    using v o len m n d s'(2) k pm
    by (simp add: apply_call_def onTcpData_def onRtspReadyRead_def Let_def settled_def message_loop.simps)
  with s'(3) show ?thesis by blast
qed

lemma empty_reply_stage:
  assumes v: "settled st a s"
    and r: "\<And>c. \<exists>s'. onPairingResponse demo_crypto 200 [] (s\<lparr>s_ctrlRecvCtr := c, s_rtspEncBuf := [], s_rxBuf := [], s_pendingMethods := [], s_pendingIsHttp := []\<rparr>) = Inr s'
      \<and> s_rxBuf s' = [] \<and> P s'"
  shows "\<exists>s' bytes. apply_call demo_crypto (Call_tcpData TcpControl bytes) s = Inr s' \<and> P s'"
proof -
  have "length (ok_head @ crlf) = 19" by code_simp
  then show ?thesis using m4_parsed sealed_reply_stage [OF v _ _ _ r, of "ok_head @ crlf"] by fastforce
qed

lemma info_stage:
  assumes v: "settled PS_Ap2Info a s"
  shows "\<exists>s' bytes. apply_call demo_crypto (Call_tcpData TcpControl bytes) s = Inr s' \<and> settled PS_Ap2Session a s'"
proof (rule empty_reply_stage [OF v])
  fix c
  have o: "seal_frames demo_crypto (a_controlOut a) ctr data = Inr (fst (sealed_by a ctr data), snd (sealed_by a ctr data))" for ctr data
    using sealing [of a] v by (simp add: settled_def)
  show "\<exists>s'. onPairingResponse demo_crypto 200 [] (s\<lparr>s_ctrlRecvCtr := c, s_rtspEncBuf := [], s_rxBuf := [], s_pendingMethods := [], s_pendingIsHttp := []\<rparr>) = Inr s'
      \<and> s_rxBuf s' = [] \<and> settled PS_Ap2Session a s'"
    using v by (simp add: unpaced_def settled_def onPairingResponse_def sendAp2SetupSession_def on_ap2_def o sending_defs)
qed

lemma session_stage:
  assumes v: "settled PS_Ap2Session a s"
  shows "\<exists>s' bytes. apply_call demo_crypto (Call_tcpData TcpControl bytes) s = Inr s' \<and> settled PS_Ap2Record a s'"
proof (rule empty_reply_stage [OF v])
  fix c
  have o: "seal_frames demo_crypto (a_controlOut a) ctr data = Inr (fst (sealed_by a ctr data), snd (sealed_by a ctr data))" for ctr data
    using sealing [of a] v by (simp add: settled_def)
  have d: "bp_decode (toBytes []) = None" by code_simp
  show "\<exists>s'. onPairingResponse demo_crypto 200 [] (s\<lparr>s_ctrlRecvCtr := c, s_rtspEncBuf := [], s_rxBuf := [], s_pendingMethods := [], s_pendingIsHttp := []\<rparr>) = Inr s'
      \<and> s_rxBuf s' = [] \<and> settled PS_Ap2Record a s'"
    using v by (simp add: unpaced_def settled_def onPairingResponse_def handleAp2SetupSession_def sendAp2Record_def on_ap2_def d o sending_defs)
qed

lemma record_stage:
  assumes v: "settled PS_Ap2Record a s"
  shows "\<exists>s' bytes. apply_call demo_crypto (Call_tcpData TcpControl bytes) s = Inr s'
    \<and> settled PS_Ap2Stream (a\<lparr>a_audioKey := take 32 (a_sharedSecret a), a_audioNonce := 0, a_encryptAudio := True\<rparr>) s'"
proof (rule empty_reply_stage [OF v])
  fix c
  have o: "seal_frames demo_crypto (a_controlOut a) ctr data = Inr (fst (sealed_by a ctr data), snd (sealed_by a ctr data))" for ctr data
    using sealing [of a] v by (simp add: settled_def)
  show "\<exists>s'. onPairingResponse demo_crypto 200 [] (s\<lparr>s_ctrlRecvCtr := c, s_rtspEncBuf := [], s_rxBuf := [], s_pendingMethods := [], s_pendingIsHttp := []\<rparr>) = Inr s'
      \<and> s_rxBuf s' = [] \<and> settled PS_Ap2Stream (a\<lparr>a_audioKey := take 32 (a_sharedSecret a), a_audioNonce := 0, a_encryptAudio := True\<rparr>) s'"
    using v by (simp add: unpaced_def settled_def keys_set_def onPairingResponse_def sendAp2SetupStream_def on_ap2_def o sending_defs)
qed

text \<open>The receiver names its data port.\<close>

definition stream_body :: string where
  "stream_body = toStr (bp_encode (VDict [(''streams'', VArr [VDict [(''dataPort'', VInt 6000)]])]))"

definition stream_reply :: string where
  "stream_reply = ok_head @ ''Content-Length: 107'' @ crlf @ crlf @ stream_body"

lemma stream_parsed:
  "\<exists>hs. next_message stream_reply = Some (\<lparr>r_status = ''RTSP/1.0 200 OK'', r_headers = hs, r_body = stream_body\<rparr>, [])"
proof -
  have "map_option (\<lambda>(r, rest). (r_status r, r_body r, rest)) (next_message stream_reply)
      = Some (''RTSP/1.0 200 OK'', stream_body, [])" by code_simp
  then obtain r where "next_message stream_reply = Some (r, [])" "r_status r = ''RTSP/1.0 200 OK''" "r_body r = stream_body" by auto
  then show ?thesis by (cases r) auto
qed

definition streaming_with :: "RaopAp2State \<Rightarrow> sender \<Rightarrow> bool" where
  "streaming_with a s \<longleftrightarrow> s_state s = Streaming \<and> s_controlEncrypted s \<and> s_rxBuf s = [] \<and> s_airplay2 s \<and> s_ap2 s = Some a \<and> unpaced s"

text \<open>A handler that comes to an end without a fault.\<close>

abbreviation ends_in :: "(sender \<Rightarrow> bool) \<Rightarrow> sender result \<Rightarrow> bool" where
  "ends_in P r \<equiv> \<exists>t. r = Inr t \<and> P t"

lemma run_ends: "P s \<Longrightarrow> (\<And>f t. f \<in> set fs \<Longrightarrow> P t \<Longrightarrow> ends_in P (f t)) \<Longrightarrow> ends_in P (run fs s)"
proof (induction fs arbitrary: s)
  case (Cons f fs)
  then obtain t where "f s = Inr t" "P t" by fastforce
  with Cons show ?case by (simp add: run.simps)
qed (simp add: run.simps)

lemma streaming_with_simps [simp]:
  "streaming_with a s \<Longrightarrow> streaming_with a (s\<lparr>s_startTs := n1, s_framesSent := 0, s_firstAudio := b, s_clockStart := s_now s\<rparr>)"
  "streaming_with a (sendSyncPacket True s) = streaming_with a s"
  "streaming_with a (emit e s) = streaming_with a s"
  "streaming_with a (s\<lparr>s_pendingVolumeDb := v\<rparr>) = streaming_with a s"
  "streaming_with a (s_feedbackTimer_update f s) = streaming_with a s"
  "streaming_with a s \<Longrightarrow> streaming_with a (arm s_pacer_update s)"
  "streaming_with a (arm s_feedbackTimer_update s) = streaming_with a s"
  "streaming_with a (arm s_syncTimer_update s) = streaming_with a s"
  "streaming_with a (disarm s_timeout_update s) = streaming_with a s"
  by (simp_all add: unpaced_def streaming_with_def sendSyncPacket_def arm_def disarm_def emit_def Let_def)

lemma streaming_request:
  assumes "keys_set a" and "streaming_with a s"
  shows "ends_in (streaming_with a) (sendRequest demo_crypto m u ct body extra s)"
  using assms by (simp add: streaming_with_def unpaced_def sendRequest_def sending_defs sealing)

lemma streaming_starts:
  assumes k: "keys_set a" and v: "streaming_with a (s\<lparr>s_state := Streaming\<rparr>)"
  shows "ends_in (streaming_with a) (startStreaming demo_crypto s)"
proof -
  note q = streaming_request [OF k]
  have m: "ends_in (streaming_with a) (sendMetadata demo_crypto t)" if "streaming_with a t" for t
    unfolding sendMetadata_def Let_def using that by (auto intro!: run_ends split: if_splits) (auto simp: q)
  have n: "streaming_with a t \<Longrightarrow> s_airplay2 t" for t by (simp add: streaming_with_def)
  show ?thesis
    unfolding startStreaming_def
    by (simp only: run_simps, intro run_ends)
      (auto simp: upd_def io_def sendVolume_def q m n v)
qed

lemma stream_stage:
  assumes v: "settled PS_Ap2Stream a s"
  shows "\<exists>s' bytes. apply_call demo_crypto (Call_tcpData TcpControl bytes) s = Inr s' \<and> streaming_with a s'"
proof -
  obtain hs where m: "next_message stream_reply = Some (\<lparr>r_status = ''RTSP/1.0 200 OK'', r_headers = hs, r_body = stream_body\<rparr>, [])"
    using stream_parsed by blast
  have l: "length stream_reply = 147" by code_simp
  have p: "stream_ports stream_body = (6000, 0)" by code_simp
  have k: "keys_set a" using v by (simp add: settled_def)
  have r: "\<exists>s'. onPairingResponse demo_crypto 200 stream_body (s\<lparr>s_ctrlRecvCtr := c, s_rtspEncBuf := [], s_rxBuf := [], s_pendingMethods := [], s_pendingIsHttp := []\<rparr>) = Inr s'
      \<and> s_rxBuf s' = [] \<and> streaming_with a s'" for c
  proof -
    let ?t = "s\<lparr>s_ctrlRecvCtr := c, s_rtspEncBuf := [], s_rxBuf := [], s_pendingMethods := [], s_pendingIsHttp := []\<rparr>"
    let ?u = "?t\<lparr>s_serverPort := 6000, s_controlPort := 6000, s_timingPort := 6000\<rparr>"
    have "streaming_with a (?u\<lparr>s_state := Streaming\<rparr>)" using v by (simp add: unpaced_def settled_def streaming_with_def)
    then have "ends_in (streaming_with a) (startStreaming demo_crypto ?u)" by (rule streaming_starts [OF k])
    moreover have "onPairingResponse demo_crypto 200 stream_body ?t = startStreaming demo_crypto ?u"
      using v by (simp add: settled_def onPairingResponse_def handleAp2SetupStream_def p)
    ultimately show ?thesis by (auto simp: streaming_with_def)
  qed
  show ?thesis using sealed_reply_stage [OF v m _ _ r] l by fastforce
qed

section \<open>The whole session\<close>

lemma reachable_run: "run_calls C cs s = Inr s' \<Longrightarrow> sender_reachable C s \<Longrightarrow> (\<And>c s. c \<in> set cs \<Longrightarrow> call_ok c s) \<Longrightarrow> sender_reachable C s'"
proof (induction cs arbitrary: s)
  case (Cons c cs)
  then obtain t where t: "apply_call C c s = Inr t" "run_calls C cs t = Inr s'" by (auto split: sum.splits)
  have "sender_reachable C t" using sender_reachable.step [OF Cons.prems(2) _ t(1)] Cons.prems(3) by simp
  with Cons.IH [OF t(2)] Cons.prems(3) show ?case by simp
qed simp

lemma reachable_data:
  "sender_reachable C s \<Longrightarrow> apply_call C (Call_tcpData ch bytes) s = Inr s' \<Longrightarrow> sender_reachable C s'"
  by (rule sender_reachable.step) (auto simp: call_ok_def)

lemma session_settles: "\<exists>s a. sender_reachable demo_crypto s \<and> settled PS_Ap2Info a s"
proof -
  obtain s1 where s1: "sender_reachable demo_crypto s1"
    "s_state s1 = Connecting" "s_airplay2 s1" "s_authMethod s1 = Auth_HapPin" "\<not> s_strictAuth s1" "\<not> s_controlEncrypted s1"
    "s_rxBuf s1 = []" "s_pendingMethods s1 = []" "s_pendingIsHttp s1 = []" "s_credsJson s1 = raopCredsToJson demo_creds" "unpaced s1"
  proof -
    from begin_stage obtain s where b: "run_calls demo_crypto
        [Call_setAuth Auth_HapPin True [] (raopCredsToJson demo_creds) [], Call_start [] 7000 [] 1 2 3] (new_sender 0 0) = Inr s"
      "s_state s = Connecting" "s_airplay2 s" "s_authMethod s = Auth_HapPin" "\<not> s_strictAuth s" "\<not> s_controlEncrypted s"
      "s_rxBuf s = []" "s_pendingMethods s = []" "s_pendingIsHttp s = []" "s_credsJson s = raopCredsToJson demo_creds"
      "unpaced s" by metis
    have "sender_reachable demo_crypto s"
      by (rule reachable_run [OF b(1) sender_reachable.new]) (auto simp: call_ok_def)
    from that [OF this b(2-)] show thesis .
  qed
  obtain s2 a2 where c2: "apply_call demo_crypto (Call_tcpConnected TcpControl \<lparr>ep_ip = [], ep_port = 1\<rparr> \<lparr>ep_ip = [], ep_port = 2\<rparr>) s1 = Inr s2" and s2: "verifying PS_VerifyM2 s2"
    "s_ap2 s2 = Some a2" "length (kp_priv (a_verifyKeys a2)) = 32" "length (a_ltSeed a2) = 32"
    using connect_stage [OF s1(2-)] by blast
  have r2: "sender_reachable demo_crypto s2"
    by (rule sender_reachable.step [OF s1(1) _ c2]) (simp add: call_ok_def)
  obtain s3 a3 where c3: "apply_call demo_crypto (Call_tcpData TcpControl (toBytes m2_reply)) s2 = Inr s3"
    and s3: "verifying PS_VerifyDone s3" "s_ap2 s3 = Some a3" "keys_set a3"
    using m2_stage [OF s2] by blast
  from m4_stage [OF s3] reachable_data [OF reachable_data [OF r2 c3]] show ?thesis by blast
qed

lemma encrypted_session: "\<exists>s. sender_reachable demo_crypto s \<and> s_controlEncrypted s"
  using session_settles by (auto simp: settled_def)

lemma streaming_session:
  "\<exists>s a. sender_reachable demo_crypto s \<and> streaming_with a s \<and> a_encryptAudio a \<and> keys_set a"
proof -
  obtain s1 a1 where s1: "sender_reachable demo_crypto s1" "settled PS_Ap2Info a1 s1" using session_settles by blast
  obtain s2 where s2: "sender_reachable demo_crypto s2" "settled PS_Ap2Session a1 s2"
    using info_stage [OF s1(2)] reachable_data [OF s1(1)] by blast
  obtain s3 where s3: "sender_reachable demo_crypto s3" "settled PS_Ap2Record a1 s3"
    using session_stage [OF s2(2)] reachable_data [OF s2(1)] by blast
  obtain s4 a4 where s4: "sender_reachable demo_crypto s4" "settled PS_Ap2Stream a4 s4" "a_encryptAudio a4"
    using record_stage [OF s3(2)] reachable_data [OF s3(1)] by fastforce
  obtain s5 where "sender_reachable demo_crypto s5" "streaming_with a4 s5"
    using stream_stage [OF s4(2)] reachable_data [OF s4(1)] by blast
  moreover have "keys_set a4" using s4(2) by (simp add: settled_def)
  ultimately show ?thesis using s4(3) by blast
qed

end
