(* ===== verification/Sender_Control.thy ===== *)
theory Sender_Control
  imports Sender_Paired
begin

text \<open>
  What goes over the control channel once it is encrypted: an ordered sequence of frames, sealed
  under one key with the counters 0, 1, 2 and so on, none left out and none used twice. The
  invariant behind it also shows the lockstep of the set-up: one pairing request is outstanding
  at a time, none while the user is asked for a PIN, and the keys never change under traffic.
\<close>

section \<open>The invariant\<close>

text \<open>What was queued for the control channel, in order.\<close>

definition control_sends :: "action list \<Rightarrow> string list" where
  "control_sends acts = List.map_filter (\<lambda>a. case a of TcpSend TcpControl d \<Rightarrow> Some d | _ \<Rightarrow> None) acts"

lemma control_sends_simps [simp]:
  "control_sends [] = []" "control_sends (xs @ ys) = control_sends xs @ control_sends ys"
  "control_sends [TcpSend TcpControl d] = [d]"
  by (simp_all add: control_sends_def map_filter_simps) (simp add: List.map_filter_def)

text \<open>Frame \<open>i\<close> is chunk \<open>i\<close>, sealed with the counter \<open>i\<close>.\<close>

definition counted_frames :: "crypto \<Rightarrow> bytes \<Rightarrow> string list \<Rightarrow> string list \<Rightarrow> bool" where
  "counted_frames C key chunks frames \<longleftrightarrow>
     length frames = length chunks \<and> (\<forall>c \<in> set chunks. length c \<le> 1024)
     \<and> (\<forall>i < length chunks. seal_frame C key (of_nat i) (chunks ! i) = Inr (frames ! i))"

definition sealed :: "crypto \<Rightarrow> sender \<Rightarrow> bool" where
  "sealed C s \<longleftrightarrow> (s_controlEncrypted s \<longrightarrow>
     (\<exists>key before after chunks frames. map_option a_controlOut (s_ap2 s) = Some key
        \<and> s_out s = before @ after \<and> concat (control_sends after) = concat frames
        \<and> counted_frames C key chunks frames \<and> s_ctrlSendCtr s = of_nat (length chunks)))"

definition late :: "pair_stage \<Rightarrow> bool" where
  "late st \<longleftrightarrow> st \<in> {PS_Done, PS_Ap2Info, PS_Ap2Session, PS_Ap2Record, PS_Ap2Stream}"

definition calm :: "crypto \<Rightarrow> sender \<Rightarrow> bool" where
  "calm C s \<longleftrightarrow> sealed C s \<and> (s_controlEncrypted s \<longrightarrow> late (s_pairStage s) \<and> \<not> s_waitingForPin s)"

abbreviation awaited :: "sender \<Rightarrow> nat" where
  "awaited s \<equiv> count_list (s_pendingIsHttp s) True"

text \<open>Between two calls, and where a handler may send the next pairing request.\<close>

definition keyed :: "crypto \<Rightarrow> sender \<Rightarrow> bool" where
  "keyed C s \<longleftrightarrow> calm C s \<and> (pairing_live s \<longrightarrow> awaited s \<le> 1 \<and> (s_waitingForPin s \<longrightarrow> awaited s = 0))
     \<and> (s_state s = Connecting \<longrightarrow> \<not> s_controlEncrypted s \<and> awaited s = 0 \<and> \<not> s_waitingForPin s)"

definition ready :: "crypto \<Rightarrow> sender \<Rightarrow> bool" where
  "ready C s \<longleftrightarrow> calm C s \<and> s_state s \<noteq> Connecting \<and> (pairing_live s \<longrightarrow> awaited s = 0 \<and> \<not> s_waitingForPin s)"

lemma ready_keyed: "ready C s \<Longrightarrow> keyed C s"
  by (simp add: ready_def keyed_def)

named_theorems key_defs

lemmas [key_defs] = keyed_def ready_def calm_def pairing_live_def

lemma key_fields [simp]:
  "keyed C (s_now_update f0 s) = keyed C s" "ready C (s_now_update f0 s) = ready C s"
  "keyed C (s_wall_update f1 s) = keyed C s" "ready C (s_wall_update f1 s) = ready C s"
  "keyed C (s_draws_update f2 s) = keyed C s" "ready C (s_draws_update f2 s) = ready C s"
  "keyed C (s_identity_update f3 s) = keyed C s" "ready C (s_identity_update f3 s) = ready C s"
  "keyed C (s_strictAuth_update f4 s) = keyed C s" "ready C (s_strictAuth_update f4 s) = ready C s"
  "keyed C (s_rtspConnected_update f5 s) = keyed C s" "ready C (s_rtspConnected_update f5 s) = ready C s"
  "keyed C (s_udpBound_update f6 s) = keyed C s" "ready C (s_udpBound_update f6 s) = ready C s"
  "keyed C (s_localIp_update f7 s) = keyed C s" "ready C (s_localIp_update f7 s) = ready C s"
  "keyed C (s_hostIp_update f8 s) = keyed C s" "ready C (s_hostIp_update f8 s) = ready C s"
  "keyed C (s_localControlPort_update f9 s) = keyed C s" "ready C (s_localControlPort_update f9 s) = ready C s"
  "keyed C (s_localTimingPort_update f10 s) = keyed C s" "ready C (s_localTimingPort_update f10 s) = ready C s"
  "keyed C (s_rxBuf_update f11 s) = keyed C s" "ready C (s_rxBuf_update f11 s) = ready C s"
  "keyed C (s_ctrlRecvCtr_update f12 s) = keyed C s" "ready C (s_ctrlRecvCtr_update f12 s) = ready C s"
  "keyed C (s_rtspEncBuf_update f13 s) = keyed C s" "ready C (s_rtspEncBuf_update f13 s) = ready C s"
  "keyed C (s_eventSendCtr_update f14 s) = keyed C s" "ready C (s_eventSendCtr_update f14 s) = ready C s"
  "keyed C (s_eventRecvCtr_update f15 s) = keyed C s" "ready C (s_eventRecvCtr_update f15 s) = ready C s"
  "keyed C (s_eventEncBuf_update f16 s) = keyed C s" "ready C (s_eventEncBuf_update f16 s) = ready C s"
  "keyed C (s_eventPlainBuf_update f17 s) = keyed C s" "ready C (s_eventPlainBuf_update f17 s) = ready C s"
  "keyed C (s_pendingMethods_update f18 s) = keyed C s" "ready C (s_pendingMethods_update f18 s) = ready C s"
  "keyed C (s_cseq_update f19 s) = keyed C s" "ready C (s_cseq_update f19 s) = ready C s"
  "keyed C (s_sessionId_update f20 s) = keyed C s" "ready C (s_sessionId_update f20 s) = ready C s"
  "keyed C (s_dacpId_update f21 s) = keyed C s" "ready C (s_dacpId_update f21 s) = ready C s"
  "keyed C (s_activeRemote_update f22 s) = keyed C s" "ready C (s_activeRemote_update f22 s) = ready C s"
  "keyed C (s_rtspSession_update f23 s) = keyed C s" "ready C (s_rtspSession_update f23 s) = ready C s"
  "keyed C (s_host_update f24 s) = keyed C s" "ready C (s_host_update f24 s) = ready C s"
  "keyed C (s_name_update f25 s) = keyed C s" "ready C (s_name_update f25 s) = ready C s"
  "keyed C (s_serverPort_update f26 s) = keyed C s" "ready C (s_serverPort_update f26 s) = ready C s"
  "keyed C (s_controlPort_update f27 s) = keyed C s" "ready C (s_controlPort_update f27 s) = ready C s"
  "keyed C (s_timingPort_update f28 s) = keyed C s" "ready C (s_timingPort_update f28 s) = ready C s"
  "keyed C (s_pacer_update f29 s) = keyed C s" "ready C (s_pacer_update f29 s) = ready C s"
  "keyed C (s_syncTimer_update f30 s) = keyed C s" "ready C (s_syncTimer_update f30 s) = ready C s"
  "keyed C (s_timeout_update f31 s) = keyed C s" "ready C (s_timeout_update f31 s) = ready C s"
  "keyed C (s_pinTimeout_update f32 s) = keyed C s" "ready C (s_pinTimeout_update f32 s) = ready C s"
  "keyed C (s_feedbackTimer_update f33 s) = keyed C s" "ready C (s_feedbackTimer_update f33 s) = ready C s"
  "keyed C (s_clockStart_update f34 s) = keyed C s" "ready C (s_clockStart_update f34 s) = ready C s"
  "keyed C (s_startTs_update f35 s) = keyed C s" "ready C (s_startTs_update f35 s) = ready C s"
  "keyed C (s_framesSent_update f36 s) = keyed C s" "ready C (s_framesSent_update f36 s) = ready C s"
  "keyed C (s_seq_update f37 s) = keyed C s" "ready C (s_seq_update f37 s) = ready C s"
  "keyed C (s_firstAudio_update f38 s) = keyed C s" "ready C (s_firstAudio_update f38 s) = ready C s"
  "keyed C (s_pendingVolumeDb_update f39 s) = keyed C s" "ready C (s_pendingVolumeDb_update f39 s) = ready C s"
  "keyed C (s_rs_update f40 s) = keyed C s" "ready C (s_rs_update f40 s) = ready C s"
  "keyed C (s_backlog_update f41 s) = keyed C s" "ready C (s_backlog_update f41 s) = ready C s"
  "keyed C (s_backlogSeq_update f42 s) = keyed C s" "ready C (s_backlogSeq_update f42 s) = ready C s"
  "keyed C (s_npTitle_update f43 s) = keyed C s" "ready C (s_npTitle_update f43 s) = ready C s"
  "keyed C (s_npArtist_update f44 s) = keyed C s" "ready C (s_npArtist_update f44 s) = ready C s"
  "keyed C (s_npAlbum_update f45 s) = keyed C s" "ready C (s_npAlbum_update f45 s) = ready C s"
  "keyed C (s_npCover_update f46 s) = keyed C s" "ready C (s_npCover_update f46 s) = ready C s"
  "keyed C (s_npCoverMime_update f47 s) = keyed C s" "ready C (s_npCoverMime_update f47 s) = ready C s"
  "keyed C (s_authMethod_update f48 s) = keyed C s" "ready C (s_authMethod_update f48 s) = ready C s"
  "keyed C (s_airplay2_update f49 s) = keyed C s" "ready C (s_airplay2_update f49 s) = ready C s"
  "keyed C (s_deviceId_update f50 s) = keyed C s" "ready C (s_deviceId_update f50 s) = ready C s"
  "keyed C (s_credsJson_update f51 s) = keyed C s" "ready C (s_credsJson_update f51 s) = ready C s"
  "keyed C (s_digestPassword_update f52 s) = keyed C s" "ready C (s_digestPassword_update f52 s) = ready C s"
  "keyed C (s_triedTransientAfterPin403_update f53 s) = keyed C s" "ready C (s_triedTransientAfterPin403_update f53 s) = ready C s"
  "keyed C (s_srpSalt_update f54 s) = keyed C s" "ready C (s_srpSalt_update f54 s) = ready C s"
  "keyed C (s_srpServerB_update f55 s) = keyed C s" "ready C (s_srpServerB_update f55 s) = ready C s"
  "keyed C (s_pairSetupSessionKey_update f56 s) = keyed C s" "ready C (s_pairSetupSessionKey_update f56 s) = ready C s"
  "keyed C (s_digestRealm_update f57 s) = keyed C s" "ready C (s_digestRealm_update f57 s) = ready C s"
  "keyed C (s_digestNonce_update f58 s) = keyed C s" "ready C (s_digestNonce_update f58 s) = ready C s"
  "keyed C (s_pendingDigestMethod_update f59 s) = keyed C s" "ready C (s_pendingDigestMethod_update f59 s) = ready C s"
  "keyed C (s_pendingDigestUri_update f60 s) = keyed C s" "ready C (s_pendingDigestUri_update f60 s) = ready C s"
  "keyed C (s_digestRetried_update f61 s) = keyed C s" "ready C (s_digestRetried_update f61 s) = ready C s"
  by (simp_all add: key_defs sealed_def)


lemma sealed_emit: "sealed C s \<Longrightarrow> control_sends [e] = [] \<Longrightarrow> sealed C (emit e s)"
  unfolding sealed_def emit_def
  by (clarsimp) (metis append.assoc append_Nil2 control_sends_simps(2))

lemma key_emit:
  assumes "control_sends [e] = []"
  shows "keyed C s \<Longrightarrow> keyed C (emit e s)" "ready C s \<Longrightarrow> ready C (emit e s)"
  using assms sealed_emit [of C s e] by (auto simp: key_defs) (auto simp: emit_def)

section \<open>Writing\<close>

lemma map_sum_Inr: "map_sum id f r = Inr y \<longleftrightarrow> (\<exists>x. r = Inr x \<and> y = f x)"
  by (cases r) auto

lemma seal_frames_counted:
  "seal_frames C key ctr data = Inr (out, c) \<Longrightarrow>
   \<exists>chunks frames. concat chunks = data \<and> concat frames = out \<and> length frames = length chunks
     \<and> (\<forall>c \<in> set chunks. length c \<le> 1024)
     \<and> (\<forall>i < length chunks. seal_frame C key (ctr + of_nat i) (chunks ! i) = Inr (frames ! i))
     \<and> c = ctr + of_nat (length chunks)"
proof (induction "length data" arbitrary: data ctr out c rule: less_induct)
  case less
  show ?case
  proof (cases "data = []")
    case True
    with less.prems show ?thesis
      by (intro exI [of _ "[]"]) (simp add: seal_frames.simps [of C key ctr "[]"])
  next
    case False
    define len where "len = min 1024 (length data)"
    have l: "length (drop len data) < length data" using False by (auto simp: len_def)
    obtain fr out' where fr: "seal_frame C key ctr (take len data) = Inr fr"
      "seal_frames C key (ctr + 1) (drop len data) = Inr (out', c)" "out = fr @ out'"
      using less.prems False
      by (auto simp: seal_frames.simps [of C key ctr data] Let_def len_def map_sum_Inr split: sum.splits)
    obtain chunks frames where f: "concat chunks = drop len data" "concat frames = out'" "length frames = length chunks"
      "\<forall>c \<in> set chunks. length c \<le> 1024"
      "\<forall>i < length chunks. seal_frame C key (ctr + 1 + of_nat i) (chunks ! i) = Inr (frames ! i)"
      "c = ctr + 1 + of_nat (length chunks)"
      using less.hyps [OF l fr(2)] by blast
    have "seal_frame C key (ctr + of_nat i) ((take len data # chunks) ! i) = Inr ((fr # frames) ! i)"
      if "i < Suc (length chunks)" for i
      using f(5) fr(1) that by (cases i) (simp_all add: add.assoc)
    then show ?thesis
      using f fr(3) by (intro exI [of _ "take len data # chunks"] exI [of _ "fr # frames"]) (simp add: len_def)
  qed
qed

lemma counted_frames_append:
  assumes "counted_frames C key chunks frames" and "length frames' = length chunks'"
    and "\<forall>c \<in> set chunks'. length c \<le> 1024"
    and "\<forall>i < length chunks'. seal_frame C key (of_nat (length chunks) + of_nat i) (chunks' ! i) = Inr (frames' ! i)"
  shows "counted_frames C key (chunks @ chunks') (frames @ frames')"
  using assms by (auto simp: counted_frames_def nth_append not_less) (metis add_diff_inverse_nat nat_add_left_cancel_less not_less of_nat_add)

lemma writeRtsp_sealed:
  assumes "sealed C s" and "s_controlEncrypted s" and "s_ap2 s = Some a"
    and w: "seal_frames C (a_controlOut a) (s_ctrlSendCtr s) data = Inr (out, ctr)"
  shows "sealed C (emit (TcpSend TcpControl out) (s\<lparr>s_ctrlSendCtr := ctr\<rparr>))"
proof -
  obtain before after chunks frames where i: "s_out s = before @ after" "concat (control_sends after) = concat frames"
    "counted_frames C (a_controlOut a) chunks frames" "s_ctrlSendCtr s = of_nat (length chunks)"
    using assms(1-3) by (auto simp: sealed_def)
  obtain chunks' frames' where j: "concat frames' = out" "length frames' = length chunks'"
    "\<forall>c \<in> set chunks'. length c \<le> 1024"
    "\<forall>i < length chunks'. seal_frame C (a_controlOut a) (of_nat (length chunks) + of_nat i) (chunks' ! i) = Inr (frames' ! i)"
    "ctr = of_nat (length chunks) + of_nat (length chunks')"
    using seal_frames_counted [OF w] i(4) by auto
  from counted_frames_append [OF i(3) j(2,3,4)] show ?thesis
    unfolding sealed_def using i j(1,5) assms(3)
    by (intro impI exI [of _ "a_controlOut a"] exI [of _ before] exI [of _ "after @ [TcpSend TcpControl out]"]
        exI [of _ "chunks @ chunks'"] exI [of _ "frames @ frames'"]) (simp add: emit_def)
qed

lemma writeRtsp_calm: "calm C s \<Longrightarrow> pok (calm C) (writeRtsp C data s)"
proof (cases "s_controlEncrypted s")
  case False
  then show "calm C s \<Longrightarrow> ?thesis"
    by (auto simp: writeRtsp_def io_def emit_def calm_def sealed_def split: option.split)
next
  case True
  assume c: "calm C s"
  then obtain a where a: "s_ap2 s = Some a" using True by (auto simp: calm_def sealed_def)
  show ?thesis
    using True c a writeRtsp_sealed [of C s a]
    by (auto simp: writeRtsp_def io_def Let_def calm_def split: sum.split) (simp_all add: emit_def)
qed

text \<open>A write leaves everything else as it is.\<close>

lemma writeRtsp_keeps:
  "writeRtsp C data s = Inr t \<Longrightarrow> s_pendingIsHttp t = s_pendingIsHttp s \<and> s_state t = s_state s
     \<and> s_waitingForPin t = s_waitingForPin s \<and> s_controlEncrypted t = s_controlEncrypted s"
  by (auto simp: writeRtsp_def io_def emit_def Let_def split: option.splits if_splits sum.splits)

lemma writeRtsp_key:
  "keyed C s \<Longrightarrow> pok (keyed C) (writeRtsp C data s)" "ready C s \<Longrightarrow> pok (ready C) (writeRtsp C data s)"
proof -
  have *: "writeRtsp C data s = Inr t \<Longrightarrow> calm C s \<Longrightarrow> calm C t" for t
    using writeRtsp_calm [of C s data] by simp
  show "keyed C s \<Longrightarrow> pok (keyed C) (writeRtsp C data s)"
    by (cases "writeRtsp C data s") (simp, use * writeRtsp_keeps in \<open>simp add: keyed_def pairing_live_def\<close>)
  show "ready C s \<Longrightarrow> pok (ready C) (writeRtsp C data s)"
    by (cases "writeRtsp C data s") (simp, use * writeRtsp_keeps in \<open>simp add: ready_def pairing_live_def\<close>)
qed

lemma queue_key:
  "keyed C s \<Longrightarrow> keyed C (queue_method m False s)" "ready C s \<Longrightarrow> ready C (queue_method m False s)"
  "ready C s \<Longrightarrow> keyed C (queue_method m True s)"
  by (auto simp: queue_method_def key_defs sealed_def)

lemma arm_key [simp]:
  "keyed C (arm s_timeout_update t) = keyed C t" "keyed C (arm s_pinTimeout_update t) = keyed C t"
  "keyed C (arm s_feedbackTimer_update t) = keyed C t" "keyed C (arm s_syncTimer_update t) = keyed C t"
  "keyed C (arm s_pacer_update t) = keyed C t" "keyed C (disarm s_timeout_update t) = keyed C t"
  "keyed C (disarm s_pinTimeout_update t) = keyed C t" "keyed C (disarm s_feedbackTimer_update t) = keyed C t"
  "ready C (arm s_timeout_update t) = ready C t" "ready C (disarm s_pinTimeout_update t) = ready C t"
  "ready C (disarm s_timeout_update t) = ready C t" "ready C (arm s_pinTimeout_update t) = ready C t"
  by (simp_all add: arm_def disarm_def)

lemma sendRequest_keyed: "keyed C s \<Longrightarrow> pok (keyed C) (sendRequest C m u ct body extra s)"
  unfolding sendRequest_def Let_def
  by (rule pok_run) (simp_all add: upd_def writeRtsp_key queue_key)

lemma sendRequest_ready: "ready C s \<Longrightarrow> pok (ready C) (sendRequest C m u ct body extra s)"
  unfolding sendRequest_def Let_def
  by (rule pok_run) (simp_all add: upd_def writeRtsp_key queue_key)

text \<open>A pairing request is sent when none is outstanding.\<close>

lemma pok_bind: "pok P r \<Longrightarrow> (\<And>s. P s \<Longrightarrow> pok Q (run fs s)) \<Longrightarrow> pok Q (case r of Inl e \<Rightarrow> Inl e | Inr s \<Rightarrow> run fs s)"
  by (cases r) auto

lemma httpPost_keyed: "ready C s \<Longrightarrow> pok (keyed C) (httpPost C u ct body s)"
  unfolding httpPost_def Let_def
  by (simp only: run_simps, rule pok_run) (simp_all add: upd_def writeRtsp_key queue_key)

lemma sendAp2Rtsp_keyed: "ready C s \<Longrightarrow> pok (keyed C) (sendAp2Rtsp C m u ct body s)"
  unfolding sendAp2Rtsp_def Let_def
  by (simp only: run_simps, rule pok_run) (simp_all add: upd_def writeRtsp_key queue_key)

lemma post_tlv_keyed: "ready C s \<Longrightarrow> pok (keyed C) (post_tlv C u m s)"
  by (simp add: post_tlv_def httpPost_keyed)

lemmas requests_keyed = sendRequest_keyed httpPost_keyed sendAp2Rtsp_keyed post_tlv_keyed

section \<open>The rest of the state\<close>

lemma control_sends_other [simp]:
  "control_sends [TcpConnect ch h p] = []" "control_sends [TcpSend TcpEvent d] = []" "control_sends [TcpClose ch g] = []"
  "control_sends [UdpBind u] = []" "control_sends [UdpSend u ep d] = []" "control_sends [UdpClose u] = []"
  "control_sends [Ev_launched b e] = []" "control_sends [Ev_closed] = []" "control_sends [Ev_pinRequired n] = []"
  "control_sends [Ev_credentials i j] = []"
  by (simp_all add: control_sends_def List.map_filter_def)

declare key_emit [simp]

lemma calm_emit [simp]: "control_sends [e] = [] \<Longrightarrow> calm C s \<Longrightarrow> calm C (emit e s)"
  using sealed_emit [of C s e] by (auto simp: calm_def) (auto simp: emit_def)

lemma keyed_calm: "keyed C s \<Longrightarrow> calm C s"
  by (simp add: keyed_def)

lemma calm_key: "calm C s \<Longrightarrow> \<not> pairing_live s \<Longrightarrow> keyed C s" "calm C s \<Longrightarrow> \<not> pairing_live s \<Longrightarrow> ready C s"
  by (auto simp: keyed_def ready_def pairing_live_def)

lemma idle_keyed: "calm C s \<Longrightarrow> keyed C (s\<lparr>s_state := Idle\<rparr>)" "calm C s \<Longrightarrow> keyed C (s\<lparr>s_state := Streaming\<rparr>)"
  by (simp_all add: key_defs sealed_def)

text \<open>The AirPlay 2 state may change but for the key, the key only in the clear.\<close>

lemma ap2_same:
  assumes "s_ap2 s = Some a" and "a_controlOut a' = a_controlOut a"
  shows "keyed C (s\<lparr>s_ap2 := Some a'\<rparr>) = keyed C s" "ready C (s\<lparr>s_ap2 := Some a'\<rparr>) = ready C s"
  using assms by (simp_all add: key_defs sealed_def)

lemma plain_key:
  assumes "\<not> s_controlEncrypted s"
  shows "keyed C (s\<lparr>s_ap2 := ap\<rparr>) = keyed C s" "ready C (s\<lparr>s_ap2 := ap\<rparr>) = ready C s"
    "keyed C (s\<lparr>s_pairStage := st\<rparr>) = keyed C s" "ready C (s\<lparr>s_pairStage := st\<rparr>) = ready C s"
    "ready C (s\<lparr>s_ap2 := ap, s_pairStage := st\<rparr>) = ready C s"
  using assms by (simp_all add: key_defs sealed_def)

lemma late_key: "late st \<Longrightarrow> ready C s \<Longrightarrow> ready C (s\<lparr>s_pairStage := st\<rparr>)"
  by (simp add: key_defs sealed_def)

lemma early_plain: "calm C s \<Longrightarrow> \<not> late (s_pairStage s) \<Longrightarrow> \<not> s_controlEncrypted s"
  by (auto simp: calm_def)

lemma waiting_plain: "calm C s \<Longrightarrow> s_waitingForPin s \<Longrightarrow> \<not> s_controlEncrypted s"
  by (auto simp: calm_def)

lemma emit_control [simp]: "s_controlEncrypted (emit e s) = s_controlEncrypted s"
  by (simp add: emit_def)

section \<open>Ending, streaming\<close>

lemma releaseSockets_key [simp]: "keyed C s \<Longrightarrow> keyed C (releaseSockets s)"
  by (simp add: releaseSockets_def Let_def)

lemma stopTimers_key [simp]: "keyed C (stopTimers s) = keyed C s" "calm C (stopTimers s) = calm C s"
  by (simp_all add: stopTimers_def disarm_def calm_def sealed_def)

lemma fail_keyed: "calm C s \<Longrightarrow> keyed C (fail why s)"
  by (simp add: fail_def Let_def idle_keyed)

lemma sendSyncPacket_keyed: "keyed C s \<Longrightarrow> keyed C (sendSyncPacket first s)"
  by (simp add: sendSyncPacket_def Let_def)

lemma sendVolume_keyed: "keyed C s \<Longrightarrow> pok (keyed C) (sendVolume C s)"
  by (simp add: sendVolume_def sendRequest_keyed)

lemma sendMetadata_keyed: "keyed C s \<Longrightarrow> pok (keyed C) (sendMetadata C s)"
  unfolding sendMetadata_def Let_def
  by (auto intro!: pok_run simp: sendRequest_keyed)

lemma startStreaming_keyed: "keyed C s \<Longrightarrow> pok (keyed C) (startStreaming C s)"
  unfolding startStreaming_def
  by (rule pok_run) (simp_all add: upd_def io_def idle_keyed keyed_calm sendSyncPacket_keyed sendVolume_keyed
      sendRequest_keyed sendMetadata_keyed)

lemma encryptAudioPayload_keyed:
  "keyed C s \<Longrightarrow> encryptAudioPayload C h p s = Inr (w, t) \<Longrightarrow> keyed C t"
  by (auto simp: encryptAudioPayload_def Let_def ap2_same split: option.splits if_splits sum.splits)

lemma sendAudioPacket_keyed: "keyed C s \<Longrightarrow> pok (keyed C) (sendAudioPacket C s)"
  by (auto simp: sendAudioPacket_def Let_def split: option.split sum.split prod.split dest: encryptAudioPayload_keyed [rotated])

lemma pacer_loop_keyed: "keyed C s \<Longrightarrow> pok (keyed C) (pacer_loop C target k s)"
  by (induction k arbitrary: s) (auto intro!: pok_case intro: sendAudioPacket_keyed)

section \<open>Authentication and set-up\<close>

lemma classic_keyed:
  "keyed C s \<Longrightarrow> pok (keyed C) (sendOptions C s)"
  "keyed C s \<Longrightarrow> pok (keyed C) (sendAnnounce C s)" "keyed C s \<Longrightarrow> pok (keyed C) (sendSetup C s)"
  "keyed C s \<Longrightarrow> pok (keyed C) (sendRecord C s)"
  by (simp_all add: sendOptions_def sendAnnounce_def sendSetup_def sendRecord_def requests_keyed)

lemma setup_keyed:
  "ready C s \<Longrightarrow> pok (keyed C) (sendAp2Info C s)" "ready C s \<Longrightarrow> pok (keyed C) (sendAp2SetupSession C s)"
  "ready C s \<Longrightarrow> pok (keyed C) (sendAp2Record C s)"
  by (simp_all add: sendAp2Info_def sendAp2SetupSession_def sendAp2Record_def on_ap2_def requests_keyed late_key late_def
      split: option.split)

lemma sendAp2SetupStream_keyed: "ready C s \<Longrightarrow> pok (keyed C) (sendAp2SetupStream C s)"
  by (auto simp: sendAp2SetupStream_def on_ap2_def Let_def ap2_same split: option.split
      intro!: requests_keyed late_key) (auto simp: late_def)

lemma handleAp2SetupSession_keyed: "ready C s \<Longrightarrow> pok (keyed C) (handleAp2SetupSession C body s)"
  by (auto simp: handleAp2SetupSession_def on_ap2_def Let_def ap2_same split: option.split intro!: setup_keyed)

lemma handleAp2SetupStream_keyed: "ready C s \<Longrightarrow> pok (keyed C) (handleAp2SetupStream C body s)"
  by (auto simp: handleAp2SetupStream_def Let_def ready_keyed keyed_calm intro!: startStreaming_keyed fail_keyed split: prod.split)

text \<open>Encryption begins: no frame yet under the new key.\<close>

lemma sealed_start:
  "s_ap2 s = Some a \<Longrightarrow> sealed C (s\<lparr>s_controlEncrypted := True, s_ctrlSendCtr := 0, s_ctrlRecvCtr := r, s_rtspEncBuf := b\<rparr>)"
  unfolding sealed_def
  by (intro impI exI [of _ "a_controlOut a"] exI [of _ "s_out s"] exI [of _ "[]"]) (simp add: counted_frames_def)

lemma sealed_state: "sealed C (s\<lparr>s_state := st\<rparr>) = sealed C s"
  by (simp add: sealed_def)

lemma afterAuthOk_keyed:
  assumes r: "ready C s" and live: "pairing_live s" and st: "s_pairStage s = PS_Done"
  shows "pok (keyed C) (afterAuthOk C s)"
proof -
  have w: "\<not> s_waitingForPin s" using r live by (simp add: ready_def)
  have "ready C (s\<lparr>s_digestRetried := False, s_state := Handshake\<rparr>)"
    using r live by (simp add: key_defs sealed_def)
  moreover have "ready C (s\<lparr>s_digestRetried := False, s_controlEncrypted := True, s_ctrlSendCtr := 0, s_ctrlRecvCtr := 0,
      s_rtspEncBuf := [], s_state := Handshake\<rparr>)" if "s_ap2 s = Some a" for a
    using r live st w sealed_start [of "s\<lparr>s_digestRetried := False\<rparr>" a C "[]" 0] that
    by (simp add: sealed_state ready_def calm_def pairing_live_def late_def)
  ultimately show ?thesis
    by (auto simp: afterAuthOk_def Let_def ready_keyed split: option.split intro!: setup_keyed classic_keyed)
qed

lemma draw_key [simp]: "keyed C (snd (draw D n s)) = keyed C s" "ready C (snd (draw D n s)) = ready C s"
  "s_controlEncrypted (snd (draw D n s)) = s_controlEncrypted s"
  by (simp_all add: draw_def)

text \<open>Pairing takes place in the clear.\<close>

lemma pair_requests_keyed:
  assumes "ready C s" and "\<not> s_controlEncrypted s"
  shows "pok (keyed C) (sendAuthSetup C s)" "pok (keyed C) (sendPairPinStart C s)"
    "pok (keyed C) (sendPairSetupM1 C s)" "pok (keyed C) (sendPairVerifyM1 C s)"
  using assms
  by (simp_all add: sendAuthSetup_def sendPairPinStart_def sendPairSetupM1_def sendPairVerifyM1_def on_ap2_def
      draw_def Let_def requests_keyed plain_key split: option.split)

lemma sendPairSetupM3_keyed:
  assumes "ready C s" and "\<not> s_controlEncrypted s"
  shows "pok (keyed C) (sendPairSetupM3 C pin s)"
  using assms
  by (auto simp: sendPairSetupM3_def on_ap2_def draw_def Let_def plain_key ready_keyed keyed_calm
      intro!: requests_keyed fail_keyed split: option.split sum.split)

lemma calm_plain: "\<not> s_controlEncrypted s \<Longrightarrow> calm C s"
  by (simp add: calm_def sealed_def)

lemma handlePairSetupM2_keyed:
  assumes "ready C s" and e: "\<not> s_controlEncrypted s"
  shows "pok (keyed C) (handlePairSetupM2 C body s)"
proof -
  have "keyed C (s\<lparr>s_srpSalt := x, s_srpServerB := y, s_waitingForPin := True\<rparr>)" for x y
    using assms by (simp add: key_defs sealed_def)
  with assms show ?thesis
    by (auto simp: handlePairSetupM2_def Let_def run_simps io_def calm_plain
        intro!: sendPairSetupM3_keyed fail_keyed split: option.split)
qed

lemma sendPairSetupM5_keyed:
  assumes "ready C s" and "\<not> s_controlEncrypted s"
  shows "pok (keyed C) (sendPairSetupM5 C s)"
  unfolding sendPairSetupM5_def on_ap2_def Let_def using assms
  by (intro pok_opt pok_any pok_pair [where Q = "\<lambda>t. ready C t \<and> \<not> s_controlEncrypted t"])
    (auto simp: case_prod_beta plain_key intro!: requests_keyed)

lemma handlePairSetupM4_keyed:
  assumes "ready C s" and e: "\<not> s_controlEncrypted s" and live: "pairing_live s"
  shows "pok (keyed C) (handlePairSetupM4 C body s)"
proof -
  have "ready C (s\<lparr>s_ap2 := ap, s_pairStage := PS_Done\<rparr>)" "pairing_live (s\<lparr>s_ap2 := ap, s_pairStage := PS_Done\<rparr>)" for ap
    using assms by (simp_all add: plain_key) (simp add: pairing_live_def)
  with assms show ?thesis
    by (auto simp: handlePairSetupM4_def on_srp_def on_ap2_def Let_def calm_plain
        intro!: afterAuthOk_keyed sendPairSetupM5_keyed fail_keyed split: option.split sum.split)
qed

lemma handlePairSetupM6_keyed:
  assumes "ready C s" and e: "\<not> s_controlEncrypted s"
  shows "pok (keyed C) (handlePairSetupM6 C body s)"
  using assms
  by (auto simp: handlePairSetupM6_def on_ap2_def Let_def run_simps calm_plain plain_key
      intro!: pair_requests_keyed fail_keyed split: option.split)

lemma handlePairVerifyM2_keyed:
  assumes "ready C s" and e: "\<not> s_controlEncrypted s"
  shows "pok (keyed C) (handlePairVerifyM2 C body s)"
  using assms
  by (auto simp: handlePairVerifyM2_def sendPairVerifyM3_def on_ap2_def Let_def calm_plain plain_key
      intro!: requests_keyed fail_keyed split: option.split sum.split)

section \<open>Dispatch\<close>

lemma renew_ap2_key:
  "\<not> s_controlEncrypted s \<Longrightarrow> ready C (renew_ap2 D s) = ready C s" "s_controlEncrypted (renew_ap2 D s) = s_controlEncrypted s"
  by (simp_all add: renew_ap2_def draw_uuid_def draw_def Let_def plain_key)

lemma beginHapPin_keyed:
  assumes "ready C s" and "\<not> s_controlEncrypted s"
  shows "pok (keyed C) (beginHapPin C s)"
  using assms
  by (auto simp: beginHapPin_def on_ap2_def Let_def renew_ap2_key plain_key intro!: pok_any pair_requests_keyed split: option.split)

lemma pairing_refused_keyed:
  assumes "ready C s"
  shows "pok (keyed C) (pairing_refused C code s)"
proof -
  have "\<not> late (s_pairStage s) \<Longrightarrow> \<not> s_controlEncrypted s" using assms early_plain by (auto simp: ready_def)
  then have "s_pairStage s = PS_SetupM2 \<or> s_pairStage s = PS_PinStart \<Longrightarrow> \<not> s_controlEncrypted s"
    by (auto simp: late_def)
  with assms show ?thesis
    by (auto simp: pairing_refused_def renew_ap2_key keyed_calm [OF ready_keyed] intro!: pair_requests_keyed fail_keyed)
qed

lemma onPairingResponse_keyed:
  assumes "ready C s"
  shows "pok (keyed C) (onPairingResponse C code body s)"
proof (cases "pairing_live s")
  case False
  with assms show ?thesis by (auto simp: onPairingResponse_def pairing_live_def ready_keyed)
next
  case True
  then have live: "s_state s \<noteq> Idle" "s_state s \<noteq> Streaming" by (simp_all add: pairing_live_def)
  have early: "\<not> late (s_pairStage s) \<Longrightarrow> \<not> s_controlEncrypted s" using assms early_plain by (auto simp: ready_def)
  have ended: "ready C (s\<lparr>s_pairStage := PS_Done\<rparr>)" "pairing_live (s\<lparr>s_pairStage := PS_Done\<rparr>)"
    using assms True by (simp_all add: late_key late_def) (simp add: pairing_live_def)
  show ?thesis
  proof (cases "s_pairStage s")
  qed (use assms True live early ended in
    \<open>auto simp: onPairingResponse_def late_def ready_keyed
       intro!: afterAuthOk_keyed pairing_refused_keyed pair_requests_keyed handlePairSetupM2_keyed handlePairSetupM4_keyed
         handlePairSetupM6_keyed handlePairVerifyM2_keyed sendAp2SetupStream_keyed setup_keyed
         handleAp2SetupSession_keyed handleAp2SetupStream_keyed\<close>)
qed

lemma digest_challenge_keyed: "keyed C s \<Longrightarrow> pok (keyed C) (digest_challenge C method headers s)"
  by (simp add: digest_challenge_def Let_def fail_keyed keyed_calm classic_keyed)

lemma transport_opts_keyed [simp]: "keyed C (fold transport_opt xs s) = keyed C s"
proof (induction xs arbitrary: s)
  case (Cons x xs)
  have "keyed C (transport_opt x s) = keyed C s" by (simp add: transport_opt_def Let_def split: option.split)
  with Cons show ?case by simp
qed simp

lemma setup_reply_keyed: "keyed C s \<Longrightarrow> pok (keyed C) (setup_reply C headers s)"
  by (simp add: setup_reply_def Let_def fail_keyed keyed_calm classic_keyed)

lemma handleResponse_keyed: "keyed C s \<Longrightarrow> pok (keyed C) (handleResponse C method code headers s)"
  by (simp add: handleResponse_def fail_keyed keyed_calm digest_challenge_keyed setup_reply_keyed
      startStreaming_keyed classic_keyed)

text \<open>A reply is taken off the queue: if it answers a pairing request, none is outstanding now.\<close>

lemma reply_taken:
  "keyed C s \<Longrightarrow> s_pendingIsHttp s = True # bs \<Longrightarrow> ready C (s\<lparr>s_pendingMethods := mths, s_pendingIsHttp := bs\<rparr>)"
  "keyed C s \<Longrightarrow> s_pendingIsHttp s = False # bs \<Longrightarrow> keyed C (s\<lparr>s_pendingMethods := mths, s_pendingIsHttp := bs\<rparr>)"
  by (auto simp: key_defs sealed_def)

lemma dispatch_keyed: "keyed C s \<Longrightarrow> pok (keyed C) (dispatch C r s)"
  by (auto simp: dispatch_def Let_def reply_taken intro!: onPairingResponse_keyed handleResponse_keyed split: list.split)

lemma message_loop_keyed: "keyed C s \<Longrightarrow> pok (keyed C) (message_loop C fuel s)"
proof (induction fuel arbitrary: s)
  case (Suc fuel)
  show ?case
  proof (cases "next_message (s_rxBuf s)")
    case (Some p)
    have "pok (keyed C) (dispatch C (fst p) (s\<lparr>s_rxBuf := snd p\<rparr>))" using Suc.prems by (simp add: dispatch_keyed)
    with Suc.IH Some show ?thesis
      by (cases "dispatch C (fst p) (s\<lparr>s_rxBuf := snd p\<rparr>)") (auto simp: message_loop.simps case_prod_beta)
  qed (use Suc.prems in \<open>simp add: message_loop.simps\<close>)
qed (simp add: message_loop.simps)

lemma onRtspReadyRead_keyed: "keyed C s \<Longrightarrow> pok (keyed C) (onRtspReadyRead C bytes s)"
  by (auto simp: onRtspReadyRead_def Let_def fail_keyed keyed_calm message_loop_keyed split: option.split prod.split bool.split)

lemma event_loop_keyed: "keyed C s \<Longrightarrow> pok (keyed C) (event_loop C a fuel s)"
  by (induction fuel arbitrary: s)
    (auto simp: event_loop.simps split: option.split prod.split sum.split)

lemma onEventReadyRead_keyed: "keyed C s \<Longrightarrow> pok (keyed C) (onEventReadyRead C bytes s)"
  by (auto simp: onEventReadyRead_def Let_def event_loop_keyed split: option.split prod.split)

section \<open>The public interface\<close>

lemma submitPin_keyed: "keyed C s \<Longrightarrow> pok (keyed C) (submitPin C code s)"
proof (cases "s_waitingForPin s")
  case True
  assume k: "keyed C s"
  then have e: "\<not> s_controlEncrypted s" using True waiting_plain keyed_calm by blast
  then have "ready C (s\<lparr>s_waitingForPin := False\<rparr>)" using k True by (simp add: key_defs sealed_def)
  moreover have "\<not> s_controlEncrypted (arm s_timeout_update (disarm s_pinTimeout_update (s\<lparr>s_waitingForPin := False\<rparr>)))"
    using e by (simp add: arm_def disarm_def)
  ultimately show ?thesis using True by (simp add: submitPin_def run_simps sendPairSetupM3_keyed)
qed (simp add: submitPin_def)

lemma clear_backlog_key [simp]: "keyed C (clear_backlog s) = keyed C s"
  by (simp add: clear_backlog_def)

lemma stop_keyed: "keyed C s \<Longrightarrow> pok (keyed C) (stop C s)"
  by (auto simp: stop_unfold intro!: pok_case [where P = "keyed C"] sendRequest_keyed)
    (simp_all add: idle_keyed keyed_calm)

lemma start_keyed:
  assumes "keyed C s"
  shows "pok (keyed C) (start C host port name tp cp ap s)"
proof (cases "stop C s")
  case (Inl e)
  then show ?thesis by (simp add: start_def run.simps)
next
  case (Inr t)
  have u: "keyed C (reset_session t')" "keyed C (reset_session t'\<lparr>s_state := Connecting\<rparr>)" for t'
    by (simp_all add: reset_session_def key_defs sealed_def)
  have "keyed C ((emit a1 (emit a2 (emit a3 (reset_session t'))))\<lparr>s_localTimingPort := x, s_localControlPort := y,
      s_udpBound := z, s_state := Connecting, s_rtspConnected := False\<rparr>)" for t' a1 a2 a3 x y z
    by (simp add: reset_session_def emit_def key_defs sealed_def)
  with Inr u show ?thesis
    by (auto simp: start_def run.simps(2) [of "stop C"] run_simps)
qed

lemma onTcpClosed_keyed: "keyed C s \<Longrightarrow> keyed C (onTcpClosed ch reason s)"
  by (simp add: onTcpClosed_def Let_def fail_keyed keyed_calm idle_keyed)

lemma onUdpDatagram_keyed: "keyed C s \<Longrightarrow> keyed C (onUdpDatagram u bytes from s)"
proof -
  assume k: "keyed C s"
  have "keyed C s \<Longrightarrow> keyed C (fold (\<lambda>i. retransmit_one from (f i)) ns s)" for f :: "nat \<Rightarrow> 16 word" and ns s
    by (induction ns arbitrary: s) (simp_all add: retransmit_one_def Let_def)
  with k show ?thesis
    by (simp add: onUdpDatagram_def onControlDatagram_def onTimingDatagram_def Let_def split: RaopUdp.split)
qed

lemma onPinTimeout_keyed: "keyed C s \<Longrightarrow> keyed C (onPinTimeout s)"
proof -
  assume k: "keyed C s"
  then have "calm C (s\<lparr>s_waitingForPin := False\<rparr>)" by (auto simp: keyed_def calm_def sealed_def)
  with k show ?thesis by (simp add: onPinTimeout_def Let_def fail_keyed)
qed

lemma onFeedbackTimer_keyed: "keyed C s \<Longrightarrow> pok (keyed C) (onFeedbackTimer C s)"
  by (auto simp: onFeedbackTimer_def Let_def upd_def sendRequest_keyed writeRtsp_key queue_key intro!: pok_run)

lemma if_due_keyed:
  assumes "\<And>s. keyed C s \<Longrightarrow> pok (keyed C) (handler s)" and "\<And>f s. keyed C (field f s) = keyed C s" and "keyed C s"
  shows "pok (keyed C) (if_due now get field handler s)"
  using assms by (simp add: if_due_def Let_def)

lemma tick_keyed:
  assumes "keyed C s"
  shows "pok (keyed C) (tick C s)"
  unfolding tick_def Let_def
  by (rule pok_run [where P = "keyed C", OF assms])
    (auto simp: upd_def onHandshakeTimeout_def onPinTimeout_keyed onPacerTick_def Let_def fail_keyed keyed_calm sendSyncPacket_keyed
      intro!: if_due_keyed onFeedbackTimer_keyed pacer_loop_keyed)

lemma setters_keyed [simp]:
  "keyed C (setInputFormat r s) = keyed C s" "keyed C (attachRing ring s) = keyed C s"
  "keyed C (setAuth m ap2 d cj p s) = keyed C s" "keyed C (setIdentity i s) = keyed C s"
  "keyed C (setStrictReceiverAuth b s) = keyed C s"
  by (simp_all add: setInputFormat_def attachRing_def setAuth_def setIdentity_def setStrictReceiverAuth_def)

lemma beginAuthChain_keyed:
  assumes k: "keyed C s" and c: "s_state s = Connecting"
  shows "pok (keyed C) (beginAuthChain C s)"
proof -
  have r: "ready C (s\<lparr>s_state := Pairing\<rparr>)" "ready C (s\<lparr>s_state := Handshake\<rparr>)"
    using k c by (simp_all add: key_defs sealed_def)
  have "\<not> s_controlEncrypted s" using k c by (simp add: keyed_def)
  with r show ?thesis
    by (auto simp: beginAuthChain_def Let_def renew_ap2_key ready_keyed keyed_calm
        intro!: classic_keyed pair_requests_keyed fail_keyed beginHapPin_keyed split: auth.split)
qed

lemma connected_keyed: "keyed C s \<Longrightarrow> pok (keyed C) (onTcpConnected C ch l p s)"
  by (auto simp: onTcpConnected_def intro!: beginAuthChain_keyed)

lemma apply_call_keyed: "keyed C s \<Longrightarrow> pok (keyed C) (apply_call C c s)"
  by (auto simp: apply_call_def start_keyed stop_keyed submitPin_keyed connected_keyed onTcpConnectFailed_def
      fail_keyed keyed_calm onTcpData_def onRtspReadyRead_keyed onEventReadyRead_keyed onTcpClosed_keyed onUdpDatagram_keyed
      tick_keyed setVolume_def setNowPlaying_def Let_def sendVolume_keyed sendMetadata_keyed split: call.splits)

lemma reachable_keyed: "sender_reachable C s \<Longrightarrow> keyed C s"
proof (induction rule: sender_reachable.induct)
  case (new now wall)
  show ?case by (simp add: new_sender_def key_defs sealed_def)
next
  case (step s c s')
  then show ?case using apply_call_keyed [of C s c] by simp
qed

section \<open>What the receiver makes of it\<close>

lemma seal_frame_key: "seal_frame C key ctr pt = Inr fr \<Longrightarrow> length key = 32"
  by (auto simp: seal_frame_def Let_def map_sum_Inr chacha20Poly1305Encrypt_def split: if_splits)

lemma open_counted:
  assumes "crypto_ok C" and "length frames = length chunks" and "\<forall>c \<in> set chunks. length c \<le> 1024"
    and "\<forall>i < length chunks. seal_frame C key (ctr + of_nat i) (chunks ! i) = Inr (frames ! i)"
  shows "open_frames C key ctr (concat frames) = (True, concat chunks, ctr + of_nat (length chunks), [])"
  using assms(2-4)
proof (induction chunks arbitrary: frames ctr)
  case Nil
  then show ?case by (simp add: open_frames_short)
next
  case (Cons c chunks)
  then obtain fr frames' where f: "frames = fr # frames'" by (cases frames) auto
  have s: "seal_frame C key ctr c = Inr fr" using Cons.prems(3) f by fastforce
  have "\<forall>i < length chunks. seal_frame C key (ctr + 1 + of_nat i) (chunks ! i) = Inr (frames' ! i)"
    using Cons.prems(3) f by (force simp: add.assoc)
  from Cons.IH [OF _ _ this] Cons.prems(1,2) f
  have "open_frames C key (ctr + 1) (concat frames') = (True, concat chunks, ctr + 1 + of_nat (length chunks), [])" by simp
  with open_one_frame [OF assms(1) seal_frame_key [OF s] _ s, of "concat frames'"] Cons.prems(2) f
  show ?case by (simp add: add.assoc)
qed



text \<open>
  C15. The lockstep of the set-up, over any sequence of calls: while pairing is under way at most one pairing request is
  outstanding, and none while the user is asked for a PIN; while the connection is being made
  nothing is outstanding and nothing encrypted; and once the control channel is encrypted the
  session is past pairing, so no key changes under traffic and no PIN is asked for.
\<close>

theorem one_request_outstanding:
  assumes "sender_reachable C s"
  shows "(pairing_live s \<longrightarrow> awaited s \<le> 1 \<and> (s_waitingForPin s \<longrightarrow> awaited s = 0))
    \<and> (s_state s = Connecting \<longrightarrow> \<not> s_controlEncrypted s \<and> awaited s = 0 \<and> \<not> s_waitingForPin s)
    \<and> (s_controlEncrypted s \<longrightarrow> late (s_pairStage s) \<and> \<not> s_waitingForPin s)"
  using reachable_keyed [OF assms] by (simp add: keyed_def calm_def)

theorem one_request_outstanding_witness:
  "\<exists>s. sender_reachable demo_crypto s \<and> s_controlEncrypted s
    \<and> (pairing_live s \<longrightarrow> awaited s \<le> 1 \<and> (s_waitingForPin s \<longrightarrow> awaited s = 0))
    \<and> (s_state s = Connecting \<longrightarrow> \<not> s_controlEncrypted s \<and> awaited s = 0 \<and> \<not> s_waitingForPin s)
    \<and> (s_controlEncrypted s \<longrightarrow> late (s_pairStage s) \<and> \<not> s_waitingForPin s)"
  using encrypted_session one_request_outstanding by blast

end
