(* ===== verification/Sender_Callbacks.thy ===== *)
theory Sender_Callbacks
  imports Sender_Control
begin

text \<open>
  The application may call \<open>stop\<close> from inside a callback (\<open>src/src/raop_sender.h\<close>). \<open>launched\<close>
  after a start, \<open>pinRequired\<close> and \<open>closed\<close> are the last thing their handlers do, and in \<open>fail_\<close>
  the session has ended before \<open>launched\<close>; so there a \<open>stop\<close> is one more call. Only
  \<open>credentialsObtained\<close> has code after it, \<open>verify_obtained\<close>, which does not look at the state.
\<close>

lemma stop_after_fail: "stop C (fail why s) = Inr (fail why s)"
  by (simp add: stop_def fail_def Let_def emit_def releaseSockets_def stopTimers_def disarm_def)

section \<open>Stopping\<close>

definition all_quiet :: "sender \<Rightarrow> bool" where
  "all_quiet s \<longleftrightarrow> s_state s = Idle \<and> \<not> t_active (s_pinTimeout s) \<and> \<not> t_active (s_feedbackTimer s)
     \<and> \<not> t_active (s_syncTimer s) \<and> \<not> t_active (s_pacer s)"

lemma tick_quiet: "all_quiet s \<Longrightarrow> \<exists>v. tick C s = Inr v \<and> s_out v = s_out s \<and> all_quiet v"
  by (simp add: tick_def Let_def run.simps if_due_def upd_def onHandshakeTimeout_def all_quiet_def)

lemma stop_quiet:
  assumes "\<not> s_controlEncrypted s" and "s_ap2 s = Some a" and "s_state s \<noteq> Idle"
  shows "\<exists>t. stop C s = Inr t \<and> all_quiet t \<and> \<not> s_controlEncrypted t \<and> s_ap2 t = Some a"
  using assms
  by (simp add: stop_unfold sendRequest_def run.simps upd_def writeRtsp_def io_def emit_def queue_method_def arm_def
      Let_def all_quiet_def stopTimers_def disarm_def releaseSockets_def clear_backlog_def)

lemma verify_obtained_quiet:
  assumes "all_quiet t" and "\<not> s_controlEncrypted t" and "s_ap2 t = Some a"
  shows "\<exists>u req. verify_obtained C t = Inr u \<and> s_out u = s_out t @ [TcpSend TcpControl req] \<and> all_quiet u"
  using assms
  by (simp add: sendPairVerifyM1_def on_ap2_def draw_def Let_def post_tlv_def httpPost_def run.simps upd_def
      writeRtsp_def io_def emit_def queue_method_def arm_def all_quiet_def)

text \<open>
  C24. Stopping from inside \<open>credentialsObtained\<close> ends the session for good, although the handler
  goes on to pair-verify: the call does not fault, the state stays idle, the only thing that
  still goes out is one request, written after the control connection was closed, and whatever
  the clock says, the next tick does nothing the application or the host would notice.
\<close>

theorem stop_in_credentials:
  assumes "\<not> s_controlEncrypted s" and "s_ap2 s = Some a" and "s_state s \<noteq> Idle"
  shows "\<exists>t u req. stop C s = Inr t \<and> verify_obtained C t = Inr u \<and> s_state u = Idle
    \<and> s_out u = s_out t @ [TcpSend TcpControl req]
    \<and> (\<forall>now. \<exists>v. tick C (u\<lparr>s_now := now\<rparr>) = Inr v \<and> s_out v = s_out u \<and> s_state v = Idle)"
proof -
  obtain t where t: "stop C s = Inr t" "all_quiet t" "\<not> s_controlEncrypted t" "s_ap2 t = Some a"
    using stop_quiet [OF assms] by blast
  obtain u req where u: "verify_obtained C t = Inr u" "s_out u = s_out t @ [TcpSend TcpControl req]" "all_quiet u"
    using verify_obtained_quiet [OF t(2-4)] by blast
  have "\<exists>v. tick C (u\<lparr>s_now := now\<rparr>) = Inr v \<and> s_out v = s_out u \<and> s_state v = Idle" for now
    using tick_quiet [of "u\<lparr>s_now := now\<rparr>" C] u(3) by (auto simp: all_quiet_def)
  with t u show ?thesis unfolding all_quiet_def by blast
qed

theorem stop_in_credentials_witness:
  "\<exists>t u req. stop demo_crypto ((new_sender 0 0)\<lparr>s_state := Pairing, s_ap2 := Some fresh_ap2\<rparr>) = Inr t
    \<and> verify_obtained demo_crypto t = Inr u \<and> s_state u = Idle
    \<and> s_out u = s_out t @ [TcpSend TcpControl req]
    \<and> (\<forall>now. \<exists>v. tick demo_crypto (u\<lparr>s_now := now\<rparr>) = Inr v \<and> s_out v = s_out u \<and> s_state v = Idle)"
  by (rule stop_in_credentials) (simp_all add: new_sender_def)

section \<open>Starting again\<close>

text \<open>
  Starting the next session from the same callback is not as harmless: \<open>start\<close> has dropped the
  AP2 state by the time the handler goes on with it.
\<close>

lemma start_drops_ap2: "start C host port name tp cp ap s = Inr t \<Longrightarrow> s_ap2 t = None"
  by (cases "stop C s")
    (auto simp: start_def run.simps upd_def io_def emit_def reset_session_def arm_def releaseSockets_def Let_def split: if_splits)

lemma restart_in_credentials:
  "start C host port name tp cp ap s = Inr t \<Longrightarrow> verify_obtained C t = Inl Null_deref"
  by (simp add: start_drops_ap2 run.simps upd_def sendPairVerifyM1_def on_ap2_def)

end
