(* ===== verification/Sender_Requests.thy ===== *)
theory Sender_Requests
  imports Sender
begin

text \<open>
  The requests as a receiver parses them: the head ends where the empty line is, the header
  lines give the sequence number and the length of the body, and what follows the body is the
  next request.
\<close>

section \<open>Heads\<close>

abbreviation no_lf :: "string \<Rightarrow> bool" where
  "no_lf s \<equiv> CHR 0x0A \<notin> set s"

definition line :: "string \<times> string \<Rightarrow> string" where
  "line h = fst h @ '': '' @ snd h"

lemma hdr_line: "hdr k v = line (k, v) @ crlf"
  by (simp add: hdr_def line_def)

lemma line_no_lf [simp]: "no_lf (line h) \<longleftrightarrow> no_lf (fst h) \<and> no_lf (snd h)"
  by (auto simp: line_def)

lemma line_not_crlf: "no_lf (line h) \<Longrightarrow> \<not> starts_with (line h @ w) crlf"
  by (cases "fst h"; cases "tl (fst h)") (auto simp: line_def crlf_def)

lemma find_head_end_line:
  "no_lf p \<Longrightarrow> find_str (p @ crlf @ u) head_end =
     (if starts_with u crlf then Some (length p) else map_option ((+) (length p + 2)) (find_str u head_end))"
proof (induction p)
  case Nil
  show ?case by (cases u) (auto simp: head_end_def crlf_def option.map_comp comp_def split: if_splits)
next
  case (Cons c p)
  have "\<not> starts_with (c # p @ crlf @ u) head_end"
    using Cons.prems by (cases p) (auto simp: head_end_def crlf_def)
  with Cons show ?case by (auto simp: option.map_comp comp_def)
qed

text \<open>A request up to its empty line: the request line and the headers.\<close>

fun head_of :: "string \<Rightarrow> (string \<times> string) list \<Rightarrow> string" where
  "head_of first [] = first"
| "head_of first (h # hs) = first @ crlf @ head_of (line h) hs"

lemma head_of_hdrs: "head_of first hs @ crlf = first @ crlf @ concat (map (\<lambda>(k, v). hdr k v) hs)"
  by (induction hs arbitrary: first) (auto simp: hdr_line)

lemma head_of_not_crlf: "no_lf (line h) \<Longrightarrow> \<not> starts_with (head_of (line h) hs @ w) crlf"
  using line_not_crlf by (cases hs) simp_all

lemma find_head_end:
  "no_lf first \<Longrightarrow> \<forall>h \<in> set hs. no_lf (line h) \<Longrightarrow>
   find_str (head_of first hs @ crlf @ crlf @ t) head_end = Some (length (head_of first hs))"
proof (induction hs arbitrary: first)
  case Nil
  then show ?case using find_head_end_line [of first "crlf @ t"] by (simp add: head_end_def)
next
  case (Cons h hs)
  then show ?case
    using find_head_end_line [of first "head_of (line h) hs @ crlf @ crlf @ t"] head_of_not_crlf [of h hs "crlf @ crlf @ t"]
    by (simp add: crlf_def)
qed

section \<open>Lines\<close>

lemma splitOn_here: "sep \<notin> set p \<Longrightarrow> splitOn (p @ sep # q) sep = p # splitOn q sep"
  using find_chr_Some [of "p @ sep # q" sep "length p"] by (subst splitOn.simps) simp

lemma splitOn_none: "sep \<notin> set p \<Longrightarrow> splitOn p sep = [p]"
  using find_chr_None [of p sep] by (subst splitOn.simps) simp

text \<open>The CR that stays at the end of a line is white space.\<close>

lemma trimAscii_cr: "trimAscii (s @ [CHR 0x0D]) = trimAscii s"
  by (induction s) (auto simp: trimAscii_def is_ws_def dropWhile_append)

lemma event_header_line_cr [simp]: "event_header_line (s @ [CHR 0x0D]) acc = event_header_line s acc"
  by (simp add: event_header_line_def trimAscii_cr)

lemma fold_head:
  "no_lf first \<Longrightarrow> \<forall>h \<in> set hs. no_lf (line h) \<Longrightarrow>
   fold event_header_line (splitOn (head_of first hs) (CHR 0x0A)) acc
     = fold event_header_line (first # map line hs) acc"
proof (induction hs arbitrary: first acc)
  case Nil
  then show ?case by (simp add: splitOn_none)
next
  case (Cons h hs)
  have "splitOn (head_of first (h # hs)) (CHR 0x0A)
      = (first @ [CHR 0x0D]) # splitOn (head_of (line h) hs) (CHR 0x0A)"
    using Cons.prems(1) splitOn_here [of "CHR 0x0A" "first @ [CHR 0x0D]" "head_of (line h) hs"] by (simp add: crlf_def)
  with Cons show ?case by simp
qed

section \<open>One header\<close>

definition rtrim :: "string \<Rightarrow> string" where
  "rtrim s = rev (dropWhile is_ws (rev s))"

lemma trimAscii_rtrim: "s = [] \<or> \<not> is_ws (hd s) \<Longrightarrow> trimAscii s = rtrim s"
  by (cases s) (auto simp: trimAscii_def rtrim_def)

lemma rtrim_keep: "\<not> is_ws c \<Longrightarrow> rtrim (s @ c # w) = s @ c # rtrim w"
  by (auto simp: rtrim_def dropWhile_append)

lemma trimAscii_ws: "is_ws c \<Longrightarrow> trimAscii (s @ [c]) = trimAscii s" "is_ws c \<Longrightarrow> trimAscii (c # s) = trimAscii s"
  by (induction s) (auto simp: trimAscii_def dropWhile_append)

lemma trimAscii_idem: "trimAscii (rtrim s) = trimAscii s"
  by (induction s rule: rev_induct) (auto simp: rtrim_def trimAscii_ws)

definition key_ok :: "string \<Rightarrow> bool" where
  "key_ok k \<longleftrightarrow> k \<noteq> [] \<and> \<not> is_ws (hd k) \<and> CHR '':'' \<notin> set k \<and> no_lf k"

lemma event_header_line_line:
  assumes "key_ok k"
  shows "event_header_line (line (k, v)) acc =
    (let k' = trimAscii (lowerAscii k)
     in if k' = ''content-length'' then (toInt (trimAscii v), snd acc)
        else if k' = ''cseq'' then (fst acc, trimAscii v) else acc)"
proof -
  have t: "trimAscii (line (k, v)) = k @ CHR '':'' # rtrim (CHR '' '' # v)"
    using assms by (cases k) (auto simp: line_def key_ok_def trimAscii_rtrim rtrim_keep [where s = "c # k'" for c k', simplified] is_ws_def)
  have f: "find_chr (k @ CHR '':'' # w) (CHR '':'') = Some (length k)" for w
    using assms by (simp add: find_chr_Some key_ok_def)
  have "trimAscii (rtrim (CHR '' '' # v)) = trimAscii v" by (simp only: trimAscii_idem) (simp add: trimAscii_ws is_ws_def)
  then show ?thesis using assms by (simp add: event_header_line_def t f key_ok_def Let_def)
qed

text \<open>Two of the keys count.\<close>

definition idle_key :: "string \<Rightarrow> bool" where
  "idle_key k \<longleftrightarrow> key_ok k \<and> trimAscii (lowerAscii k) \<noteq> ''content-length'' \<and> trimAscii (lowerAscii k) \<noteq> ''cseq''"

lemma idle_keys:
  "idle_key ''User-Agent''" "idle_key ''DACP-ID''" "idle_key ''Active-Remote''" "idle_key ''Client-Instance''"
  "idle_key ''X-Apple-Client-Name''" "idle_key ''Authorization''" "idle_key ''Content-Type''" "idle_key ''Connection''"
  "idle_key ''X-Apple-HKP''" "idle_key ''X-Apple-StreamID''" "idle_key ''Session''" "idle_key ''RTP-Info''"
  "idle_key ''Range''" "idle_key ''Transport''"
  by code_simp+

lemma idle_line: "idle_key k \<Longrightarrow> event_header_line (line (k, v)) acc = acc"
  by (simp add: idle_key_def event_header_line_line)

lemma idle_lines: "\<forall>h \<in> set hs. idle_key (fst h) \<Longrightarrow> fold event_header_line (map line hs) acc = acc"
  by (induction hs) (auto simp: idle_line)

lemma cseq_line: "event_header_line (line (''CSeq'', v)) acc = (fst acc, trimAscii v)"
proof -
  have "key_ok ''CSeq''" "trimAscii (lowerAscii ''CSeq'') = ''cseq''" by code_simp+
  then show ?thesis by (simp add: event_header_line_line)
qed

lemma length_line: "event_header_line (line (''Content-Length'', v)) acc = (toInt (trimAscii v), snd acc)"
proof -
  have "key_ok ''Content-Length''" "trimAscii (lowerAscii ''Content-Length'') = ''content-length''" by code_simp+
  then show ?thesis by (simp add: event_header_line_line)
qed

lemma digits_no_ws: "is_digit c \<Longrightarrow> \<not> is_ws c"
  by (auto simp: is_digit_def is_ws_def)

lemma trimAscii_nonws: "\<forall>c \<in> set s. \<not> is_ws c \<Longrightarrow> trimAscii s = s"
proof -
  assume "\<forall>c \<in> set s. \<not> is_ws c"
  then have "dropWhile is_ws s = s" "dropWhile is_ws (rev s) = rev s"
    by (cases s; simp; fail)+ (cases "rev s"; use \<open>\<forall>c \<in> set s. \<not> is_ws c\<close> in \<open>auto simp: rev_swap\<close>)
  then show ?thesis by (simp add: trimAscii_def)
qed

lemma trimAscii_to_string: "trimAscii (to_string i) = to_string i"
proof (rule trimAscii_nonws)
  show "\<forall>c \<in> set (to_string i). \<not> is_ws c"
    using nat_digits_digits digits_no_ws by (auto simp: to_string_def is_ws_def)
qed

lemma toInt_nat_str: "n < 2 ^ 31 \<Longrightarrow> toInt (trimAscii (nat_str n)) = int n"
  by (simp add: nat_str_def trimAscii_to_string toInt_def parseInt_to_string signed_take_bit_int_eq_self)

section \<open>The request line\<close>

lemma lower_ws: "is_ws (if 0x41 \<le> ord c \<and> ord c \<le> 0x5A then chr (ord c + 0x20) else c) = is_ws c"
  by (auto simp: is_ws_def of_char_of)

lemma request_line_ok:
  assumes m: "meth \<noteq> []" "\<not> is_ws (hd meth)" "CHR '':'' \<notin> set meth" and u: "uri \<noteq> []" "\<not> is_ws (hd uri)" "hd uri \<noteq> CHR '':''"
  shows "event_header_line (meth @ '' '' @ uri @ w) acc = acc"
proof -
  obtain u0 us where u0: "uri = u0 # us" "\<not> is_ws u0" "u0 \<noteq> CHR '':''" using u by (cases uri) auto
  obtain m0 m' where m0: "meth = m0 # m'" "\<not> is_ws m0" using m by (cases meth) auto
  have keep: "trimAscii (x # xs @ CHR '' '' # y # ys) = x # xs @ CHR '' '' # y # rtrim ys" if "\<not> is_ws x" "\<not> is_ws y" for x xs y ys
    using that rtrim_keep [of y "x # xs @ '' ''" ys] by (simp add: trimAscii_rtrim)
  have t: "trimAscii (meth @ '' '' @ uri @ w) = meth @ CHR '' '' # u0 # rtrim (us @ w)"
    using keep [of m0 u0 m' "us @ w"] m0 u0 by simp
  show ?thesis
  proof (cases "find_chr (trimAscii (meth @ '' '' @ uri @ w)) (CHR '':'')")
    case None
    then show ?thesis by (simp add: event_header_line_def)
  next
    case (Some colon)
    have c: "\<not> colon < length meth + 2"
      using Some m(3) u0(3) unfolding t find_chr_Some
      by (auto simp: nth_append nth_Cons' split: if_splits) (metis nth_mem)
    define k where "k = trimAscii (lowerAscii (take colon (trimAscii (meth @ '' '' @ uri @ w))))"
    have "CHR '' '' \<in> set k"
      using c m0 u0(2) unfolding k_def t lowerAscii_def
      by (simp add: keep lower_ws take_Cons' split: if_splits)
    then have "k \<noteq> ''content-length''" "k \<noteq> ''cseq''" by auto
    then show ?thesis using Some by (simp add: event_header_line_def Let_def k_def)
  qed
qed

section \<open>Whole requests\<close>

lemma event_request_head:
  assumes "no_lf first" and "\<forall>acc. event_header_line first acc = acc" and "\<forall>h \<in> set hs. no_lf (line h)"
    and "fold event_header_line (map line hs) (0, []) = (int (length body), c)"
  shows "event_request (first @ crlf @ concat (map (\<lambda>(k, v). hdr k v) hs) @ crlf @ body @ rest) = Some (c, rest)"
proof -
  have x: "first @ crlf @ concat (map (\<lambda>(k, v). hdr k v) hs) @ y = head_of first hs @ crlf @ y" for y
    using head_of_hdrs [of first hs] by (metis append.assoc)
  have "take (length (head_of first hs)) (head_of first hs @ y) = head_of first hs" for y by simp
  moreover have "fold event_header_line (splitOn (head_of first hs) (CHR 0x0A)) (0, []) = (int (length body), c)"
    using fold_head [OF assms(1,3)] assms(2,4) by simp
  ultimately show ?thesis
    unfolding x event_request_def find_head_end [OF assms(1,3)]
    by (simp add: crlf_def eval_nat_numeral)
qed

text \<open>The optional headers.\<close>

definition opt_header :: "bool \<Rightarrow> string \<Rightarrow> string \<Rightarrow> (string \<times> string) list" where
  "opt_header b k v = (if b then [(k, v)] else [])"

lemma hdr_if_opt: "hdr_if b k v = concat (map (\<lambda>(k, v). hdr k v) (opt_header b k v))"
  by (simp add: hdr_if_def opt_header_def)

definition length_header :: "bool \<Rightarrow> string \<Rightarrow> (string \<times> string) list" where
  "length_header b body = opt_header b ''Content-Length'' (nat_str (length body))"

lemma length_header_folds:
  assumes "length body < 2 ^ 31" and "b \<or> body = []"
  shows "fold event_header_line (map line (length_header b body)) (0, c) = (int (length body), c)"
  using assms toInt_nat_str [of "length body"] by (auto simp: length_header_def opt_header_def length_line)

text \<open>A head whose first header is the sequence number and whose last is the length.\<close>

lemma event_request_text:
  assumes l: "no_lf first" "\<forall>acc. event_header_line first acc = acc"
    and h: "\<forall>h \<in> set hs. idle_key (fst h) \<and> no_lf (snd h)"
    and b: "length body < 2 ^ 31" "b \<or> body = []"
  shows "event_request ((first @ crlf @ concat (map (\<lambda>(k, v). hdr k v)
       ((''CSeq'', to_string n) # hs @ length_header b body)) @ crlf @ body) @ rest) = Some (to_string n, rest)"
proof -
  have nl: "no_lf (to_string i)" for i
    using no_crlf_to_string [of i] by (force simp: no_crlf_def)
  let ?hs = "(''CSeq'', to_string n) # hs @ length_header b body"
  have "\<forall>h \<in> set ?hs. no_lf (line h)"
    using h nl by (auto simp: length_header_def opt_header_def nat_str_def idle_key_def key_ok_def split: if_splits)
  moreover have "fold event_header_line (map line ?hs) (0, []) = (int (length body), to_string n)"
    using h length_header_folds [OF b] by (simp add: cseq_line trimAscii_to_string idle_lines)
  ultimately show ?thesis
    using event_request_head [OF l, of ?hs body "to_string n" rest] by simp
qed

section \<open>What the sender writes\<close>

definition plain_target :: "string \<Rightarrow> string \<Rightarrow> bool" where
  "plain_target meth uri \<longleftrightarrow> meth \<noteq> [] \<and> \<not> is_ws (hd meth) \<and> CHR '':'' \<notin> set meth \<and> no_lf meth
     \<and> uri \<noteq> [] \<and> \<not> is_ws (hd uri) \<and> hd uri \<noteq> CHR '':'' \<and> no_lf uri"

definition clean_head :: "sender \<Rightarrow> bool" where
  "clean_head s \<longleftrightarrow> no_lf (s_dacpId s) \<and> no_lf (id_name (s_identity s)) \<and> no_lf (s_digestRealm s) \<and> no_lf (s_digestNonce s)"

definition common_headers :: "sender \<Rightarrow> (string \<times> string) list" where
  "common_headers s = [(''DACP-ID'', s_dacpId s), (''Active-Remote'', to_string (uint (s_activeRemote s))),
     (''Client-Instance'', s_dacpId s), (''X-Apple-Client-Name'', id_name (s_identity s))]"

lemma to_string_no_lf [simp]: "no_lf (to_string i)"
  using no_crlf_to_string [of i] by (force simp: no_crlf_def)

lemma common_headers_clean: "clean_head s \<Longrightarrow> \<forall>h \<in> set (common_headers s). idle_key (fst h) \<and> no_lf (snd h)"
  by (simp add: common_headers_def clean_head_def idle_keys)

lemma target_line:
  assumes "plain_target meth uri" and "no_lf v"
  shows "no_lf (meth @ '' '' @ uri @ v)" "\<forall>acc. event_header_line (meth @ '' '' @ uri @ v) acc = acc"
  using assms request_line_ok [of meth uri v] by (simp_all add: plain_target_def)

lemma request_text_head:
  "request_text C meth uri ct body extra s =
     (meth @ '' '' @ uri @ '' RTSP/1.0'') @ crlf @ concat (map (\<lambda>(k, v). hdr k v)
       ((''CSeq'', to_string (s_cseq s)) # ((''User-Agent'', ''AirPlay/550.10'') # common_headers s
         @ opt_header (s_digestNonce s \<noteq> [] \<and> s_digestPassword s \<noteq> []) ''Authorization''
             (digestAuthResponse C meth uri ''iTunes'' (s_digestRealm s) (s_digestPassword s) (s_digestNonce s))
         @ extra @ opt_header (ct \<noteq> []) ''Content-Type'' ct) @ length_header (body \<noteq> []) body)) @ crlf @ body"
  by (simp add: request_text_def common_headers_def hdr_if_opt length_header_def)

lemma http_text_head:
  "http_text uri ct body s =
     (''POST'' @ '' '' @ uri @ '' HTTP/1.1'') @ crlf @ concat (map (\<lambda>(k, v). hdr k v)
       ((''CSeq'', to_string (s_cseq s)) # ([(''User-Agent'', ''AirPlay/550.10''), (''Connection'', ''keep-alive''),
           (''X-Apple-HKP'', to_string (if s_authMethod s = Auth_HapTransient then 4 else 3))] @ common_headers s
         @ opt_header (ct \<noteq> []) ''Content-Type'' ct) @ length_header True body)) @ crlf @ body"
  by (simp add: http_text_def common_headers_def hdr_if_opt length_header_def opt_header_def)

lemma ap2_text_head:
  "ap2_text meth uri ct body s =
     (meth @ '' '' @ uri @ '' RTSP/1.0'') @ crlf @ concat (map (\<lambda>(k, v). hdr k v)
       ((''CSeq'', to_string (s_cseq s)) # ((''User-Agent'', ''AirPlay/550.10'') # common_headers s
         @ opt_header (meth = ''SETUP'') ''X-Apple-StreamID'' ''1''
         @ opt_header (ct \<noteq> []) ''Content-Type'' ct) @ length_header (body \<noteq> []) body)) @ crlf @ body"
  by (simp add: ap2_text_def common_headers_def hdr_if_opt length_header_def)

lemma hex_lower_no_lf: "n < 16 \<Longrightarrow> hex_lower n \<noteq> CHR 0x0A"
proof -
  have "\<forall>n \<in> set [0..<16]. hex_lower n \<noteq> CHR 0x0A" by code_simp
  then show "n < 16 \<Longrightarrow> ?thesis" by (simp only: set_upt) (simp add: Ball_def)
qed

lemma concat_map_no_lf:
  "(\<And>c. f c \<noteq> CHR 0x0A) \<Longrightarrow> (\<And>c. g c \<noteq> CHR 0x0A) \<Longrightarrow> no_lf (concat (map (\<lambda>c. [f c, g c]) cs))"
  by (induction cs) (auto dest: not_sym)

lemma md5Hex_no_lf: "no_lf (md5Hex C x)"
proof -
  have "unat (drop_bit 4 (c :: byte)) < 16" for c
    using unat_byte_bound [of c] by (simp add: unat_div less_mult_imp_div_less)
  moreover have "unat (c AND 0xF :: byte) < 16" for c
  proof -
    have "unat (c AND 0xF) \<le> unat (0xF :: byte)" by (rule word_le_nat_alt [THEN iffD1]) (rule word_and_le1)
    then show ?thesis by simp
  qed
  ultimately have "hex_lower (unat (drop_bit 4 c)) \<noteq> CHR 0x0A" "hex_lower (unat (c AND 0xF)) \<noteq> CHR 0x0A" for c :: byte
    by (simp_all only: hex_lower_no_lf not_False_eq_True)
  then show ?thesis unfolding md5Hex_def by (rule concat_map_no_lf)
qed

lemma digest_no_lf:
  "no_lf uri \<Longrightarrow> no_lf user \<Longrightarrow> no_lf realm \<Longrightarrow> no_lf nonce \<Longrightarrow> no_lf (digestAuthResponse C meth uri user realm pw nonce)"
  using md5Hex_no_lf by (simp add: digestAuthResponse_def Let_def dquote_def)

text \<open>
  C22. Every request the sender writes is delimited: a receiver that reads the head up to the
  empty line and the body its length header names gets the request's own sequence number and
  exactly the next request as the rest, for each of the three ways requests are assembled, for
  any body whose length an \<open>int\<close> holds, and for any header values without line feeds.
\<close>

theorem requests_delimited:
  assumes "plain_target meth uri" and "clean_head s" and "no_lf ct" and "length body < 2 ^ 31"
    and "\<forall>h \<in> set extra. idle_key (fst h) \<and> no_lf (snd h)"
  shows "event_request (request_text C meth uri ct body extra s @ rest) = Some (to_string (s_cseq s), rest)
    \<and> event_request (http_text uri ct body s @ rest) = Some (to_string (s_cseq s), rest)
    \<and> event_request (ap2_text meth uri ct body s @ rest) = Some (to_string (s_cseq s), rest)"
proof (intro conjI)
  note common = common_headers_clean [OF assms(2)]
  have ct: "\<forall>h \<in> set (opt_header (ct \<noteq> []) ''Content-Type'' ct). idle_key (fst h) \<and> no_lf (snd h)"
    using assms(3) by (simp add: opt_header_def idle_keys)
  have dg: "no_lf (digestAuthResponse C meth uri ''iTunes'' (s_digestRealm s) pw (s_digestNonce s))" for pw
    using assms(1,2) by (intro digest_no_lf) (simp_all add: plain_target_def clean_head_def)
  have post: "plain_target ''POST'' uri" using assms(1) by (simp add: plain_target_def is_ws_def)
  show "event_request (request_text C meth uri ct body extra s @ rest) = Some (to_string (s_cseq s), rest)"
    unfolding request_text_head using common ct dg assms(4,5)
    by (intro event_request_text target_line [OF assms(1)]) (auto simp: opt_header_def idle_keys)
  show "event_request (http_text uri ct body s @ rest) = Some (to_string (s_cseq s), rest)"
    unfolding http_text_head using common ct assms(4)
    by (intro event_request_text target_line [OF post]) (auto simp: idle_keys)
  show "event_request (ap2_text meth uri ct body s @ rest) = Some (to_string (s_cseq s), rest)"
    unfolding ap2_text_head using common ct assms(4)
    by (intro event_request_text target_line [OF assms(1)]) (auto simp: opt_header_def idle_keys)
qed

theorem requests_delimited_witness:
  "event_request (request_text demo_crypto ''SET_PARAMETER'' ''rtsp://10.0.0.2/7'' ''image/jpeg'' (crlf @ crlf) [(''Session'', ''1'')] (new_sender 0 0) @ ''next'')
      = Some (to_string (s_cseq (new_sender 0 0)), ''next'')
    \<and> event_request (http_text ''rtsp://10.0.0.2/7'' ''image/jpeg'' (crlf @ crlf) (new_sender 0 0) @ ''next'')
      = Some (to_string (s_cseq (new_sender 0 0)), ''next'')
    \<and> event_request (ap2_text ''SET_PARAMETER'' ''rtsp://10.0.0.2/7'' ''image/jpeg'' (crlf @ crlf) (new_sender 0 0) @ ''next'')
      = Some (to_string (s_cseq (new_sender 0 0)), ''next'')"
  by (rule requests_delimited) (simp_all add: plain_target_def clean_head_def new_sender_def is_ws_def crlf_def idle_keys)

text \<open>
  What the application sets is made to fit: \<open>setIdentity\<close> and \<open>start\<close> put no line feed into
  the fields all requests carry.
\<close>

lemma setIdentity_clean: "no_lf (id_name (s_identity (setIdentity i s)))"
  using no_crlf_stripCrLf [of "id_name i"] by (auto simp: setIdentity_def or_default_def Let_def no_crlf_def)

lemma hexUpper_no_lf: "no_lf (hexUpper v)"
proof -
  have d: "\<forall>n \<in> set [0..<16]. ''0123456789ABCDEF'' ! n \<noteq> CHR 0x0A" by code_simp
  then have l: "n < 16 \<Longrightarrow> ''0123456789ABCDEF'' ! n \<noteq> CHR 0x0A" for n by (metis atLeastLessThan_iff set_upt zero_le)
  have "no_lf (hex_upper_nat n)" for n
  proof (induction n rule: hex_upper_nat.induct)
    case (1 n)
    with l [of n] l [of "n mod 16"] show ?case by (subst hex_upper_nat.simps) auto
  qed
  then show ?thesis by (simp add: hexUpper_def)
qed

lemma fresh_ids_clean: "no_lf (s_dacpId (fresh_ids C s))"
  using hexUpper_no_lf by (simp add: fresh_ids_def rand32_def rand64_def rand16_def draw_def Let_def)

section \<open>A request that is split\<close>

text \<open>
  The MIME type of a cover goes into a header as it is. With an empty line in it the receiver
  takes the rest of the type, and the cover after it, for the next request.
\<close>

lemma cover_mime_splits:
  assumes "plain_target meth uri" and "clean_head s" and "no_lf mime"
    and "\<forall>h \<in> set extra. idle_key (fst h) \<and> no_lf (snd h)"
  shows "\<exists>tl. event_request (request_text C meth uri (mime @ crlf @ crlf @ smuggled) body extra s)
    = Some (to_string (s_cseq s), smuggled @ tl)"
proof -
  let ?dg = "digestAuthResponse C meth uri ''iTunes'' (s_digestRealm s) (s_digestPassword s) (s_digestNonce s)"
  let ?hs = "(''User-Agent'', ''AirPlay/550.10'') # common_headers s
    @ opt_header (s_digestNonce s \<noteq> [] \<and> s_digestPassword s \<noteq> []) ''Authorization'' ?dg @ extra @ [(''Content-Type'', mime)]"
  let ?tl = "crlf @ hdr_if (body \<noteq> []) ''Content-Length'' (nat_str (length body)) @ crlf @ body"
  have dg: "no_lf ?dg" using assms(1,2) by (intro digest_no_lf) (simp_all add: plain_target_def clean_head_def)
  have "event_request (((meth @ '' '' @ uri @ '' RTSP/1.0'') @ crlf @ concat (map (\<lambda>(k, v). hdr k v)
       ((''CSeq'', to_string (s_cseq s)) # ?hs @ length_header False [])) @ crlf @ []) @ smuggled @ ?tl)
     = Some (to_string (s_cseq s), smuggled @ ?tl)"
    using common_headers_clean [OF assms(2)] dg assms(3,4)
    by (intro event_request_text target_line [OF assms(1)]) (auto simp: opt_header_def idle_keys)
  moreover have "request_text C meth uri (mime @ crlf @ crlf @ smuggled) body extra s
     = ((meth @ '' '' @ uri @ '' RTSP/1.0'') @ crlf @ concat (map (\<lambda>(k, v). hdr k v)
       ((''CSeq'', to_string (s_cseq s)) # ?hs @ length_header False [])) @ crlf @ []) @ smuggled @ ?tl"
    by (simp add: request_text_head length_header_def opt_header_def hdr_if_def hdr_def crlf_def)
  ultimately show ?thesis by metis
qed

end
