(* ===== verification/Resample_Stream.thy ===== *)
theory Resample_Stream
  imports Resampler
begin

text \<open>
  The resampler against a reference: linear interpolation of the whole input at equally spaced
  times. Packet boundaries, the staging buffer, its compaction and its bound do not show in
  what comes out, as long as the input lasts.
\<close>

section \<open>The reference\<close>

definition frame_at :: "16 word list \<Rightarrow> rat \<Rightarrow> 16 word list" where
  "frame_at pcm p =
     (let i = nat \<lfloor>p\<rfloor>; t = p - of_nat i
      in [lerp (pcm ! (i * 2)) (pcm ! (i * 2 + 2)) t, lerp (pcm ! (i * 2 + 1)) (pcm ! (i * 2 + 3)) t])"

definition resampled :: "16 word list \<Rightarrow> rat \<Rightarrow> rat \<Rightarrow> nat \<Rightarrow> 16 word list" where
  "resampled pcm p step n = concat (map (\<lambda>i. frame_at pcm (p + of_nat i * step)) [0..<n])"

lemma resampled_Suc: "resampled pcm p step (Suc n) = frame_at pcm p @ resampled pcm (p + step) step n"
  unfolding resampled_def
  by (simp add: upt_conv_Cons map_Suc_upt [symmetric] comp_def algebra_simps del: upt_Suc)

lemma resampled_add: "resampled pcm p step (n + k) = resampled pcm p step n @ resampled pcm (p + of_nat n * step) step k"
  by (induction n arbitrary: p) (simp_all add: resampled_Suc algebra_simps, simp add: resampled_def)

lemma frame_below: "0 \<le> step \<Longrightarrow> nat \<lfloor>p + of_nat n * step\<rfloor> < m \<Longrightarrow> i \<le> n \<Longrightarrow> nat \<lfloor>p + of_nat i * step\<rfloor> < m"
  for step :: rat
proof -
  assume a: "0 \<le> step" "nat \<lfloor>p + of_nat n * step\<rfloor> < m" "i \<le> n"
  have "p + of_nat i * step \<le> p + of_nat n * step" using a by (simp add: mult_right_mono)
  then have "\<lfloor>p + of_nat i * step\<rfloor> \<le> \<lfloor>p + of_nat n * step\<rfloor>" by (rule floor_mono)
  with a(2) show ?thesis by linarith
qed

lemma frame_at_append: "nat \<lfloor>p\<rfloor> * 2 + 3 < length xs \<Longrightarrow> frame_at (xs @ ys) p = frame_at xs p"
  by (simp add: frame_at_def Let_def nth_append)

lemma frame_at_drop:
  assumes "of_nat k \<le> p" and "k * 2 \<le> length pcm" shows "frame_at (drop (k * 2) pcm) (p - of_nat k) = frame_at pcm p"
proof -
  have f: "nat \<lfloor>p - of_nat k\<rfloor> = nat \<lfloor>p\<rfloor> - k"
    by (simp add: floor_diff_of_int [of p "int k", simplified])
  have "int k \<le> \<lfloor>p\<rfloor>" using assms(1) by (simp add: le_floor_iff)
  then obtain i where i: "nat \<lfloor>p\<rfloor> = k + i" by (metis le_Suc_ex nat_int nat_mono)
  have n: "drop (k * 2) pcm ! (i * 2 + j) = pcm ! ((k + i) * 2 + j)" for j
    using assms(2) by (simp add: algebra_simps)
  show ?thesis using n [of 0] n [of 1] n [of 2] n [of 3] by (simp add: frame_at_def Let_def f i diff_diff_eq)
qed

lemma resampled_append:
  assumes "0 \<le> step" and "nat \<lfloor>p + of_nat n * step\<rfloor> + 1 < m" and "m * 2 \<le> length xs"
  shows "resampled (xs @ ys) p step n = resampled xs p step n"
  unfolding resampled_def
proof (rule arg_cong [where f = concat], rule map_cong [OF refl])
  fix i assume "i \<in> set [0..<n]"
  then have i: "i \<le> n" by simp
  have "nat \<lfloor>p + of_nat n * step\<rfloor> < m - 1" using assms(2) by (simp only: less_diff_conv)
  from frame_below [OF assms(1) this i] have "(nat \<lfloor>p + of_nat i * step\<rfloor> + 2) * 2 \<le> m * 2" by simp
  then show "frame_at (xs @ ys) (p + of_nat i * step) = frame_at xs (p + of_nat i * step)"
    using assms(3) by (intro frame_at_append) simp
qed

lemma resampled_drop:
  assumes "0 \<le> step" and "of_nat k \<le> p" and "k * 2 \<le> length pcm"
  shows "resampled (drop (k * 2) pcm) (p - of_nat k) step n = resampled pcm p step n"
  unfolding resampled_def
proof (rule arg_cong [where f = concat], rule map_cong [OF refl])
  fix i
  have "of_nat k \<le> p + of_nat i * step" using assms(1,2) by (simp add: add_increasing2)
  from frame_at_drop [OF this assms(3)]
  show "frame_at (drop (k * 2) pcm) (p - of_nat k + of_nat i * step) = frame_at pcm (p + of_nat i * step)"
    by (simp add: algebra_simps)
qed

section \<open>One packet\<close>

lemma interpolate_reference:
  assumes "0 \<le> step"
  shows "0 \<le> p \<Longrightarrow> nat \<lfloor>p + of_nat n * step\<rfloor> + 1 < m \<Longrightarrow>
    interpolate n buf m step p = (resampled buf p step n, p + of_nat n * step)"
proof (induction n arbitrary: p)
  case 0
  then show ?case by (simp add: resampled_def)
next
  case (Suc n)
  have "nat \<lfloor>p\<rfloor> < m - 1" using frame_below [OF assms, of p "Suc n" "m - 1" 0] Suc.prems(2) by simp
  moreover have "interpolate n buf m step (p + step) = (resampled buf (p + step) step n, p + step + of_nat n * step)"
    using Suc.prems assms by (intro Suc.IH) (simp_all add: algebra_simps)
  ultimately show ?case by (simp add: Let_def resampled_Suc frame_at_def algebra_simps)
qed

text \<open>What is yet to be played.\<close>

definition pcm_of :: "resampler \<Rightarrow> 16 word list" where
  "pcm_of R = rs_inBuf R @ (case rs_ring R of None \<Rightarrow> [] | Some ring \<Rightarrow> ring_contents ring)"

definition step_of :: "resampler \<Rightarrow> rat" where
  "step_of R = of_nat (unat (rs_inputRate R)) / of_nat (unat kRaopRate)"

lemma top_up_all:
  assumes "ring_inv ring" and "even (length buf)" and "length buf \<le> kInBufMaxFrames * kChannels"
    and "top_up buf ring = (m, buf', ring')"
  shows "m = min kInBufMaxFrames (length (buf @ ring_contents ring) div 2)"
proof -
  have b: "length buf div kChannels \<le> kInBufMaxFrames" using assms(3) by (simp add: kChannels_def)
  have l: "length (buf @ ring_contents ring) div 2 = length buf div 2 + length (ring_contents ring) div 2"
    using assms(2) by (auto elim!: evenE)
  have "m = length buf div 2 + min (kInBufMaxFrames - length buf div 2) (length (ring_contents ring) div 2)"
    using assms(4) b available_contents [OF assms(1)]
    by (auto simp: top_up_def Let_def kChannels_def split: if_splits option.splits)
  then show ?thesis using b unfolding l by (auto simp: kChannels_def min_def)
qed

lemma fillFrames_reference:
  assumes R: "resampler_ok R" and ring: "rs_ring R \<noteq> None" and rate: "rs_inputRate R \<noteq> kRaopRate"
    and room: "nat \<lfloor>rs_srcPhase R + of_nat n * step_of R\<rfloor> + 1 < min kInBufMaxFrames (length (pcm_of R) div 2)"
  defines "gone \<equiv> nat \<lfloor>rs_srcPhase R + of_nat n * step_of R\<rfloor>"
  shows "\<exists>R'. fillFrames R n = Some (resampled (pcm_of R) (rs_srcPhase R) (step_of R) n, R')
    \<and> resampler_ok R' \<and> rs_ring R' \<noteq> None \<and> rs_inputRate R' = rs_inputRate R
    \<and> pcm_of R' = drop (gone * 2) (pcm_of R) \<and> rs_srcPhase R' = rs_srcPhase R + of_nat n * step_of R - of_nat gone"
proof -
  obtain q where q: "rs_ring R = Some q" using ring by auto
  have inv: "ring_inv q" "even (length (rs_inBuf R))" "length (rs_inBuf R) \<le> kInBufMaxFrames * kChannels"
      "0 \<le> rs_srcPhase R"
    using R q by (simp_all add: resampler_ok_def)
  obtain m buf q' where t: "top_up (rs_inBuf R) q = (m, buf, q')" "length buf = m * 2"
      "ring_inv q'" "buf @ ring_contents q' = rs_inBuf R @ ring_contents q"
    using top_up_ok [OF inv(1-3)] by metis
  have pcm: "pcm_of R = buf @ ring_contents q'" using q t(4) by (simp add: pcm_of_def)
  have m: "gone + 1 < m" using top_up_all [OF inv(1-3) t(1)] room q by (simp add: pcm_of_def gone_def)
  have st: "0 \<le> step_of R"
    unfolding step_of_def by (rule divide_nonneg_nonneg; rule of_nat_0_le_iff)
  have i: "interpolate n buf m (step_of R) (rs_srcPhase R)
      = (resampled (pcm_of R) (rs_srcPhase R) (step_of R) n, rs_srcPhase R + of_nat n * step_of R)"
    using interpolate_reference [OF st inv(4), of n m buf] m resampled_append [OF st, of _ n m buf] t(2)
    by (simp add: pcm gone_def)
  define R' where "R' = R\<lparr>rs_ring := Some q', rs_inBuf := drop (gone * 2) buf,
      rs_srcPhase := rs_srcPhase R + of_nat n * step_of R - of_nat gone\<rparr>"
  have len: "length (resampled (pcm_of R) (rs_srcPhase R) (step_of R) n) = n * 2"
    by (simp add: resampled_def frame_at_def Let_def length_concat comp_def sum_list_triv)
  have f: "fillFrames R n = Some (resampled (pcm_of R) (rs_srcPhase R) (step_of R) n, R')"
    unfolding fillFrames_def Let_def step_of_def [symmetric]
    using q rate t(1) i len m by (simp add: R'_def pad_silence_def kChannels_def gone_def)
  moreover have "resampler_ok R'"
    using fillFrames_resample [OF R q rate, of n] f by auto
  moreover have "pcm_of R' = drop (gone * 2) (pcm_of R)"
    using m t(2) by (simp add: pcm) (simp add: pcm_of_def R'_def)
  ultimately show ?thesis by (auto simp: R'_def)
qed

section \<open>Any number of packets\<close>

text \<open>Packet after packet of \<open>n\<close> frames.\<close>

fun fills :: "nat \<Rightarrow> nat \<Rightarrow> resampler \<Rightarrow> (16 word list \<times> resampler) option" where
  "fills n 0 R = Some ([], R)"
| "fills n (Suc k) R = (case fillFrames R n of None \<Rightarrow> None
     | Some (xs, R) \<Rightarrow> (case fills n k R of None \<Rightarrow> None | Some (ys, R) \<Rightarrow> Some (xs @ ys, R)))"

definition lasts :: "nat \<Rightarrow> nat \<Rightarrow> resampler \<Rightarrow> bool" where
  "lasts n k R \<longleftrightarrow> resampler_ok R \<and> rs_ring R \<noteq> None \<and> rs_inputRate R \<noteq> kRaopRate \<and> rs_srcPhase R < 1
     \<and> of_nat n * step_of R + 3 \<le> of_nat kInBufMaxFrames
     \<and> nat \<lfloor>rs_srcPhase R + of_nat (k * n) * step_of R\<rfloor> + 1 < length (pcm_of R) div 2"

lemma step_of_nonneg: "0 \<le> step_of R"
  unfolding step_of_def by (rule divide_nonneg_nonneg; rule of_nat_0_le_iff)

lemma lasts_one:
  assumes "lasts n (Suc k) R"
  shows "nat \<lfloor>rs_srcPhase R + of_nat n * step_of R\<rfloor> + 1 < min kInBufMaxFrames (length (pcm_of R) div 2)"
proof -
  have "rs_srcPhase R + of_nat n * step_of R < 8191" using assms by (simp add: lasts_def kInBufMaxFrames_def)
  then have "\<lfloor>rs_srcPhase R + of_nat n * step_of R\<rfloor> < 8191" by (simp add: floor_less_iff)
  then have "nat \<lfloor>rs_srcPhase R + of_nat n * step_of R\<rfloor> + 1 < kInBufMaxFrames"
    unfolding kInBufMaxFrames_def by linarith
  moreover have "nat \<lfloor>rs_srcPhase R + of_nat n * step_of R\<rfloor> + 1 < length (pcm_of R) div 2"
    using frame_below [OF step_of_nonneg, of "rs_srcPhase R" "Suc k * n" R "length (pcm_of R) div 2 - 1" n] assms
    by (simp add: lasts_def less_diff_conv)
  ultimately show ?thesis by simp
qed

lemma half_drop: "x + 1 < length pcm div 2 \<Longrightarrow> g \<le> x \<Longrightarrow> x - g + 1 < length (drop (g * 2) pcm) div 2" for x g :: nat
  unfolding length_drop by presburger

lemma fills_reference:
  "lasts n k R \<Longrightarrow> \<exists>R' gone. fills n k R = Some (resampled (pcm_of R) (rs_srcPhase R) (step_of R) (k * n), R')
     \<and> gone = nat \<lfloor>rs_srcPhase R + of_nat (k * n) * step_of R\<rfloor> \<and> resampler_ok R' \<and> rs_ring R' \<noteq> None
     \<and> pcm_of R' = drop (gone * 2) (pcm_of R) \<and> rs_srcPhase R' = rs_srcPhase R + of_nat (k * n) * step_of R - of_nat gone"
proof (induction k arbitrary: R)
  case 0
  then have "\<lfloor>rs_srcPhase R\<rfloor> = 0" by (intro floor_unique) (simp_all add: lasts_def resampler_ok_def)
  with 0 show ?case by (simp add: lasts_def resampled_def)
next
  case (Suc k)
  define X where "X = rs_srcPhase R + of_nat (Suc k * n) * step_of R"
  define Y where "Y = rs_srcPhase R + of_nat n * step_of R"
  define g where "g = nat \<lfloor>Y\<rfloor>"
  obtain R1 where r: "fillFrames R n = Some (resampled (pcm_of R) (rs_srcPhase R) (step_of R) n, R1)"
      "resampler_ok R1" "rs_ring R1 \<noteq> None" "rs_inputRate R1 = rs_inputRate R" "pcm_of R1 = drop (g * 2) (pcm_of R)"
      "rs_srcPhase R1 = Y - of_nat g"
    using fillFrames_reference [OF _ _ _ lasts_one [OF Suc.prems]] Suc.prems unfolding g_def Y_def lasts_def by blast
  have st: "step_of R1 = step_of R" by (simp add: step_of_def r(4))
  have "0 \<le> rs_srcPhase R" using Suc.prems by (simp add: lasts_def resampler_ok_def)
  then have Y: "0 \<le> Y" using step_of_nonneg [of R] by (simp add: Y_def)
  then have g: "of_nat g \<le> Y" "Y - of_nat g < 1" unfolding g_def by linarith+
  have XY: "Y + of_nat (k * n) * step_of R = X" by (simp add: X_def Y_def algebra_simps)
  have ph: "rs_srcPhase R1 + of_nat (k * n) * step_of R = X - of_nat g" by (simp add: r(6) XY [symmetric])
  have f: "nat \<lfloor>X - of_nat g\<rfloor> = nat \<lfloor>X\<rfloor> - g" by (simp add: floor_diff_of_int [of X "int g", simplified])
  have "Y \<le> X" unfolding XY [symmetric] using step_of_nonneg [of R] by simp
  then have gX: "g \<le> nat \<lfloor>X\<rfloor>" unfolding g_def by (intro nat_mono floor_mono)
  have "g + 1 < length (pcm_of R) div 2" using lasts_one [OF Suc.prems] by (simp add: g_def Y_def)
  then have gl: "g * 2 \<le> length (pcm_of R)" by linarith
  have "nat \<lfloor>X\<rfloor> + 1 < length (pcm_of R) div 2" using Suc.prems by (simp only: lasts_def X_def)
  then have len: "nat \<lfloor>X\<rfloor> - g + 1 < length (pcm_of R1) div 2" using gX unfolding r(5) by (rule half_drop)
  have p: "rs_inputRate R \<noteq> kRaopRate" "of_nat n * step_of R + 3 \<le> of_nat kInBufMaxFrames"
    using Suc.prems [unfolded lasts_def] by (blast+)
  have "lasts n k R1"
    unfolding lasts_def using p [folded st r(4)] r(2,3) g(2) [folded r(6)] len [folded f, folded ph, folded st] by (intro conjI)
  from Suc.IH [OF this, unfolded st, unfolded ph, unfolded f] obtain R' gone where
      "fills n k R1 = Some (resampled (pcm_of R1) (rs_srcPhase R1) (step_of R) (k * n), R') \<and> gone = nat \<lfloor>X\<rfloor> - g
       \<and> resampler_ok R' \<and> rs_ring R' \<noteq> None \<and> pcm_of R' = drop (gone * 2) (pcm_of R1)
       \<and> rs_srcPhase R' = X - of_nat g - of_nat gone"
    by (elim exE)
  then have i: "fills n k R1 = Some (resampled (pcm_of R1) (rs_srcPhase R1) (step_of R) (k * n), R')"
      "resampler_ok R'" "rs_ring R' \<noteq> None" "pcm_of R' = drop ((nat \<lfloor>X\<rfloor> - g) * 2) (pcm_of R1)"
      "rs_srcPhase R' = X - of_nat g - of_nat (nat \<lfloor>X\<rfloor> - g)"
    by simp_all
  have "resampled (pcm_of R1) (rs_srcPhase R1) (step_of R) (k * n) = resampled (pcm_of R) Y (step_of R) (k * n)"
    unfolding r(5,6) by (rule resampled_drop [OF step_of_nonneg g(1) gl])
  then have "fills n (Suc k) R = Some (resampled (pcm_of R) (rs_srcPhase R) (step_of R) (Suc k * n), R')"
    using r(1) i(1) by (simp add: resampled_add Y_def)
  moreover have "pcm_of R' = drop (nat \<lfloor>X\<rfloor> * 2) (pcm_of R)" using gX by (simp add: i(4) r(5) flip: distrib_right)
  moreover have "rs_srcPhase R' = X - of_nat (nat \<lfloor>X\<rfloor>)" using gX by (simp add: i(5) of_nat_diff)
  ultimately show ?case using i(2,3) unfolding X_def by blast
qed

section \<open>Pass-through\<close>

lemma passed_on:
  fixes c :: "16 word list" and m n :: nat
  defines "u \<equiv> 2 * min (length c div 2) n" and "v \<equiv> 2 * min (length c div 2) (n + m)"
  assumes "w = 2 * min (length (drop u c) div 2) m"
  shows "(take u c @ replicate (2 * n - u) 0) @ (take w (drop u c) @ replicate (2 * m - w) 0)
      = take v c @ replicate (2 * (n + m) - v) 0 \<and> drop w (drop u c) = drop v c"
proof (cases "n \<le> length c div 2")
  case True
  then have u: "u = 2 * n" by (simp add: u_def)
  have "(length c - 2 * n) div 2 = length c div 2 - n" by presburger
  then have w: "w = 2 * min (length c div 2 - n) m" using assms(3) u by simp
  have "min (length c div 2) (n + m) = n + min (length c div 2 - n) m" using True by simp
  then have v: "v = u + w" by (simp add: v_def u w)
  have "2 * (n + m) - v = 2 * m - w" by (simp add: v u)
  then show ?thesis unfolding v u take_add by (simp add: add.commute)
next
  case False
  then have u: "u = 2 * (length c div 2)" "v = u" by (simp_all add: u_def v_def)
  have "length (drop u c) div 2 = 0" using u(1) by simp
  then have w: "w = 0" using assms(3) by simp
  have "(2 * n - u) + 2 * m = 2 * (n + m) - u" using False u(1) by simp
  then show ?thesis unfolding u(2) w by (simp add: replicate_add [symmetric])
qed

lemma fills_pass:
  "ring_inv ring \<Longrightarrow> rs_ring R = Some ring \<Longrightarrow> rs_inputRate R = kRaopRate \<Longrightarrow> c = ring_contents ring \<Longrightarrow>
   u = 2 * min (length c div 2) (k * n) \<Longrightarrow>
   \<exists>ring'. fills n k R = Some (take u c @ replicate (2 * (k * n) - u) 0, R\<lparr>rs_ring := Some ring'\<rparr>)
     \<and> ring_contents ring' = drop u c"
proof (induction k arbitrary: R ring c u)
  case 0
  have "R = R\<lparr>rs_ring := Some ring\<rparr>" using 0 by (cases R) simp
  with 0 show ?case by (intro exI [of _ ring]) simp
next
  case (Suc k)
  define u1 where "u1 = 2 * min (length c div 2) n"
  obtain ring1 where f: "fillFrames R n = Some (take u1 c @ replicate (2 * n - u1) 0, R\<lparr>rs_ring := Some ring1\<rparr>)"
      "ring_inv ring1" "ring_contents ring1 = drop u1 c"
    using fillFrames_pass [OF Suc.prems(2,1,3), of n] Suc.prems(4) by (auto simp: Let_def u1_def mult.commute)
  define w where "w = 2 * min (length (drop u1 c) div 2) (k * n)"
  obtain ring' where i: "fills n k (R\<lparr>rs_ring := Some ring1\<rparr>)
        = Some (take w (drop u1 c) @ replicate (2 * (k * n) - w) 0, R\<lparr>rs_ring := Some ring'\<rparr>)"
      "ring_contents ring' = drop w (drop u1 c)"
    using Suc.IH [OF f(2) _ _ f(3) [symmetric] w_def, of "R\<lparr>rs_ring := Some ring1\<rparr>"] Suc.prems(3) by auto
  note p = passed_on [OF w_def [unfolded u1_def], folded u1_def]
  have u: "u = 2 * min (length c div 2) (n + k * n)" using Suc.prems(5) by simp
  show ?case
    using f(1) i p unfolding u by (intro exI [of _ ring']) simp
qed

end
