(* ===== verification/Sender_Audio.thy ===== *)
theory Sender_Audio
  imports Sender_Watchdog
begin

text \<open>
  The audio stream of a whole session, whatever calls are interleaved with the pacer's ticks:
  its packets bear consecutive sequence numbers, and when they are encrypted the nonces 0, 1, 2
  and so on under one key. The replies on the event channel are counted in the same way. Most
  handlers do not touch what the two are made of; that part of the state is the \<open>view\<close>, and the
  invariant is one of the view.
\<close>

section \<open>The view\<close>

text \<open>The audio packets sent since \<open>start\<close> bound the sockets.\<close>

fun audio_step :: "action \<Rightarrow> string list \<Rightarrow> string list" where
  "audio_step (UdpBind UdpTiming) pkts = []"
| "audio_step (UdpSend UdpAudio ep d) pkts = pkts @ [d]"
| "audio_step e pkts = pkts"

definition session_audio :: "action list \<Rightarrow> string list" where
  "session_audio acts = fold audio_step acts []"

lemma session_audio_simps [simp]:
  "session_audio [] = []" "session_audio (xs @ es) = fold audio_step es (session_audio xs)"
  by (simp_all add: session_audio_def)

text \<open>The replies sent on the event channel since then, with the counter of the next.\<close>

fun event_step :: "action \<Rightarrow> string list \<Rightarrow> string list" where
  "event_step (UdpBind UdpTiming) sent = []"
| "event_step (TcpSend TcpEvent d) sent = sent @ [d]"
| "event_step e sent = sent"

definition session_replies :: "action list \<Rightarrow> string list" where
  "session_replies acts = fold event_step acts []"

lemma session_replies_simps [simp]:
  "session_replies [] = []" "session_replies (xs @ es) = fold event_step es (session_replies xs)"
  by (simp_all add: session_replies_def)

definition audio_key :: "RaopAp2State option \<Rightarrow> (bytes \<times> 64 word) option" where
  "audio_key ap = (case ap of None \<Rightarrow> None | Some a \<Rightarrow> if a_encryptAudio a then Some (a_audioKey a, a_audioNonce a) else None)"

type_synonym view = "session_state \<times> (bool \<times> bool) \<times> (bytes \<times> 64 word) option \<times> 16 word \<times> string list \<times> 64 word \<times> string list"

definition view :: "sender \<Rightarrow> view" where
  "view s = (s_state s, (t_active (s_pacer s), t_repeating (s_pacer s)), audio_key (s_ap2 s), s_seq s, session_audio (s_out s),
     s_eventSendCtr s, session_replies (s_out s))"

text \<open>Packet \<open>i\<close>: its header, and its payload, sealed with the nonce \<open>i\<close> when there is a key.\<close>

definition audio_packet :: "crypto \<Rightarrow> bytes option \<Rightarrow> 16 word \<Rightarrow> nat \<Rightarrow> string \<Rightarrow> bool" where
  "audio_packet C key sq i pkt \<longleftrightarrow>
     (\<exists>m ts ssrc payload. let h = rtp_header m (sq + of_nat i) ts ssrc
        in case key of
             None \<Rightarrow> pkt = h @ payload
           | Some k \<Rightarrow> \<exists>ct. chacha20Poly1305Encrypt C k (counterNonce8 (of_nat i)) (toBytes payload) (toBytes (take 8 (drop 4 h))) = Inr ct
               \<and> pkt = h @ toStr ct @ toStr (counterNonce8 (of_nat i)))"

definition numbered :: "crypto \<Rightarrow> (bytes \<times> 64 word) option \<Rightarrow> 16 word \<Rightarrow> string list \<Rightarrow> bool" where
  "numbered C key sq pkts \<longleftrightarrow>
     (\<forall>k n. key = Some (k, n) \<longrightarrow> n = of_nat (length pkts))
     \<and> (\<forall>i < length pkts. audio_packet C (map_option fst key) (sq - of_nat (length pkts)) i (pkts ! i))"

text \<open>Reply \<open>i\<close> is sealed with the nonce \<open>i\<close>.\<close>

definition replied :: "crypto \<Rightarrow> 64 word \<Rightarrow> string list \<Rightarrow> bool" where
  "replied C n sent \<longleftrightarrow> n = of_nat (length sent)
     \<and> (\<forall>i < length sent. \<exists>key cseq. seal_frame C key (of_nat i) (event_response cseq) = Inr (sent ! i))"

definition live :: "session_state \<Rightarrow> bool" where
  "live st \<longleftrightarrow> st \<noteq> Idle \<and> st \<noteq> Streaming"

fun aired :: "crypto \<Rightarrow> view \<Rightarrow> bool" where
  "aired C (st, pacing, key, sq, pkts, n, sent) \<longleftrightarrow>
     replied C n sent \<and> numbered C key sq pkts \<and> (live st \<longrightarrow> pkts = []) \<and> pacing = (st = Streaming, True)"

lemma view_fields [simp]:
  "view (s_now_update f0 s) = view s" "view (s_wall_update f1 s) = view s"
  "view (s_draws_update f2 s) = view s" "view (s_identity_update f3 s) = view s"
  "view (s_strictAuth_update f4 s) = view s" "view (s_rtspConnected_update f5 s) = view s"
  "view (s_udpBound_update f6 s) = view s" "view (s_localIp_update f7 s) = view s"
  "view (s_hostIp_update f8 s) = view s" "view (s_localControlPort_update f9 s) = view s"
  "view (s_localTimingPort_update f10 s) = view s" "view (s_rxBuf_update f11 s) = view s"
  "view (s_controlEncrypted_update f12 s) = view s" "view (s_ctrlSendCtr_update f13 s) = view s"
  "view (s_ctrlRecvCtr_update f14 s) = view s" "view (s_rtspEncBuf_update f15 s) = view s"
  "view (s_eventRecvCtr_update f17 s) = view s"
  "view (s_eventEncBuf_update f18 s) = view s" "view (s_eventPlainBuf_update f19 s) = view s"
  "view (s_pendingMethods_update f20 s) = view s" "view (s_pendingIsHttp_update f21 s) = view s"
  "view (s_cseq_update f22 s) = view s" "view (s_sessionId_update f23 s) = view s"
  "view (s_dacpId_update f24 s) = view s" "view (s_activeRemote_update f25 s) = view s"
  "view (s_rtspSession_update f26 s) = view s" "view (s_host_update f27 s) = view s"
  "view (s_name_update f28 s) = view s" "view (s_serverPort_update f29 s) = view s"
  "view (s_controlPort_update f30 s) = view s" "view (s_timingPort_update f31 s) = view s"
  "view (s_syncTimer_update f32 s) = view s" "view (s_timeout_update f33 s) = view s"
  "view (s_pinTimeout_update f34 s) = view s" "view (s_feedbackTimer_update f35 s) = view s"
  "view (s_clockStart_update f36 s) = view s" "view (s_startTs_update f37 s) = view s"
  "view (s_framesSent_update f38 s) = view s" "view (s_firstAudio_update f39 s) = view s"
  "view (s_pendingVolumeDb_update f40 s) = view s" "view (s_rs_update f41 s) = view s"
  "view (s_backlog_update f42 s) = view s" "view (s_backlogSeq_update f43 s) = view s"
  "view (s_npTitle_update f44 s) = view s" "view (s_npArtist_update f45 s) = view s"
  "view (s_npAlbum_update f46 s) = view s" "view (s_npCover_update f47 s) = view s"
  "view (s_npCoverMime_update f48 s) = view s" "view (s_authMethod_update f49 s) = view s"
  "view (s_airplay2_update f50 s) = view s" "view (s_deviceId_update f51 s) = view s"
  "view (s_credsJson_update f52 s) = view s" "view (s_digestPassword_update f53 s) = view s"
  "view (s_waitingForPin_update f54 s) = view s" "view (s_triedTransientAfterPin403_update f55 s) = view s"
  "view (s_srpSalt_update f56 s) = view s" "view (s_srpServerB_update f57 s) = view s"
  "view (s_pairSetupSessionKey_update f58 s) = view s" "view (s_digestRealm_update f59 s) = view s"
  "view (s_digestNonce_update f60 s) = view s" "view (s_pendingDigestMethod_update f61 s) = view s"
  "view (s_pendingDigestUri_update f62 s) = view s" "view (s_digestRetried_update f63 s) = view s"
  "view (s_pairStage_update f64 s) = view s"
  by (simp_all add: view_def)

lemma view_emit [simp]:
  "audio_step e (session_audio (s_out s)) = session_audio (s_out s) \<Longrightarrow>
   event_step e (session_replies (s_out s)) = session_replies (s_out s) \<Longrightarrow> view (emit e s) = view s"
  by (simp add: view_def emit_def)

lemma view_arm [simp]:
  "view (arm s_timeout_update t) = view t" "view (arm s_pinTimeout_update t) = view t"
  "view (arm s_feedbackTimer_update t) = view t" "view (arm s_syncTimer_update t) = view t"
  "view (disarm s_timeout_update t) = view t" "view (disarm s_pinTimeout_update t) = view t"
  "view (disarm s_feedbackTimer_update t) = view t" "view (disarm s_syncTimer_update t) = view t"
  by (simp_all add: arm_def disarm_def)

section \<open>What leaves the view alone\<close>

abbreviation seen :: "view \<Rightarrow> sender \<Rightarrow> bool" where
  "seen v s \<equiv> view s = v"

lemma pok_seen: "pok (seen (view s)) r \<Longrightarrow> aired C (view s) \<Longrightarrow> pok (\<lambda>t. aired C (view t)) r"
  by (cases r) auto

lemma writeRtsp_seen: "view s = v \<Longrightarrow> pok (seen v) (writeRtsp C data s)"
  by (auto simp: writeRtsp_def io_def Let_def split: option.split sum.split)

lemma queue_seen [simp]: "view (queue_method m b s) = view s"
  by (simp add: queue_method_def)

lemma requests_seen:
  "view s = v \<Longrightarrow> pok (seen v) (sendRequest C m u ct body extra s)"
  "view s = v \<Longrightarrow> pok (seen v) (httpPost C u ct body s)"
  "view s = v \<Longrightarrow> pok (seen v) (sendAp2Rtsp C m u ct body s)"
  "view s = v \<Longrightarrow> pok (seen v) (post_tlv C u tm s)"
  unfolding sendRequest_def httpPost_def sendAp2Rtsp_def post_tlv_def Let_def
  by (rule pok_run; simp add: upd_def writeRtsp_seen)+

lemma draw_seen [simp]: "view (snd (draw C n s)) = view s"
  by (simp add: draw_def)

lemma sendSyncPacket_seen [simp]: "view (sendSyncPacket first s) = view s"
  by (simp add: sendSyncPacket_def Let_def)

lemma sendVolume_seen: "view s = v \<Longrightarrow> pok (seen v) (sendVolume C s)"
  by (simp add: sendVolume_def requests_seen)

lemma sendMetadata_seen: "view s = v \<Longrightarrow> pok (seen v) (sendMetadata C s)"
  unfolding sendMetadata_def Let_def by (auto intro!: pok_run simp: requests_seen)

lemma classic_seen:
  "view s = v \<Longrightarrow> pok (seen v) (sendOptions C s)" "view s = v \<Longrightarrow> pok (seen v) (sendAnnounce C s)"
  "view s = v \<Longrightarrow> pok (seen v) (sendSetup C s)" "view s = v \<Longrightarrow> pok (seen v) (sendRecord C s)"
  by (simp_all add: sendOptions_def sendAnnounce_def sendSetup_def sendRecord_def requests_seen)

lemma setup_seen:
  "view s = v \<Longrightarrow> pok (seen v) (sendAp2Info C s)" "view s = v \<Longrightarrow> pok (seen v) (sendAp2SetupSession C s)"
  "view s = v \<Longrightarrow> pok (seen v) (sendAp2Record C s)"
  by (simp_all add: sendAp2Info_def sendAp2SetupSession_def sendAp2Record_def on_ap2_def requests_seen split: option.split)

lemma releaseSockets_seen [simp]: "view (releaseSockets s) = view s"
  by (simp add: releaseSockets_def Let_def)

lemma clear_backlog_seen [simp]: "view (clear_backlog s) = view s"
  by (simp add: clear_backlog_def)

lemma setters_seen [simp]:
  "view (setInputFormat r s) = view s" "view (attachRing ring s) = view s" "view (setAuth m ap2 d cj p s) = view s"
  "view (setIdentity i s) = view s" "view (setStrictReceiverAuth b s) = view s"
  by (simp_all add: setInputFormat_def attachRing_def setAuth_def setIdentity_def setStrictReceiverAuth_def)

lemma transport_opts_seen [simp]: "view (fold transport_opt xs s) = view s"
proof (induction xs arbitrary: s)
  case (Cons x xs)
  have "view (transport_opt x s) = view s" by (simp add: transport_opt_def Let_def split: option.split)
  with Cons show ?case by simp
qed simp

lemma onUdpDatagram_seen [simp]: "view (onUdpDatagram u bytes from s) = view s"
proof -
  have "view (fold (\<lambda>i. retransmit_one from (f i)) ns s) = view s" for f :: "nat \<Rightarrow> 16 word" and ns s
    by (induction ns arbitrary: s) (simp_all add: retransmit_one_def Let_def)
  then show ?thesis
    by (simp add: onUdpDatagram_def onControlDatagram_def onTimingDatagram_def Let_def split: RaopUdp.split)
qed

lemma onFeedbackTimer_seen: "view s = v \<Longrightarrow> pok (seen v) (onFeedbackTimer C s)"
  by (auto simp: onFeedbackTimer_def Let_def upd_def requests_seen writeRtsp_seen intro!: pok_run)

section \<open>What changes it\<close>

abbreviation on_air :: "crypto \<Rightarrow> sender \<Rightarrow> bool" where
  "on_air C s \<equiv> aired C (view s)"

lemma air_of_seen: "(\<And>v. view s = v \<Longrightarrow> pok (seen v) r) \<Longrightarrow> on_air C s \<Longrightarrow> pok (on_air C) r"
  using pok_seen by blast

lemma numbered_Nil [simp]: "numbered C key sq [] \<longleftrightarrow> (\<forall>k n. key = Some (k, n) \<longrightarrow> n = 0)"
  by (auto simp: numbered_def)

lemma view_ap2: "audio_key ap = audio_key (s_ap2 s) \<Longrightarrow> view (s\<lparr>s_ap2 := ap\<rparr>) = view s"
  by (simp add: view_def)

text \<open>The fields of the AirPlay 2 state that are not about audio.\<close>

lemma audio_key_fields [simp]:
  "audio_key (Some (a\<lparr>a_srp := x1\<rparr>)) = audio_key (Some a)" "audio_key (Some (a\<lparr>a_ltSeed := x2\<rparr>)) = audio_key (Some a)"
  "audio_key (Some (a\<lparr>a_ltPub := x3\<rparr>)) = audio_key (Some a)" "audio_key (Some (a\<lparr>a_pairingId := x4\<rparr>)) = audio_key (Some a)"
  "audio_key (Some (a\<lparr>a_accessoryId := x5, a_accessoryLtpk := x6\<rparr>)) = audio_key (Some a)"
  "audio_key (Some (a\<lparr>a_verifyKeys := x7\<rparr>)) = audio_key (Some a)" "audio_key (Some (a\<lparr>a_sharedSecret := x8\<rparr>)) = audio_key (Some a)"
  "audio_key (Some (a\<lparr>a_eventPort := x9\<rparr>)) = audio_key (Some a)" "audio_key (Some (control_keys C a)) = audio_key (Some a)"
  "audio_key (Some (event_keys C a)) = audio_key (Some a)" "audio_key (Some (load_creds c a)) = audio_key (Some a)"
  "audio_key (Some (clear_identity a)) = audio_key (Some a)"
  by (simp_all add: audio_key_def control_keys_def event_keys_def load_creds_def clear_identity_def)

lemma fail_air: "on_air C s \<Longrightarrow> on_air C (fail why s)"
  by (simp add: fail_def Let_def stopTimers_def disarm_def)
    (simp add: view_def releaseSockets_def emit_def live_def Let_def)

lemma live_air: "on_air C s \<Longrightarrow> live (s_state s) \<Longrightarrow> live st \<Longrightarrow> on_air C (s\<lparr>s_state := st\<rparr>)"
  by (auto simp: view_def live_def)

lemma rekey_air:
  "on_air C s \<Longrightarrow> live (s_state s) \<Longrightarrow> (\<And>k n. audio_key ap = Some (k, n) \<Longrightarrow> n = 0) \<Longrightarrow> on_air C (s\<lparr>s_ap2 := ap\<rparr>)"
  by (auto simp: view_def)

lemma of_seen: "(\<And>v. view s = v \<Longrightarrow> pok (seen v) r) \<Longrightarrow> Q (view s) \<Longrightarrow> pok (\<lambda>t. Q (view t)) r"
  by (cases r) auto

text \<open>A state in which packets may be sent; the pacer runs when \<open>act\<close>.\<close>

definition sending :: "crypto \<Rightarrow> bool \<Rightarrow> view \<Rightarrow> bool" where
  "sending C act v \<longleftrightarrow> (\<exists>b key sq pkts n sent. v = (Streaming, (b, True), key, sq, pkts, n, sent)
     \<and> (act \<longrightarrow> b) \<and> numbered C key sq pkts \<and> replied C n sent)"

lemma sending_on_air: "sending C True (view s) \<Longrightarrow> on_air C s"
  by (auto simp: sending_def live_def)

lemma on_air_sending: "on_air C s \<Longrightarrow> s_state s = Streaming \<Longrightarrow> sending C True (view s)"
  by (auto simp: sending_def view_def)

lemma sending_arm: "sending C b (view s) \<Longrightarrow> sending C True (view (arm s_pacer_update s))"
  by (auto simp: sending_def arm_def view_def)

lemma sending_quiet:
  "sending C b (view s) \<Longrightarrow> pok (\<lambda>t. sending C b (view t)) (sendVolume C s)"
  "sending C b (view s) \<Longrightarrow> pok (\<lambda>t. sending C b (view t)) (sendMetadata C s)"
  "sending C b (view s) \<Longrightarrow> pok (\<lambda>t. sending C b (view t)) (sendRequest C m u ct body extra s)"
  by (rule of_seen; simp add: sendVolume_seen sendMetadata_seen requests_seen)+

lemma pok_run_append: "pok P (run fs s) \<Longrightarrow> (\<And>t. P t \<Longrightarrow> pok Q (run gs t)) \<Longrightarrow> pok Q (run (fs @ gs) s)"
proof (induction fs arbitrary: s)
  case (Cons f fs)
  then show ?case by (cases "f s") (simp_all add: run.simps)
qed (simp add: run.simps)

lemma startStreaming_sending:
  assumes "on_air C s"
  shows "pok (\<lambda>t. sending C True (view t)) (startStreaming C s)"
proof -
  have s: "sending C False (view (disarm s_timeout_update (s\<lparr>s_state := Streaming\<rparr>)))"
    using assms by (auto simp: disarm_def sending_def view_def)
  note split = pok_run_append [where fs = "[a1, a2, a3, a4, a5, a6]" and P = "\<lambda>t. sending C False (view t)"
    for a1 a2 a3 a4 a5 a6, unfolded append.simps]
  show ?thesis
    unfolding startStreaming_def
    by (rule split; subst run_simps(3); intro pok_run) (use s in \<open>simp_all add: upd_def io_def sending_arm sending_quiet\<close>)
qed

lemma counter_of_nat: "(of_nat (Suc n) :: 'a::len word) = of_nat n + 1"
  by simp

lemma numbered_snoc:
  assumes "numbered C key sq pkts" and "audio_packet C (map_option fst key) (sq - of_nat (length pkts)) (length pkts) pkt"
    and "key' = map_option (\<lambda>(k, n). (k, n + 1)) key"
  shows "numbered C key' (sq + 1) (pkts @ [pkt])"
  using assms by (auto simp: numbered_def nth_append less_Suc_eq option.map_comp comp_def split_beta)

lemma audio_packetI:
  "h = rtp_header m (sq + of_nat i) ts ssrc \<Longrightarrow> audio_packet C None sq i (h @ p)"
  "h = rtp_header m (sq + of_nat i) ts ssrc \<Longrightarrow>
   chacha20Poly1305Encrypt C k (counterNonce8 (of_nat i)) (toBytes p) (toBytes (take 8 (drop 4 h))) = Inr ct \<Longrightarrow>
   audio_packet C (Some k) sq i (h @ toStr ct @ toStr (counterNonce8 (of_nat i)))"
  unfolding audio_packet_def Let_def by (simp, blast)+

lemma sendAudioPacket_air:
  assumes "sending C True (view s)"
  shows "pok (\<lambda>t. sending C True (view t)) (sendAudioPacket C s)"
proof (cases "sendAudioPacket C s")
  case (Inr t)
  obtain frames rs where f: "fillFrames (s_rs s) kFramesPerPacket = Some (frames, rs)"
    using Inr by (auto simp: sendAudioPacket_def split: option.splits)
  define h where "h = rtp_header (s_firstAudio s) (s_seq s) (s_rtptime32 s) (s_sessionId s)"
  define p where "p = (if audio_encrypted s then encodeAlacFrame frames else l16_payload frames)"
  obtain w s1 where e: "encryptAudioPayload C h p (s\<lparr>s_rs := rs\<rparr>) = Inr (w, s1)"
    and t: "view t = view (emit (UdpSend UdpAudio \<lparr>ep_ip = s_hostIp s1, ep_port = s_serverPort s1\<rparr> (h @ w)) s1
      \<lparr>s_seq := s_seq s1 + 1\<rparr>)"
    using Inr f
    by (auto simp: sendAudioPacket_def h_def p_def Let_def audio_encrypted_def s_rtptime32_def view_def split: sum.splits prod.splits)
  obtain pc k q ps n es where v: "view s = (Streaming, pc, k, q, ps, n, es)" using assms by (cases "view s") (auto simp: sending_def)
  have n: "numbered C k q ps" using assms v by (auto simp: sending_def)
  have k: "k = audio_key (s_ap2 s)" and q: "q = s_seq s" using v by (simp_all add: view_def)
  let ?k = "map_option (\<lambda>(k, n). (k, n + 1)) k"
  have s1: "view s1 = (Streaming, pc, ?k, q, ps, n, es)" and pkt: "audio_packet C (map_option fst k) (q - of_nat (length ps)) (length ps) (h @ w)"
  proof (atomize (full), cases "s_ap2 s")
    case None
    then show "view s1 = (Streaming, pc, ?k, q, ps, n, es) \<and> audio_packet C (map_option fst k) (q - of_nat (length ps)) (length ps) (h @ w)"
      using e v k by (auto simp: encryptAudioPayload_def audio_key_def audio_packet_def h_def q Let_def)
  next
    case (Some a)
    show "view s1 = (Streaming, pc, ?k, q, ps, n, es) \<and> audio_packet C (map_option fst k) (q - of_nat (length ps)) (length ps) (h @ w)"
    proof (cases "a_encryptAudio a")
      case False
      then show ?thesis
        using e v k Some by (auto simp: encryptAudioPayload_def audio_key_def h_def q Let_def intro!: audio_packetI)
    next
      case True
      then have kn: "k = Some (a_audioKey a, a_audioNonce a)" "a_audioNonce a = of_nat (length ps)"
        using k Some n by (auto simp: audio_key_def numbered_def)
      then obtain ct where ct: "chacha20Poly1305Encrypt C (a_audioKey a) (counterNonce8 (of_nat (length ps))) (toBytes p)
            (toBytes (take 8 (drop 4 h))) = Inr ct"
        and w: "w = toStr ct @ toStr (counterNonce8 (of_nat (length ps)))"
        and s1: "s1 = s\<lparr>s_rs := rs, s_ap2 := Some (a\<lparr>a_audioNonce := a_audioNonce a + 1\<rparr>)\<rparr>"
        using e Some True by (auto simp: encryptAudioPayload_def Let_def split: sum.splits)
      have "audio_packet C (map_option fst k) (q - of_nat (length ps)) (length ps) (h @ w)"
        unfolding w kn(1) option.map fst_conv by (rule audio_packetI(2) [OF _ ct]) (simp add: h_def q)
      moreover have "view s1 = (Streaming, pc, ?k, q, ps, n, es)"
        using v True unfolding s1 by (simp add: kn(1) view_def audio_key_def)
      ultimately show ?thesis by simp
    qed
  qed
  have "numbered C ?k (q + 1) (ps @ [h @ w])" using numbered_snoc [OF n pkt] by simp
  with Inr t s1 assms v show ?thesis by (auto simp: sending_def view_def emit_def)
qed simp

lemma pacer_loop_sending: "sending C True (view s) \<Longrightarrow> pok (\<lambda>t. sending C True (view t)) (pacer_loop C target k s)"
  by (induction k arbitrary: s) (auto intro!: pok_case intro: sendAudioPacket_air)

section \<open>The event channel\<close>

lemma replied_Nil [simp]: "replied C n [] \<longleftrightarrow> n = 0"
  by (auto simp: replied_def)

lemma replied_snoc:
  "replied C n sent \<Longrightarrow> seal_frame C key n (event_response cseq) = Inr d \<Longrightarrow> replied C (n + 1) (sent @ [d])"
  by (auto simp: replied_def nth_append less_Suc_eq)

lemma event_loop_air: "on_air C s \<Longrightarrow> pok (on_air C) (event_loop C a fuel s)"
proof (induction fuel arbitrary: s)
  case (Suc fuel)
  have "on_air C (emit (TcpSend TcpEvent out) (s\<lparr>s_eventPlainBuf := rest, s_eventSendCtr := s_eventSendCtr s + 1\<rparr>))"
    if "seal_frame C (a_eventOut a) (s_eventSendCtr s) (event_response cseq) = Inr out" for cseq rest out
    using Suc.prems replied_snoc [OF _ that] by (simp add: view_def emit_def)
  with Suc show ?case by (auto simp: event_loop.simps split: option.split prod.split sum.split)
qed (simp add: event_loop.simps)

lemma onEventReadyRead_air: "on_air C s \<Longrightarrow> pok (on_air C) (onEventReadyRead C bytes s)"
  by (auto simp: onEventReadyRead_def Let_def event_loop_air split: option.split prod.split)

section \<open>Authentication and set-up\<close>

text \<open>Before the stream: nothing has been sent in this session.\<close>

definition tuning :: "crypto \<Rightarrow> view \<Rightarrow> bool" where
  "tuning C v \<longleftrightarrow> aired C v \<and> live (fst v)"

lemma tuning_on_air: "tuning C (view s) \<Longrightarrow> on_air C s"
  by (simp add: tuning_def)

lemma tuning_ap2:
  "tuning C (view s) \<Longrightarrow> (\<And>k n. audio_key ap = Some (k, n) \<Longrightarrow> n = 0) \<Longrightarrow> tuning C (view (s\<lparr>s_ap2 := ap\<rparr>))"
  using rekey_air [of C s ap] by (simp add: tuning_def) (simp add: view_def)

lemma tuning_state: "tuning C (view s) \<Longrightarrow> live st \<Longrightarrow> tuning C (view (s\<lparr>s_state := st\<rparr>))"
  using live_air [of C s st] by (simp add: tuning_def) (simp add: view_def)

lemma renew_ap2_tuning: "tuning C (view s) \<Longrightarrow> tuning C (view (renew_ap2 D s))"
proof -
  assume t: "tuning C (view s)"
  have "audio_key (Some (fresh_ap2\<lparr>a_sessionUuid := u\<rparr>)) = None" for u by (simp add: audio_key_def fresh_ap2_def)
  with t show ?thesis by (auto simp: renew_ap2_def draw_uuid_def draw_def Let_def intro!: tuning_ap2)
qed

lemma pair_requests_seen:
  "view s = v \<Longrightarrow> pok (seen v) (sendAuthSetup C s)" "view s = v \<Longrightarrow> pok (seen v) (sendPairPinStart C s)"
  "view s = v \<Longrightarrow> pok (seen v) (sendPairSetupM1 C s)" "view s = v \<Longrightarrow> pok (seen v) (sendPairVerifyM1 C s)"
  by (auto simp: sendAuthSetup_def sendPairPinStart_def sendPairSetupM1_def sendPairVerifyM1_def on_ap2_def
      draw_def Let_def view_ap2 intro!: requests_seen split: option.split)

lemma sendPairSetupM5_seen: "view s = v \<Longrightarrow> pok (seen v) (sendPairSetupM5 C s)"
  unfolding sendPairSetupM5_def on_ap2_def Let_def
  by (auto simp: view_ap2 draw_def case_prod_beta intro!: requests_seen pok_any split: option.split)

lemma sendPairVerifyM3_seen: "view s = v \<Longrightarrow> s_ap2 s = Some b \<Longrightarrow> audio_key (Some a) = audio_key (Some b) \<Longrightarrow> pok (seen v) (sendPairVerifyM3 C k p a s)"
  by (auto simp: sendPairVerifyM3_def Let_def view_ap2 intro!: requests_seen pok_any)

lemmas air_of = of_seen [where Q = "aired C" for C]

lemma requests_air:
  "on_air C s \<Longrightarrow> pok (on_air C) (sendRequest C m u ct body extra s)" "on_air C s \<Longrightarrow> pok (on_air C) (httpPost C u ct body s)"
  "on_air C s \<Longrightarrow> pok (on_air C) (sendAp2Rtsp C m u ct body s)" "on_air C s \<Longrightarrow> pok (on_air C) (post_tlv C u tm s)"
  "on_air C s \<Longrightarrow> pok (on_air C) (sendVolume C s)" "on_air C s \<Longrightarrow> pok (on_air C) (sendMetadata C s)"
  "on_air C s \<Longrightarrow> pok (on_air C) (sendOptions C s)" "on_air C s \<Longrightarrow> pok (on_air C) (sendAnnounce C s)"
  "on_air C s \<Longrightarrow> pok (on_air C) (sendSetup C s)" "on_air C s \<Longrightarrow> pok (on_air C) (sendRecord C s)"
  "on_air C s \<Longrightarrow> pok (on_air C) (sendAp2Info C s)" "on_air C s \<Longrightarrow> pok (on_air C) (sendAp2SetupSession C s)"
  "on_air C s \<Longrightarrow> pok (on_air C) (sendAp2Record C s)" "on_air C s \<Longrightarrow> pok (on_air C) (sendAuthSetup C s)"
  "on_air C s \<Longrightarrow> pok (on_air C) (sendPairPinStart C s)" "on_air C s \<Longrightarrow> pok (on_air C) (sendPairSetupM1 C s)"
  "on_air C s \<Longrightarrow> pok (on_air C) (sendPairVerifyM1 C s)" "on_air C s \<Longrightarrow> pok (on_air C) (sendPairSetupM5 C s)"
  "on_air C s \<Longrightarrow> pok (on_air C) (onFeedbackTimer C s)"
  by (rule air_of; simp add: requests_seen sendVolume_seen sendMetadata_seen classic_seen setup_seen pair_requests_seen
      sendPairSetupM5_seen onFeedbackTimer_seen)+

lemma sendPairSetupM3_air: "on_air C s \<Longrightarrow> pok (on_air C) (sendPairSetupM3 C pin s)"
  by (auto simp: sendPairSetupM3_def on_ap2_def draw_def Let_def view_ap2 fail_air intro!: requests_air split: option.split sum.split)

lemma handlePairSetupM2_air: "on_air C s \<Longrightarrow> pok (on_air C) (handlePairSetupM2 C body s)"
  by (auto simp: handlePairSetupM2_def Let_def run_simps io_def fail_air intro!: sendPairSetupM3_air split: option.split)

lemma handlePairSetupM6_air: "on_air C s \<Longrightarrow> pok (on_air C) (handlePairSetupM6 C body s)"
  by (auto simp: handlePairSetupM6_def on_ap2_def Let_def run_simps fail_air view_ap2 intro!: requests_air split: option.split)

lemma handlePairVerifyM2_air: "on_air C s \<Longrightarrow> pok (on_air C) (handlePairVerifyM2 C body s)"
  by (auto simp: handlePairVerifyM2_def on_ap2_def Let_def fail_air view_ap2 intro!: air_of [OF sendPairVerifyM3_seen] split: option.split)

lemma handleAp2SetupSession_air: "on_air C s \<Longrightarrow> pok (on_air C) (handleAp2SetupSession C body s)"
  by (auto simp: handleAp2SetupSession_def on_ap2_def Let_def view_ap2 intro!: requests_air split: option.split)

lemma handleAp2SetupStream_air: "on_air C s \<Longrightarrow> pok (on_air C) (handleAp2SetupStream C body s)"
proof -
  assume a: "on_air C s"
  have "pok (on_air C) (startStreaming C t)" if "view t = view s" for t
    using startStreaming_sending [of C t] a that sending_on_air by (cases "startStreaming C t") auto
  with a show ?thesis by (auto simp: handleAp2SetupStream_def Let_def fail_air split: prod.split)
qed

lemma sendAp2SetupStream_air: "tuning C (view s) \<Longrightarrow> pok (on_air C) (sendAp2SetupStream C s)"
  by (auto simp: sendAp2SetupStream_def on_ap2_def Let_def audio_key_def
      intro!: requests_air tuning_on_air tuning_ap2 split: option.split)

lemma afterAuthOk_air: "tuning C (view s) \<Longrightarrow> pok (on_air C) (afterAuthOk C s)"
proof -
  assume t: "tuning C (view s)"
  have "on_air C (t\<lparr>s_state := Handshake\<rparr>)" if "view t = view s" for t
    using t that tuning_state [of C t Handshake] by (simp add: tuning_on_air live_def)
  then show ?thesis
    by (auto simp: afterAuthOk_def Let_def intro!: requests_air split: option.split)
qed

lemma handlePairSetupM4_air:
  assumes "tuning C (view s)"
  shows "pok (on_air C) (handlePairSetupM4 C body s)"
proof -
  have "pok (on_air C) (afterAuthOk C (s\<lparr>s_ap2 := Some (control_keys C (a\<lparr>a_sharedSecret := k\<rparr>)), s_pairStage := PS_Done\<rparr>))"
    if "s_ap2 s = Some a" for a k
    using assms that by (intro afterAuthOk_air) (simp add: view_ap2)
  with assms show ?thesis
    by (auto simp: handlePairSetupM4_def Let_def on_srp_def on_ap2_def fail_air tuning_on_air intro!: requests_air
        split: option.split sum.split)
qed

section \<open>Dispatch\<close>

lemma beginHapPin_air:
  assumes "tuning C (view s)"
  shows "pok (on_air C) (beginHapPin C s)"
  using renew_ap2_tuning [OF assms, of C, THEN tuning_on_air]
  by (auto simp: beginHapPin_def on_ap2_def Let_def view_ap2 audio_key_def load_creds_def clear_identity_def
      intro!: requests_air pok_any split: option.split)

lemma pairing_refused_air:
  assumes "tuning C (view s)"
  shows "pok (on_air C) (pairing_refused C code s)"
proof -
  have "on_air C (renew_ap2 C t)" if "view t = view s" for t
    using assms that renew_ap2_tuning [of C t C] by (simp add: tuning_on_air)
  with assms show ?thesis by (auto simp: pairing_refused_def fail_air tuning_on_air intro!: requests_air)
qed

lemma onPairingResponse_air:
  assumes "on_air C s"
  shows "pok (on_air C) (onPairingResponse C code body s)"
proof (cases "live (s_state s)")
  case False
  with assms show ?thesis by (auto simp: onPairingResponse_def live_def)
next
  case True
  then have t: "tuning C (view s)" using assms by (simp add: tuning_def) (simp add: view_def)
  have "s_state s \<noteq> Idle" "s_state s \<noteq> Streaming" using True by (simp_all add: live_def)
  then show ?thesis using assms t
    by (cases "s_pairStage s")
      (auto simp: onPairingResponse_def
       intro!: afterAuthOk_air pairing_refused_air requests_air handlePairSetupM2_air handlePairSetupM4_air
         handlePairSetupM6_air handlePairVerifyM2_air sendAp2SetupStream_air handleAp2SetupSession_air handleAp2SetupStream_air)
qed

lemma handleResponse_air: "on_air C s \<Longrightarrow> pok (on_air C) (handleResponse C method code headers s)"
proof -
  assume a: "on_air C s"
  have "pok (on_air C) (startStreaming C s)"
    using startStreaming_sending [OF a] sending_on_air by (cases "startStreaming C s") auto
  with a show ?thesis
    by (simp add: handleResponse_def digest_challenge_def setup_reply_def Let_def fail_air requests_air)
qed

lemma dispatch_air: "on_air C s \<Longrightarrow> pok (on_air C) (dispatch C r s)"
  by (auto simp: dispatch_def Let_def intro!: onPairingResponse_air handleResponse_air split: list.split)

lemma message_loop_air: "on_air C s \<Longrightarrow> pok (on_air C) (message_loop C fuel s)"
proof (induction fuel arbitrary: s)
  case (Suc fuel)
  show ?case
  proof (cases "next_message (s_rxBuf s)")
    case (Some p)
    have "pok (on_air C) (dispatch C (fst p) (s\<lparr>s_rxBuf := snd p\<rparr>))" using Suc.prems by (simp add: dispatch_air)
    with Suc.IH Some show ?thesis
      by (cases "dispatch C (fst p) (s\<lparr>s_rxBuf := snd p\<rparr>)") (auto simp: message_loop.simps case_prod_beta)
  qed (use Suc.prems in \<open>simp add: message_loop.simps\<close>)
qed (simp add: message_loop.simps)

lemma onRtspReadyRead_air: "on_air C s \<Longrightarrow> pok (on_air C) (onRtspReadyRead C bytes s)"
  by (auto simp: onRtspReadyRead_def Let_def fail_air message_loop_air split: option.split prod.split bool.split)

section \<open>The public interface\<close>

lemma submitPin_air: "on_air C s \<Longrightarrow> pok (on_air C) (submitPin C code s)"
  by (simp add: submitPin_def run_simps sendPairSetupM3_air)

text \<open>The pacer is off.\<close>

definition resting :: "crypto \<Rightarrow> view \<Rightarrow> bool" where
  "resting C v \<longleftrightarrow> (\<exists>st key sq pkts n sent. v = (st, (False, True), key, sq, pkts, n, sent)
     \<and> numbered C key sq pkts \<and> (live st \<longrightarrow> pkts = []) \<and> replied C n sent)"

lemma idle_air: "resting C (view s) \<Longrightarrow> on_air C (s\<lparr>s_state := Idle\<rparr>)"
  by (auto simp: view_def resting_def live_def)

lemma stopTimers_air: "on_air C s \<Longrightarrow> resting C (view (stopTimers s))"
  by (simp add: stopTimers_def disarm_def) (auto simp: view_def resting_def)

lemma stop_air: "on_air C s \<Longrightarrow> pok (\<lambda>t. on_air C t \<and> s_state t = Idle) (stop C s)"
proof -
  assume a: "on_air C s"
  have still: "pok (\<lambda>t. resting C (view t)) (sendRequest C m u ct body extra (stopTimers s))" for m u ct body extra
    by (rule of_seen [OF requests_seen(1)]) (use stopTimers_air [OF a] in simp_all)
  have "pok (\<lambda>t. resting C (view t)) (Inr (stopTimers s))" using stopTimers_air [OF a] by simp
  with a show ?thesis
    by (auto simp: stop_unfold idle_air intro!: pok_case [OF still]) 
qed

lemma onTcpClosed_air: "on_air C s \<Longrightarrow> on_air C (onTcpClosed ch reason s)"
proof -
  assume a: "on_air C s"
  have "on_air C (stopTimers (t\<lparr>s_state := Idle\<rparr>))" if "view t = view s" for t
    using a that by (simp add: stopTimers_def disarm_def) (auto simp: view_def live_def)
  with a show ?thesis by (simp add: onTcpClosed_def Let_def fail_air)
qed

lemma start_air:
  assumes "on_air C s"
  shows "pok (on_air C) (start C host port name tp cp ap s)"
proof (cases "stop C s")
  case (Inl e)
  then show ?thesis by (simp add: start_def run.simps)
next
  case (Inr t)
  then have "on_air C t" "s_state t = Idle" using stop_air [OF assms] by simp_all
  then have p: "\<not> t_active (s_pacer t)" "t_repeating (s_pacer t)" by (simp_all add: view_def)
  let ?f = "\<lambda>s. reset_session (fresh_ids C (s\<lparr>s_host := host, s_name := name, s_hostIp := [], s_localIp := []\<rparr>))"
  have r: "s_pacer (?f t) = s_pacer t" "s_ap2 (?f t) = None" "s_state (?f t) = Idle" "s_eventSendCtr (?f t) = 0"
    using \<open>s_state t = Idle\<close>
    by (simp_all add: reset_session_def fresh_ids_def rand32_def rand64_def rand16_def draw_def Let_def)
  define u where "u = emit (UdpBind UdpAudio) (emit (UdpBind UdpControl) (emit (UdpBind UdpTiming) (?f t)))"
  have v: "view u = (Idle, (False, True), None, s_seq (?f t), [], 0, [])"
    using p r by (simp add: u_def view_def emit_def audio_key_def)
  have "view (w\<lparr>s_state := Connecting\<rparr>) = (Connecting, (False, True), None, s_seq (?f t), [], 0, [])" if "view w = view u" for w
    using that v by (simp add: view_def)
  with v Inr show ?thesis
    by (simp add: start_def run.simps(2) [of "stop C"] run_simps u_def [symmetric] live_def)
qed

lemma beginAuthChain_air:
  assumes "on_air C s" and "s_state s = Connecting"
  shows "pok (on_air C) (beginAuthChain C s)"
proof -
  have "tuning C (view s)" using assms by (simp add: tuning_def) (simp add: view_def live_def)
  then have t: "tuning C (view (s\<lparr>s_state := Pairing\<rparr>))" "tuning C (view (s\<lparr>s_state := Handshake\<rparr>))"
    by (simp_all add: tuning_state live_def)
  then show ?thesis
    by (auto simp: beginAuthChain_def Let_def tuning_on_air renew_ap2_tuning fail_air intro!: requests_air beginHapPin_air split: auth.split)
qed

lemma connected_air: "on_air C s \<Longrightarrow> pok (on_air C) (onTcpConnected C ch l p s)"
  by (auto simp: onTcpConnected_def intro!: beginAuthChain_air)

lemma if_due_air:
  assumes "on_air C s" and "\<And>s. on_air C s \<Longrightarrow> pok (on_air C) (handler s)" and "\<And>f s. view (field f s) = view s"
  shows "pok (on_air C) (if_due now get field handler s)"
  using assms by (simp add: if_due_def Let_def)

lemma pacer_due_air:
  assumes "on_air C s"
  shows "pok (on_air C) (if_due now s_pacer s_pacer_update (onPacerTick C) s)"
proof (cases "t_active (s_pacer s)")
  case True
  let ?t = "s_pacer_update (\<lambda>t. if t_repeating t then t\<lparr>t_due := now + t_interval t\<rparr> else t\<lparr>t_active := False\<rparr>) s"
  have "sending C True (view ?t)" using assms True by (auto simp: sending_def view_def live_def)
  then have "pok (on_air C) (pacer_loop C target k ?t)" for target k
    using pacer_loop_sending [of C ?t target k] sending_on_air by (cases "pacer_loop C target k ?t") auto
  with assms show ?thesis by (simp add: if_due_def Let_def onPacerTick_def)
qed (use assms in \<open>simp add: if_due_def\<close>)

lemma tick_air:
  assumes "on_air C s"
  shows "pok (on_air C) (tick C s)"
  unfolding tick_def Let_def
  by (rule pok_run [where P = "on_air C", OF assms])
    (auto simp: upd_def onHandshakeTimeout_def onPinTimeout_def Let_def fail_air intro!: if_due_air pacer_due_air requests_air)

lemma apply_call_air: "on_air C s \<Longrightarrow> pok (on_air C) (apply_call C c s)"
  using stop_air [of C s]
  by (cases "stop C s")
    (auto simp: apply_call_def start_air submitPin_air connected_air onTcpConnectFailed_def fail_air onTcpData_def
      onRtspReadyRead_air onEventReadyRead_air onTcpClosed_air tick_air setVolume_def setNowPlaying_def Let_def requests_air split: call.splits)

lemma reachable_air: "sender_reachable C s \<Longrightarrow> on_air C s"
proof (induction rule: sender_reachable.induct)
  case (new now wall)
  show ?case by (simp add: new_sender_def view_def audio_key_def live_def new_timer_def)
next
  case (step s c s')
  then show ?case using apply_call_air [of C s c] by simp
qed

text \<open>The destructor leaves no session behind and no pacer running.\<close>

lemma sender_destroy_ends:
  assumes "sender_reachable C s"
  shows "pok (\<lambda>t. s_state t = Idle \<and> \<not> t_active (s_pacer t)) (sender_destroy C s)"
proof -
  have idle: "s_state t = Idle \<and> \<not> t_active (s_pacer t)" if "on_air C t \<and> s_state t = Idle" for t
    using that by (simp add: view_def)
  note a = reachable_air [OF assms]
  show ?thesis
    using stop_air [OF a] idle [of s] a idle by (cases "stop C s") (auto simp: sender_destroy_def)
qed

section \<open>The stream\<close>

lemma audio_packet_opens:
  assumes "crypto_ok C" and "audio_packet C (Some k) sq i pkt"
  shows "\<exists>m ts ssrc ct payload. let h = rtp_header m (sq + of_nat i) ts ssrc
    in pkt = h @ toStr ct @ toStr (counterNonce8 (of_nat i))
      \<and> chacha20Poly1305Decrypt C k (counterNonce8 (of_nat i)) ct (toBytes (take 8 (drop 4 h))) = Some payload"
proof -
  obtain m ts ssrc payload ct where p: "pkt = rtp_header m (sq + of_nat i) ts ssrc @ toStr ct @ toStr (counterNonce8 (of_nat i))"
    and e: "chacha20Poly1305Encrypt C k (counterNonce8 (of_nat i)) (toBytes payload)
      (toBytes (take 8 (drop 4 (rtp_header m (sq + of_nat i) ts ssrc)))) = Inr ct"
    using assms(2) by (auto simp: audio_packet_def Let_def)
  have "chacha20Poly1305Decrypt C k (counterNonce8 (of_nat i)) ct
      (toBytes (take 8 (drop 4 (rtp_header m (sq + of_nat i) ts ssrc)))) = Some (toBytes payload)"
    using e crypto_ok_simps(1-3) [OF assms(1)]
    by (auto simp: chacha20Poly1305Encrypt_def chacha20Poly1305Decrypt_def case_prod_beta split: if_splits)
  with p show ?thesis unfolding Let_def by blast
qed

end
