(* ===== verification/Sender_Progress.thy ===== *)
theory Sender_Progress
  imports Sender_Audio Sender_Paired Sender_Packets
begin

text \<open>
  The stream does not stall: while a session streams its pacer runs, and a tick at the pacer's
  deadline comes back with every packet that is due on the wire, whatever other timers fire in
  the same tick.
\<close>

section \<open>The other timers of a tick\<close>

text \<open>What the handlers before the pacer's leave alone.\<close>

definition same_pace :: "sender \<Rightarrow> sender \<Rightarrow> bool" where
  "same_pace s t \<longleftrightarrow> sane t \<and> view t = view s \<and> s_pacer t = s_pacer s \<and> s_framesSent t = s_framesSent s
     \<and> s_clockStart t = s_clockStart s \<and> s_now t = s_now s \<and> s_waitingForPin t = s_waitingForPin s"

lemma same_pace_refl: "sane s \<Longrightarrow> same_pace s s"
  by (simp add: same_pace_def)

lemma same_pace_fields [simp]:
  "same_pace s (t\<lparr>s_cseq := n\<rparr>) = same_pace s t"
  "same_pace s (t\<lparr>s_pendingDigestMethod := m, s_pendingDigestUri := u\<rparr>) = same_pace s t"
  "same_pace s (queue_method m b t) = same_pace s t"
  "same_pace s (s_timeout_update f t) = same_pace s t" "same_pace s (s_pinTimeout_update f t) = same_pace s t"
  "same_pace s (s_feedbackTimer_update f t) = same_pace s t" "same_pace s (s_syncTimer_update f t) = same_pace s t"
  "same_pace s (arm s_timeout_update t) = same_pace s t"
  "same_pace s (t\<lparr>s_ctrlSendCtr := c\<rparr>) = same_pace s t"
  by (auto simp: same_pace_def arm_def sane_defs queue_method_def)

lemma same_pace_emit:
  "same_pace s t \<Longrightarrow> view (emit e t) = view t \<Longrightarrow> same_pace s (emit e t)"
  by (simp add: same_pace_def) (simp add: emit_def sane_defs)

lemma same_pace_sync: "same_pace s t \<Longrightarrow> same_pace s (sendSyncPacket b t)"
  by (simp add: sendSyncPacket_def Let_def same_pace_emit)

lemma writeRtsp_paced:
  assumes "crypto_ok C" and s: "same_pace s t"
  shows "ends_in (same_pace s) (writeRtsp C data t)"
proof (cases "s_controlEncrypted t")
  case False
  with s show ?thesis by (simp add: writeRtsp_def io_def same_pace_emit split: option.split)
next
  case True
  then obtain a where a: "s_ap2 t = Some a" "length (a_controlOut a) = 32"
    using s by (auto simp: same_pace_def sane_def writable_def Option.is_none_def)
  define d where "d = take (nat (sint (of_nat (length data) :: 32 word))) data"
  obtain out ctr where "seal_frames C (a_controlOut a) (s_ctrlSendCtr t) d = Inr (out, ctr)"
    using seal_frames_total [OF assms(1) a(2)] by blast
  with a True s show ?thesis by (simp add: writeRtsp_def d_def io_def Let_def same_pace_emit)
qed

lemma sendRequest_paced:
  "crypto_ok C \<Longrightarrow> same_pace s t \<Longrightarrow> ends_in (same_pace s) (sendRequest C m u ct body extra t)"
  unfolding sendRequest_def Let_def by (rule run_ends) (auto simp: upd_def writeRtsp_paced)

lemma onFeedbackTimer_paced:
  assumes "crypto_ok C" and "same_pace s t"
  shows "ends_in (same_pace s) (onFeedbackTimer C t)"
proof -
  have "ends_in (same_pace s) (run [upd (\<lambda>s. s\<lparr>s_cseq := s_cseq s + 1\<rparr>), upd (queue_method m b), writeRtsp C req] t)" for m b req
    by (rule run_ends) (use assms in \<open>auto simp: upd_def writeRtsp_paced\<close>)
  with assms show ?thesis by (auto simp: onFeedbackTimer_def Let_def sendRequest_paced)
qed

lemma other_timers_paced:
  assumes "crypto_ok C" and "sane s" and "s_state s = Streaming" and "\<not> s_waitingForPin s"
  shows "ends_in (same_pace s) (run
    [if_due now s_timeout s_timeout_update (upd onHandshakeTimeout),
     if_due now s_pinTimeout s_pinTimeout_update (upd onPinTimeout),
     if_due now s_feedbackTimer s_feedbackTimer_update (onFeedbackTimer C),
     if_due now s_syncTimer s_syncTimer_update (upd (sendSyncPacket False))] s)"
proof -
  have q: "onHandshakeTimeout t = t" "onPinTimeout t = t" if "same_pace s t" for t
    using that assms(3,4) by (simp_all add: onHandshakeTimeout_def onPinTimeout_def same_pace_def view_def)
  show ?thesis
    by (rule run_ends [where P = "same_pace s"], rule same_pace_refl [OF assms(2)])
      (auto simp: if_due_def Let_def upd_def q same_pace_sync onFeedbackTimer_paced [OF assms(1)])
qed

section \<open>The pacer\<close>

lemma run_append: "run (fs @ gs) s = (case run fs s of Inl e \<Rightarrow> Inl e | Inr t \<Rightarrow> run gs t)"
  by (induction fs arbitrary: s) (simp_all add: run.simps split: sum.split)

lemma tick_split:
  "tick C s = (case run
    [if_due (s_now s) s_timeout s_timeout_update (upd onHandshakeTimeout),
     if_due (s_now s) s_pinTimeout s_pinTimeout_update (upd onPinTimeout),
     if_due (s_now s) s_feedbackTimer s_feedbackTimer_update (onFeedbackTimer C),
     if_due (s_now s) s_syncTimer s_syncTimer_update (upd (sendSyncPacket False))] s of
     Inl e \<Rightarrow> Inl e | Inr t \<Rightarrow> if_due (s_now s) s_pacer s_pacer_update (onPacerTick C) t)"
  unfolding tick_def Let_def
  by (simp add: run_append [where fs = "[a, b, c, d]" and gs = "[e]" for a b c d e, unfolded append.simps] run_simps(2)
      split: sum.split)

lemma audio_of_pkts: "fold audio_step (map (UdpSend UdpAudio ep) pkts) xs = xs @ pkts"
  by (induction pkts arbitrary: xs) auto

lemma pacer_loop_timer: "pok (\<lambda>t. s_pacer t = s_pacer s) (pacer_loop C target k s)"
proof (induction k arbitrary: s)
  case (Suc k)
  have "pok (\<lambda>t. s_pacer t = s_pacer s) (sendAudioPacket C s)"
    by (auto simp: sendAudioPacket_def encryptAudioPayload_def emit_def Let_def split: option.split sum.split prod.split)
  then show ?case using Suc [of "projr (sendAudioPacket C s)"] by (cases "sendAudioPacket C s") auto
qed simp

lemma pacer_loop_key:
  "audio_key (s_ap2 s) \<noteq> None \<Longrightarrow> pok (\<lambda>t. audio_key (s_ap2 t) \<noteq> None) (pacer_loop C target k s)"
proof (induction k arbitrary: s)
  case (Suc k)
  have "pok (\<lambda>t. audio_key (s_ap2 t) \<noteq> None) (sendAudioPacket C s)"
    using Suc.prems
    by (auto simp: sendAudioPacket_def encryptAudioPayload_def emit_def audio_key_def Let_def split: option.splits sum.split prod.split if_splits)
  then show ?case using Suc by (cases "sendAudioPacket C s") auto
qed simp

lemma tick_streams:
  assumes "crypto_ok C" and "sane s" and "on_air C s" and "s_state s = Streaming" and "\<not> s_waitingForPin s"
    and "t_due (s_pacer s) \<le> s_now s" and "target = pacer_target (word_of_int (s_now s - s_clockStart s))"
    and "unat (s_framesSent s) \<le> unat target" and "unat target < 2 ^ 64 - 352"
  shows "\<exists>pkts s'. tick C s = Inr s'
    \<and> session_audio (s_out s') = session_audio (s_out s) @ pkts
    \<and> length pkts = min 16 ((unat target - unat (s_framesSent s)) div 352)
    \<and> unat (s_framesSent s') = unat (s_framesSent s) + 352 * length pkts
    \<and> s_state s' = Streaming \<and> t_active (s_pacer s')
    \<and> t_due (s_pacer s') = s_now s + t_interval (s_pacer s)
    \<and> (audio_key (s_ap2 s) \<noteq> None \<longrightarrow> audio_key (s_ap2 s') \<noteq> None)"
proof -
  obtain u where u: "run
    [if_due (s_now s) s_timeout s_timeout_update (upd onHandshakeTimeout),
     if_due (s_now s) s_pinTimeout s_pinTimeout_update (upd onPinTimeout),
     if_due (s_now s) s_feedbackTimer s_feedbackTimer_update (onFeedbackTimer C),
     if_due (s_now s) s_syncTimer s_syncTimer_update (upd (sendSyncPacket False))] s = Inr u" "same_pace s u"
    using other_timers_paced [OF assms(1) assms(2) assms(4,5)] by blast
  have act: "t_active (s_pacer s)" "t_repeating (s_pacer s)" using assms(3,4) by (simp_all add: view_def)
  let ?w = "s_pacer_update (\<lambda>t. if t_repeating t then t\<lparr>t_due := s_now s + t_interval t\<rparr> else t\<lparr>t_active := False\<rparr>) u"
  have w: "sane ?w" "s_framesSent ?w = s_framesSent s" "sending C True (view ?w)" "s_now ?w = s_now s"
      "s_clockStart ?w = s_clockStart s" "session_audio (s_out ?w) = session_audio (s_out s)"
      "t_due (s_pacer ?w) = s_now s + t_interval (s_pacer s)"
    using u(2) act on_air_sending [OF assms(3,4)] by (auto simp: same_pace_def view_def sending_def)
  obtain pkts s' where l: "pacer_loop C target 16 ?w = Inr s'"
      "length pkts = min 16 ((unat target - unat (s_framesSent s)) div 352)"
      "s_out s' = s_out ?w @ map (UdpSend UdpAudio \<lparr>ep_ip = s_hostIp ?w, ep_port = s_serverPort ?w\<rparr>) pkts"
      "unat (s_framesSent s') = unat (s_framesSent s) + 352 * length pkts"
    using pacer_loop_exact [OF assms(1) w(1), of target 16] assms(8,9) unfolding w(2) by blast
  have "tick C s = Inr s'"
    using u act assms(6) l(1) unfolding tick_split u(1)
    by (simp add: if_due_def Let_def onPacerTick_def same_pace_def kMaxPacketsPerTick_def assms(7))
  moreover have "session_audio (s_out s') = session_audio (s_out s) @ pkts"
    unfolding l(3) session_audio_simps w(6) audio_of_pkts ..
  moreover have "s_state s' = Streaming \<and> t_active (s_pacer s')"
    using pacer_loop_sending [OF w(3), of target 16] l(1) by (auto simp: sending_def view_def)
  moreover have "t_due (s_pacer s') = s_now s + t_interval (s_pacer s)"
    using pacer_loop_timer [of ?w C target 16] l(1) w(7) by simp
  moreover have "audio_key (s_ap2 s) \<noteq> None \<longrightarrow> audio_key (s_ap2 s') \<noteq> None"
    using pacer_loop_key [of ?w C target 16] l(1) u(2) by (auto simp: same_pace_def view_def)
  ultimately show ?thesis using l(2,4) by blast
qed

section \<open>A session that plays\<close>

lemma streaming_two_packets:
  "\<exists>s. sender_reachable demo_crypto s \<and> s_state s = Streaming \<and> \<not> s_waitingForPin s \<and> s_framesSent s = 0
     \<and> t_due (s_pacer s) \<le> s_now s \<and> 705 = pacer_target (word_of_int (s_now s - s_clockStart s))
     \<and> audio_key (s_ap2 s) \<noteq> None \<and> rs_inBuf (s_rs s) = [] \<and> rs_srcPhase (s_rs s) = 0"
proof -
  obtain s a where s: "sender_reachable demo_crypto s" "streaming_with a s" "a_encryptAudio a"
    using streaming_session by blast
  let ?s = "s\<lparr>s_now := 16000000, s_wall := 0\<rparr>"
  have "sender_reachable demo_crypto ?s"
    by (rule sender_reachable.step [OF s(1), of "Env_clocks 16000000 0"])
      (use s(2) in \<open>simp_all add: call_ok_def apply_call_def streaming_with_def unpaced_def\<close>)
  moreover have "pacer_target (word_of_int 16000000) = 705" by code_simp
  ultimately show ?thesis
    using s(2,3) by (intro exI [of _ ?s]) (simp add: streaming_with_def unpaced_def kPacerMs_def audio_key_def)
qed

lemma session_plays:
  "\<exists>s k n. sender_reachable demo_crypto s \<and> audio_key (s_ap2 s) = Some (k, n) \<and> 2 \<le> length (session_audio (s_out s))"
proof -
  obtain s where s: "sender_reachable demo_crypto s" "s_state s = Streaming" "\<not> s_waitingForPin s" "s_framesSent s = 0"
     "t_due (s_pacer s) \<le> s_now s" "705 = pacer_target (word_of_int (s_now s - s_clockStart s))" "audio_key (s_ap2 s) \<noteq> None"
    using streaming_two_packets by blast
  have "unat (s_framesSent s) \<le> unat (705 :: 64 word)" "unat (705 :: 64 word) < 2 ^ 64 - 352" using s(4) by simp_all
  from tick_streams [OF demo_crypto_ok reachable_sane [OF s(1) demo_crypto_ok] reachable_air [OF s(1)] s(2,3,5,6) this] s(4,7)
  obtain s' where t: "tick demo_crypto s = Inr s'" "2 \<le> length (session_audio (s_out s'))" "audio_key (s_ap2 s') \<noteq> None" by auto
  have "sender_reachable demo_crypto s'"
    by (rule sender_reachable.step [OF s(1), of Call_tick]) (simp_all add: call_ok_def apply_call_def t(1))
  with t(2,3) show ?thesis by auto
qed

text \<open>
  C6. The stream does not stall. While a session streams its pacer runs, and a tick at the
  pacer's deadline returns normally, with the feedback, the synchronisation packet and the
  watchdogs of the same tick taken care of: the packets the clock asks for are on the wire, up
  to sixteen of them, after those sent before, the session is still streaming and the pacer runs
  on, due one interval later.
\<close>

theorem stream_advances:
  assumes "crypto_ok C" and "sender_reachable C s" and "s_state s = Streaming" and "\<not> s_waitingForPin s"
    and "t_due (s_pacer s) \<le> s_now s" and "target = pacer_target (word_of_int (s_now s - s_clockStart s))"
    and "unat (s_framesSent s) \<le> unat target" and "unat target < 2 ^ 64 - 352"
  shows "\<exists>pkts s'. tick C s = Inr s'
    \<and> session_audio (s_out s') = session_audio (s_out s) @ pkts
    \<and> length pkts = min 16 ((unat target - unat (s_framesSent s)) div 352)
    \<and> unat (s_framesSent s') = unat (s_framesSent s) + 352 * length pkts
    \<and> s_state s' = Streaming \<and> t_active (s_pacer s')
    \<and> t_due (s_pacer s') = s_now s + t_interval (s_pacer s)"
  using tick_streams [OF assms(1) reachable_sane [OF assms(2,1)] reachable_air [OF assms(2)] assms(3-8)] by blast

theorem stream_advances_witness:
  "\<exists>s pkts s'. sender_reachable demo_crypto s \<and> tick demo_crypto s = Inr s' \<and> length pkts = 2
    \<and> session_audio (s_out s') = session_audio (s_out s) @ pkts \<and> s_state s' = Streaming"
proof -
  obtain s where s: "sender_reachable demo_crypto s" "s_state s = Streaming" "\<not> s_waitingForPin s" "s_framesSent s = 0"
     "t_due (s_pacer s) \<le> s_now s" "705 = pacer_target (word_of_int (s_now s - s_clockStart s))"
    using streaming_two_packets by blast
  have "unat (s_framesSent s) \<le> unat (705 :: 64 word)" "unat (705 :: 64 word) < 2 ^ 64 - 352" using s(4) by simp_all
  from stream_advances [OF demo_crypto_ok s(1,2,3,5,6) this] s(1,4) show ?thesis by auto
qed

text \<open>
  C5. The audio stream of a session, over any sequence of calls: whatever the application does
  between the pacer's ticks, the packets sent since \<open>start\<close> bear consecutive sequence numbers, up
  to the one before the sender's next. Before the session streams there are none. Once audio is
  encrypted the nonces count the packets, from 0: packet \<open>i\<close> ends in nonce \<open>i\<close>, so no nonce is
  used twice under the session's key before its 64 bits wrap, and a receiver that takes key,
  nonce and header from it opens every one.
\<close>

theorem audio_stream:
  assumes "crypto_ok C" and "sender_reachable C s"
    and "pkts = session_audio (s_out s)" and "sq = s_seq s - of_nat (length pkts)"
  shows "(live (s_state s) \<longrightarrow> pkts = []) \<and>
    (case audio_key (s_ap2 s) of
       None \<Rightarrow> \<forall>i < length pkts. \<exists>m ts ssrc payload. pkts ! i = rtp_header m (sq + of_nat i) ts ssrc @ payload
     | Some (k, n) \<Rightarrow> n = of_nat (length pkts) \<and>
         (\<forall>i < length pkts. \<exists>m ts ssrc ct payload. let h = rtp_header m (sq + of_nat i) ts ssrc
            in pkts ! i = h @ toStr ct @ toStr (counterNonce8 (of_nat i))
              \<and> chacha20Poly1305Decrypt C k (counterNonce8 (of_nat i)) ct (toBytes (take 8 (drop 4 h))) = Some payload))"
proof -
  have "numbered C (audio_key (s_ap2 s)) (s_seq s) pkts" "live (s_state s) \<longrightarrow> pkts = []"
    using reachable_air [OF assms(2)] assms(3) by (simp_all add: view_def)
  then show ?thesis
    using audio_packet_opens [OF assms(1)] unfolding assms(4)
    by (auto simp: numbered_def audio_packet_def [of C None] Let_def split: option.split)
qed

theorem audio_stream_witness:
  "\<exists>s k n pkts. sender_reachable demo_crypto s \<and> audio_key (s_ap2 s) = Some (k, n) \<and> pkts = session_audio (s_out s)
    \<and> 2 \<le> length pkts \<and> n = of_nat (length pkts)
    \<and> (\<exists>m ts ssrc ct payload. let h = rtp_header m (s_seq s - of_nat (length pkts) + 1) ts ssrc
            in pkts ! 1 = h @ toStr ct @ toStr (counterNonce8 1)
              \<and> chacha20Poly1305Decrypt demo_crypto k (counterNonce8 1) ct (toBytes (take 8 (drop 4 h))) = Some payload)"
proof -
  obtain s k n where s: "sender_reachable demo_crypto s" "audio_key (s_ap2 s) = Some (k, n)" "2 \<le> length (session_audio (s_out s))"
    using session_plays by blast
  have "1 < length (session_audio (s_out s))" using s(3) by simp
  with audio_stream [OF demo_crypto_ok s(1) refl refl] s show ?thesis by fastforce
qed

end
