(* ===== verification/Sender_Events.thy ===== *)
theory Sender_Events
  imports Sender_Audio Sender_Paired
begin

text \<open>
  The event channel of AirPlay 2, on which the receiver sends requests and the sender answers:
  the replies of a whole session.
\<close>

section \<open>One request\<close>

definition event_post :: string where
  "event_post = ''POST /command RTSP/1.0'' @ crlf @ ''CSeq: 1'' @ crlf @ crlf"

lemma event_post_parsed: "event_request event_post = Some (''1'', [])" "event_request [] = None"
  by code_simp+

lemma event_answered:
  assumes "streaming_with a s" and "keys_set a"
  shows "\<exists>s' bytes cseq d. apply_call demo_crypto (Call_tcpData TcpEvent bytes) s = Inr s'
    \<and> seal_frame demo_crypto (a_eventOut a) (s_eventSendCtr s) (event_response cseq) = Inr d
    \<and> session_replies (s_out s') = session_replies (s_out s) @ [d]"
proof -
  have k: "length (a_eventIn a) = 32" "length (a_eventOut a) = 32" using assms(2) by (simp_all add: keys_set_def)
  obtain out c where o: "seal_frames demo_crypto (a_eventIn a) (s_eventRecvCtr s) event_post = Inr (out, c)"
    "\<forall>rest. open_frames demo_crypto (a_eventIn a) (s_eventRecvCtr s) (out @ rest)
       = (let (ok, plain, c, r) = open_frames demo_crypto (a_eventIn a) c rest in (ok, event_post @ plain, c, r))"
    using open_sealed [OF demo_crypto_ok k(1)] by blast
  have o: "open_frames demo_crypto (a_eventIn a) (s_eventRecvCtr s) out = (True, event_post, c, [])"
    using o(2) [rule_format, of "[]"] by (simp add: open_frames_short)
  obtain d where d: "seal_frame demo_crypto (a_eventOut a) (s_eventSendCtr s) (event_response ''1'') = Inr d"
    using seal_frame_opens [OF demo_crypto_ok k(2)] by metis
  obtain n where n: "length event_post = Suc n" by (simp add: event_post_def)
  define s1 where "s1 = s\<lparr>s_eventPlainBuf := event_post, s_eventRecvCtr := c, s_eventEncBuf := []\<rparr>"
  define s2 where "s2 = emit (TcpSend TcpEvent d) (s1\<lparr>s_eventPlainBuf := [], s_eventSendCtr := s_eventSendCtr s + 1\<rparr>)"
  have s1: "s_eventPlainBuf s1 = event_post" "s_eventSendCtr s1 = s_eventSendCtr s" "s_out s1 = s_out s" by (simp_all add: s1_def)
  have s2: "s_eventPlainBuf s2 = []" "session_replies (s_out s2) = session_replies (s_out s) @ [d]"
    by (simp_all add: s2_def emit_def s1)
  have "onEventReadyRead demo_crypto out s = event_loop demo_crypto a (Suc (Suc n)) s1"
    using assms(1) k o n by (simp add: onEventReadyRead_def streaming_with_def unpaced_def Let_def s1_def)
  also have "\<dots> = Inr s2"
    using d by (simp add: event_loop.simps event_post_parsed s1 s2 flip: s2_def)
  finally have "apply_call demo_crypto (Call_tcpData TcpEvent (toBytes out)) s = Inr s2"
    by (simp add: apply_call_def onTcpData_def)
  with d s2(2) show ?thesis by blast
qed

section \<open>The replies of a session\<close>



end
