(* ===== verification/Sender_Heard.thy ===== *)
theory Sender_Heard
  imports Sender_Progress Resample_Stream
begin

text \<open>
  What is heard: a reference receiver that opens an audio packet and decodes its payload, and
  from it that a session at the ring's own rate plays what the application pushed.
\<close>

section \<open>The receiver\<close>

definition word_of_bits :: "bool list \<Rightarrow> 16 word" where
  "word_of_bits bs = foldl (\<lambda>w b. push_bit 1 w OR of_bool b) 0 bs"

fun samples_of_bits :: "nat \<Rightarrow> bool list \<Rightarrow> 16 word list" where
  "samples_of_bits 0 bs = []"
| "samples_of_bits (Suc n) bs = word_of_bits (take 16 bs) # samples_of_bits n (drop 16 bs)"

text \<open>An uncompressed ALAC frame: 23 bits of header, the samples, nine bits of end.\<close>

definition alac_samples :: "string \<Rightarrow> 16 word list" where
  "alac_samples s = samples_of_bits ((length s - 4) div 2) (drop 23 (string_bits s))"

fun l16_samples :: "string \<Rightarrow> 16 word list" where
  "l16_samples (a # b # cs) = (push_bit 8 (ucast (char_byte a)) OR ucast (char_byte b)) # l16_samples cs"
| "l16_samples _ = []"

text \<open>With a key the packet ends in tag and nonce and its time stamp and source are authenticated.\<close>

definition heard :: "crypto \<Rightarrow> bytes option \<Rightarrow> string \<Rightarrow> 16 word list option" where
  "heard C key pkt =
     (let body = drop 12 pkt; n = length body - 8
      in case key of
           None \<Rightarrow> Some (l16_samples body)
         | Some k \<Rightarrow> map_option (\<lambda>p. alac_samples (toStr p))
             (chacha20Poly1305Decrypt C k (toBytes (drop n body)) (toBytes (take n body)) (toBytes (take 8 (drop 4 pkt)))))"

section \<open>Decoding inverts encoding\<close>

lemma foldl_word_bits:
  "foldl (\<lambda>w b. push_bit 1 w OR of_bool b) w (word_bits v n) = push_bit n w OR (take_bit n v :: 16 word)"
proof (induction n arbitrary: w)
  case (Suc n)
  have "push_bit n (push_bit 1 w OR of_bool (bit v n)) OR take_bit n v = push_bit (Suc n) w OR take_bit (Suc n) v"
    by (rule bit_word_eqI) (auto simp: bit_simps less_Suc_eq)
  with Suc show ?case by simp
qed simp

lemma word_of_bits_word [simp]: "word_of_bits (word_bits v 16) = v"
proof -
  have "take_bit 16 v = v" by (rule bit_word_eqI) (simp add: bit_take_bit_iff)
  then show ?thesis unfolding word_of_bits_def foldl_word_bits by simp
qed

lemma samples_of_word_bits: "samples_of_bits (length xs) (concat (map (\<lambda>s. word_bits s 16) xs) @ rest) = xs"
  by (induction xs) simp_all

lemma alac_decodes: "alac_samples (encodeAlacFrame xs) = xs"
proof -
  have "length alac_head_bits = 23" by (simp add: alac_head_bits_def)
  then show ?thesis
    using samples_of_word_bits [of xs] by (simp add: alac_samples_def length_encodeAlacFrame encodeAlacFrame_bits)
qed

lemma l16_decodes: "l16_samples (l16_payload xs) = xs"
proof (induction xs)
  case (Cons x xs)
  have "push_bit 8 (ucast (ucast (drop_bit 8 x) :: byte)) OR ucast (ucast (x AND 0xFF) :: byte) = x"
    by (rule bit_word_eqI) (auto simp: bit_simps)
  with Cons show ?case by (simp add: l16_payload_def)
qed (simp add: l16_payload_def)

section \<open>One packet\<close>

abbreviation stream_key :: "sender \<Rightarrow> bytes option" where
  "stream_key s \<equiv> map_option fst (audio_key (s_ap2 s))"

lemma sealed_payload_heard:
  assumes "crypto_ok C" and "sane s" and h: "length h = 12"
    and p: "p = (if audio_encrypted s then encodeAlacFrame xs else l16_payload xs)"
    and e: "encryptAudioPayload C h p s = Inr (w, t)"
  shows "heard C (stream_key s) (h @ w) = Some xs"
proof (cases "audio_encrypted s")
  case False
  then have "stream_key s = None" "w = p"
    using e by (auto simp: audio_encrypted_def audio_key_def encryptAudioPayload_def split: option.splits if_splits)
  with False h p show ?thesis by (simp add: heard_def l16_decodes Let_def)
next
  case True
  then obtain a where a: "s_ap2 s = Some a" "a_encryptAudio a" by (auto simp: audio_encrypted_def split: option.splits)
  have k: "length (a_audioKey a) = 32" using assms(2) a by (simp add: sane_def ap2_ok_def)
  define n8 where "n8 = counterNonce8 (a_audioNonce a)"
  define aad where "aad = toBytes (take 8 (drop 4 h))"
  obtain ct where ct: "chacha20Poly1305Encrypt C (a_audioKey a) n8 (toBytes p) aad = Inr ct" and w: "w = toStr ct @ toStr n8"
    using e a by (auto simp: encryptAudioPayload_def Let_def n8_def aad_def split: sum.splits)
  have l8: "length n8 = 8" by (simp add: n8_def counterNonce8_def)
  have "chacha20Poly1305Decrypt C (a_audioKey a) n8 ct aad = Some (toBytes p)"
    using ct k crypto_ok_simps(1-3) [OF assms(1)]
    by (auto simp: chacha20Poly1305Encrypt_def chacha20Poly1305Decrypt_def case_prod_beta split: if_splits)
  then show ?thesis
    using a True h p l8 by (simp add: heard_def audio_key_def w Let_def aad_def alac_decodes)
qed

lemma sendAudioPacket_heard:
  assumes "crypto_ok C" and "sane s"
  shows "\<exists>t pkt xs. sendAudioPacket C s = Inr t \<and> fillFrames (s_rs s) 352 = Some (xs, s_rs t)
    \<and> session_audio (s_out t) = session_audio (s_out s) @ [pkt] \<and> heard C (stream_key s) pkt = Some xs
    \<and> stream_key t = stream_key s \<and> sane t"
proof -
  obtain xs rs where f: "fillFrames (s_rs s) kFramesPerPacket = Some (xs, rs)" "resampler_ok rs"
    using fillFrames_total [of "s_rs s" kFramesPerPacket] assms(2) by (auto simp: sane_def)
  have inv: "sane (s\<lparr>s_rs := rs\<rparr>)" using assms(2) f(2) by (simp add: sane_defs)
  define h where "h = rtp_header (s_firstAudio s) (s_seq s) (s_rtptime32 s) (s_sessionId s)"
  define p where "p = (if audio_encrypted (s\<lparr>s_rs := rs\<rparr>) then encodeAlacFrame xs else l16_payload xs)"
  obtain w t where e: "encryptAudioPayload C h p (s\<lparr>s_rs := rs\<rparr>) = Inr (w, t)"
      "t = s\<lparr>s_rs := rs, s_ap2 := audio_ap2 (s\<lparr>s_rs := rs\<rparr>)\<rparr>"
    using encryptAudioPayload_exact [OF assms(1) inv, of h p] by auto
  have hd: "heard C (stream_key s) (h @ w) = Some xs"
    using sealed_payload_heard [OF assms(1) inv _ p_def e(1)] by (simp add: h_def length_rtp_header)
  have key: "map_option fst (audio_key (audio_ap2 (s\<lparr>s_rs := rs\<rparr>))) = stream_key s"
    by (simp add: audio_key_def audio_ap2_def split: option.split)
  obtain u where u: "sendAudioPacket C s = Inr u" "s_rs u = rs" "s_ap2 u = audio_ap2 (s\<lparr>s_rs := rs\<rparr>)"
      "session_audio (s_out u) = session_audio (s_out s) @ [h @ w]"
    using f(1) e by (simp add: sendAudioPacket_def Let_def p_def [symmetric] h_def [symmetric] s_rtptime32_def emit_def)
      (simp add: h_def s_rtptime32_def emit_def Let_def)
  have "ok sane (sendAudioPacket C s)"
    using sendAudioPacket_good [of "s_rxBuf s" s C] assms(2) by (simp add: ok_good_sane sane_good)
  with u(1) have "sane u" by simp
  with u f hd key show ?thesis by (auto simp: kFramesPerPacket_def)
qed


section \<open>A tick\<close>

text \<open>All that is heard of a run of packets is what \<open>fillFrames\<close> gives, packet after packet.\<close>

lemma pacer_loop_heard:
  assumes "crypto_ok C"
  shows "sane s \<Longrightarrow> \<exists>t pkts hs. pacer_loop C target k s = Inr t
      \<and> session_audio (s_out t) = session_audio (s_out s) @ pkts \<and> map (heard C (stream_key s)) pkts = map Some hs
      \<and> fills 352 (length pkts) (s_rs s) = Some (concat hs, s_rs t)"
proof (induction k arbitrary: s)
  case 0
  then show ?case by simp
next
  case (Suc k)
  show ?case
  proof (cases "s_framesSent s + of_nat kFramesPerPacket \<le> target")
    case False
    then show ?thesis by simp
  next
    case True
    obtain t pkt xs where t: "sendAudioPacket C s = Inr t" "fillFrames (s_rs s) 352 = Some (xs, s_rs t)"
        "session_audio (s_out t) = session_audio (s_out s) @ [pkt]" "heard C (stream_key s) pkt = Some xs"
        "stream_key t = stream_key s" "sane t"
      using sendAudioPacket_heard [OF assms Suc.prems] by blast
    obtain t' pkts hs where ih: "pacer_loop C target k t = Inr t'" "session_audio (s_out t') = session_audio (s_out t) @ pkts"
        "map (heard C (stream_key t)) pkts = map Some hs" "fills 352 (length pkts) (s_rs t) = Some (concat hs, s_rs t')"
      using Suc.IH [OF t(6)] by blast
    have "map (heard C (stream_key s)) (pkt # pkts) = map Some (xs # hs)" using t(4,5) ih(3) by simp
    moreover have "fills 352 (length (pkt # pkts)) (s_rs s) = Some (concat (xs # hs), s_rs t')" using t(2) ih(4) by simp
    ultimately show ?thesis using True t(1,3) ih(1,2)
      by (intro exI [of _ t'] exI [of _ "pkt # pkts"] exI [of _ "xs # hs"]) simp
  qed
qed

lemma pacer_tick_heard:
  assumes "crypto_ok C" and "sender_reachable C s" and "target = pacer_target (word_of_int (s_now s - s_clockStart s))"
    and "unat (s_framesSent s) \<le> unat target" and "unat target < 2 ^ 64 - 352"
    and "sent = min 16 ((unat target - unat (s_framesSent s)) div 352)"
  shows "\<exists>t pkts hs. onPacerTick C s = Inr t
    \<and> session_audio (s_out t) = session_audio (s_out s) @ pkts \<and> length pkts = sent
    \<and> map (heard C (stream_key s)) pkts = map Some hs \<and> fills 352 sent (s_rs s) = Some (concat hs, s_rs t)"
proof -
  have sane: "sane s" using assms(1,2) by (rule reachable_sane [rotated])
  have tick: "onPacerTick C s = pacer_loop C target 16 s"
    by (simp only: onPacerTick_def Let_def assms(3) kMaxPacketsPerTick_def)
  obtain t pkts hs where t: "pacer_loop C target 16 s = Inr t" "session_audio (s_out t) = session_audio (s_out s) @ pkts"
      "map (heard C (stream_key s)) pkts = map Some hs" "fills 352 (length pkts) (s_rs s) = Some (concat hs, s_rs t)"
    using pacer_loop_heard [OF assms(1) sane] by blast
  from pacer_loop_exact [OF assms(1) sane assms(4,5), of 16] obtain pkts' t' where
      "pacer_loop C target 16 s = Inr t'" "length pkts' = sent"
      "s_out t' = s_out s @ map (UdpSend UdpAudio \<lparr>ep_ip = s_hostIp s, ep_port = s_serverPort s\<rparr>) pkts'"
    unfolding assms(6) by blast
  then have "length pkts = sent" using t(1,2) by (auto simp: audio_of_pkts)
  with t tick show ?thesis by auto
qed

text \<open>
  C7. What the application pushes is what is heard. A pacer tick of a session at the ring's own
  rate of 44100 Hz returns, with as many packets as the clock asks for, up to sixteen; a receiver
  that has the session's key opens every one and decodes, from ALAC when audio is encrypted and
  from big-endian samples when it is not, the frames the ring holds, in order and none twice,
  then silence if it runs dry. What it has not yet sent is still in the ring.
\<close>

theorem pushed_is_played:
  assumes "crypto_ok C" and "sender_reachable C s" and "rs_ring (s_rs s) = Some ring" and "rs_inputRate (s_rs s) = kRaopRate"
    and "target = pacer_target (word_of_int (s_now s - s_clockStart s))"
    and "unat (s_framesSent s) \<le> unat target" and "unat target < 2 ^ 64 - 352"
    and "pcm = ring_contents ring" and "sent = min 16 ((unat target - unat (s_framesSent s)) div 352)"
    and "n = 2 * min (length pcm div 2) (352 * sent)"
  shows "\<exists>t pkts hs ring'. onPacerTick C s = Inr t
    \<and> session_audio (s_out t) = session_audio (s_out s) @ pkts \<and> length pkts = sent
    \<and> map (heard C (map_option fst (audio_key (s_ap2 s)))) pkts = map Some hs
    \<and> concat hs = take n pcm @ replicate (704 * sent - n) 0
    \<and> rs_ring (s_rs t) = Some ring' \<and> ring_contents ring' = drop n pcm"
proof -
  have "ring_inv ring" using reachable_sane [OF assms(2,1)] assms(3) by (simp add: sane_def resampler_ok_def)
  have n: "n = 2 * min (length pcm div 2) (sent * 352)" by (simp add: assms(10) mult.commute)
  from fills_pass [OF \<open>ring_inv ring\<close> assms(3,4,8) n] obtain ring' where
      "fills 352 sent (s_rs s) = Some (take n pcm @ replicate (2 * (sent * 352) - n) 0, (s_rs s)\<lparr>rs_ring := Some ring'\<rparr>)"
      "ring_contents ring' = drop n pcm"
    by blast
  moreover have "2 * (sent * 352) = 704 * sent" by simp
  ultimately show ?thesis using pacer_tick_heard [OF assms(1,2,5,6,7,9)] by fastforce
qed


definition pcm_ring :: "16 word RingBuffer" where
  "pcm_ring = \<lparr>ring_mask = 3, ring_buffer = [10, 20, 30, 40], ring_read = 0, ring_write = 4\<rparr>"

lemma pcm_ring_facts: "ring_inv pcm_ring" "ring_contents pcm_ring = [10, 20, 30, 40]"
proof -
  show "ring_inv pcm_ring"
    unfolding ring_inv_def by (auto simp: pcm_ring_def mask_eq_decr_exp intro!: exI [of _ 2])
  show "ring_contents pcm_ring = [10, 20, 30, 40]" by code_simp
qed

lemma playing_session:
  assumes "ring_inv ring" and "0 < rate"
  shows "\<exists>s k. sender_reachable demo_crypto s \<and> s_state s = Streaming \<and> map_option fst (audio_key (s_ap2 s)) = Some k
    \<and> s_rs s = \<lparr>rs_ring = Some ring, rs_inputRate = rate, rs_inBuf = [], rs_srcPhase = 0\<rparr>
    \<and> s_framesSent s = 0 \<and> 705 = pacer_target (word_of_int (s_now s - s_clockStart s))"
proof -
  obtain s where s: "sender_reachable demo_crypto s" "s_state s = Streaming" "s_framesSent s = 0"
     "705 = pacer_target (word_of_int (s_now s - s_clockStart s))" "audio_key (s_ap2 s) \<noteq> None"
     "rs_inBuf (s_rs s) = []" "rs_srcPhase (s_rs s) = 0"
    using streaming_two_packets by blast
  define u where "u = setInputFormat rate (attachRing (Some ring) s)"
  have "sender_reachable demo_crypto (attachRing (Some ring) s)"
    by (rule sender_reachable.step [OF s(1), of "Call_attachRing (Some ring)"])
      (simp_all add: call_ok_def apply_call_def assms(1))
  then have r: "sender_reachable demo_crypto u" unfolding u_def
    by (rule sender_reachable.step [of _ _ "Call_setInputFormat rate"]) (simp_all add: call_ok_def apply_call_def)
  have "s_rs u = \<lparr>rs_ring = Some ring, rs_inputRate = rate, rs_inBuf = [], rs_srcPhase = 0\<rparr>"
    using s(6,7) assms(2) by (simp add: u_def setInputFormat_def attachRing_def)
  with r s(2-5) show ?thesis by (intro exI [of _ u]) (auto simp: u_def setInputFormat_def attachRing_def)
qed

lemma two_packets_sent:
  "unat (0 :: 64 word) \<le> unat (705 :: 64 word)" "unat (705 :: 64 word) < 2 ^ 64 - 352"
  "2 = min 16 ((unat (705 :: 64 word) - unat (0 :: 64 word)) div 352)"
  by simp_all

theorem pushed_is_played_witness:
  "\<exists>s t k pkts hs. sender_reachable demo_crypto s \<and> s_state s = Streaming \<and> map_option fst (audio_key (s_ap2 s)) = Some k
    \<and> onPacerTick demo_crypto s = Inr t \<and> session_audio (s_out t) = session_audio (s_out s) @ pkts \<and> length pkts = 2
    \<and> map (heard demo_crypto (Some k)) pkts = map Some hs \<and> concat hs = [10, 20, 30, 40] @ replicate 1404 0"
proof -
  obtain s k where s: "sender_reachable demo_crypto s" "s_state s = Streaming" "map_option fst (audio_key (s_ap2 s)) = Some k"
     "s_rs s = \<lparr>rs_ring = Some pcm_ring, rs_inputRate = kRaopRate, rs_inBuf = [], rs_srcPhase = 0\<rparr>" "s_framesSent s = 0"
     "705 = pacer_target (word_of_int (s_now s - s_clockStart s))"
    using playing_session [OF pcm_ring_facts(1), of kRaopRate] by (auto simp: kRaopRate_def)
  have n: "4 = 2 * min (length [10, 20, 30, 40 :: 16 word] div 2) (352 * 2)" by simp
  have r: "rs_ring (s_rs s) = Some pcm_ring" "rs_inputRate (s_rs s) = kRaopRate" using s(4) by simp_all
  from pushed_is_played [OF demo_crypto_ok s(1) r s(6) _ _ pcm_ring_facts(2) [symmetric] _ n, unfolded s(3,5), OF two_packets_sent] s(1-3)
  show ?thesis by fastforce
qed

definition ramp_ring :: "16 word RingBuffer" where
  "ramp_ring = \<lparr>ring_mask = 1023, ring_buffer = map of_nat [0..<1024], ring_read = 0, ring_write = 1024\<rparr>"

lemma ramp_ring_facts: "ring_inv ramp_ring" "length (ring_contents ramp_ring) = 1024"
  unfolding ring_inv_def by (auto simp: ramp_ring_def ring_contents_def mask_eq_decr_exp intro!: exI [of _ 10])


end
