(* ===== verification/Wav_File.thy ===== *)
theory Wav_File
  imports Crypto
begin

text \<open>
  The audio source of the example program \<open>src/example/airplay_send.cpp\<close>: \<open>loadWav\<close>, which
  walks the chunks of a RIFF file, and \<open>makeTone\<close>. A read of the buffer is partial, so that a
  read past its end would be a fault of the model. Offsets are natural numbers: they stay below
  the size of the file plus \<open>2 ^ 32 + 8\<close>, far from the end of \<open>size_t\<close>.
\<close>

section \<open>Little-endian reads\<close>

fun le_nat :: "bytes \<Rightarrow> nat" where
  "le_nat [] = 0"
| "le_nat (b # bs) = unat b + 256 * le_nat bs"

definition rd16 :: "string \<Rightarrow> nat \<Rightarrow> 16 word result" where
  "rd16 buf p = (if p + 2 \<le> length buf then Inr (of_nat (le_nat (toBytes (take 2 (drop p buf))))) else Inl Out_of_bounds)"

definition rd32 :: "string \<Rightarrow> nat \<Rightarrow> 32 word result" where
  "rd32 buf p = (if p + 4 \<le> length buf then Inr (of_nat (le_nat (toBytes (take 4 (drop p buf))))) else Inl Out_of_bounds)"

definition tag_at :: "string \<Rightarrow> nat \<Rightarrow> string \<Rightarrow> bool" where
  "tag_at buf p t \<longleftrightarrow> take 4 (drop p buf) = t"

section \<open>The chunks\<close>

record wav_info =
  w_format :: "16 word"
  w_channels :: "16 word"
  w_bits :: "16 word"
  w_rate :: "32 word"
  w_dataOff :: nat
  w_dataLen :: nat

definition no_chunks :: wav_info where
  "no_chunks = \<lparr>w_format = 0, w_channels = 0, w_bits = 0, w_rate = 0, w_dataOff = 0, w_dataLen = 0\<rparr>"

definition read_fmt :: "string \<Rightarrow> nat \<Rightarrow> wav_info \<Rightarrow> wav_info result" where
  "read_fmt buf body i =
     (case rd16 buf body of Inl e \<Rightarrow> Inl e | Inr format \<Rightarrow>
      (case rd16 buf (body + 2) of Inl e \<Rightarrow> Inl e | Inr channels \<Rightarrow>
      (case rd32 buf (body + 4) of Inl e \<Rightarrow> Inl e | Inr rate \<Rightarrow>
      (case rd16 buf (body + 14) of Inl e \<Rightarrow> Inl e | Inr bits \<Rightarrow>
        Inr (i\<lparr>w_format := format, w_channels := channels, w_rate := rate, w_bits := bits\<rparr>)))))"

definition chunk :: "string \<Rightarrow> nat \<Rightarrow> 32 word \<Rightarrow> wav_info \<Rightarrow> wav_info result" where
  "chunk buf p sz i =
     (let body = p + 8
      in if tag_at buf p ''fmt '' \<and> body + 16 \<le> length buf then read_fmt buf body i
         else if tag_at buf p ''data'' then
           Inr (i\<lparr>w_dataOff := body, w_dataLen := min (unat sz) (length buf - body)\<rparr>)
         else Inr i)"

function chunk_loop :: "string \<Rightarrow> nat \<Rightarrow> wav_info \<Rightarrow> wav_info result" where
  "chunk_loop buf p i =
     (if p + 8 \<le> length buf then
        (case rd32 buf (p + 4) of Inl e \<Rightarrow> Inl e | Inr sz \<Rightarrow>
        (case chunk buf p sz i of Inl e \<Rightarrow> Inl e | Inr i' \<Rightarrow>
           chunk_loop buf (p + 8 + unat sz + unat (sz AND 1)) i'))
      else Inr i)"
  by pat_completeness auto
termination by (relation "measure (\<lambda>(buf, p, i). length buf - p)") auto

declare chunk_loop.simps [simp del]

section \<open>The samples\<close>

fun read_samples :: "string \<Rightarrow> nat \<Rightarrow> bool \<Rightarrow> nat \<Rightarrow> 16 word list result" where
  "read_samples buf off dup 0 = Inr []"
| "read_samples buf off dup (Suc n) =
     (case rd16 buf off of Inl e \<Rightarrow> Inl e | Inr s \<Rightarrow>
     (case read_samples buf (off + 2) dup n of Inl e \<Rightarrow> Inl e | Inr xs \<Rightarrow>
        Inr (s # (if dup then s # xs else xs))))"

definition not_riff :: string where
  "not_riff = ''not a RIFF/WAVE file''"

definition not_pcm :: string where
  "not_pcm = ''need 16-bit pcm, mono or stereo. convert with'' @ [CHR 0x0A]
     @ ''  ffmpeg -i in.mp3 -ac 2 -ar 44100 -c:a pcm_s16le out.wav''"

text \<open>Returning \<open>false\<close> is \<open>Inl\<close> with the error text; the file's contents are the argument.\<close>

definition loadWav :: "string \<Rightarrow> (string + 16 word list \<times> 32 word) result" where
  "loadWav buf =
     (if length buf < 12 \<or> \<not> tag_at buf 0 ''RIFF'' \<or> \<not> tag_at buf 8 ''WAVE'' then Inr (Inl not_riff)
      else (case chunk_loop buf 12 no_chunks of Inl e \<Rightarrow> Inl e | Inr i \<Rightarrow>
        if w_format i \<noteq> 1 \<or> w_bits i \<noteq> 16 \<or> w_channels i < 1 \<or> 2 < w_channels i \<or> w_rate i = 0 \<or> w_dataOff i = 0
        then Inr (Inl not_pcm)
        else (case read_samples buf (w_dataOff i) (w_channels i = 1) (w_dataLen i div 2) of Inl e \<Rightarrow> Inl e
          | Inr out \<Rightarrow> Inr (Inr (out, w_rate i)))))"

text \<open>The tone: \<open>tone i\<close> is the \<open>i\<close>-th value of the sine, computed in doubles.\<close>

definition makeTone :: "(nat \<Rightarrow> 16 word) \<Rightarrow> 16 word list \<times> 32 word" where
  "makeTone tone = (concat (map (\<lambda>i. [tone i, tone i]) [0..<44100 * 10]), 44100)"

section \<open>No read leaves the file\<close>

definition chunk_inv :: "string \<Rightarrow> wav_info \<Rightarrow> bool" where
  "chunk_inv buf i \<longleftrightarrow> w_dataOff i + w_dataLen i \<le> length buf"

lemma read_fmt_safe:
  "body + 16 \<le> length buf \<Longrightarrow> chunk_inv buf i \<Longrightarrow> \<exists>i'. read_fmt buf body i = Inr i' \<and> chunk_inv buf i'"
  by (simp add: read_fmt_def rd16_def rd32_def chunk_inv_def)

lemma chunk_safe:
  "p + 8 \<le> length buf \<Longrightarrow> chunk_inv buf i \<Longrightarrow> \<exists>i'. chunk buf p sz i = Inr i' \<and> chunk_inv buf i'"
  using read_fmt_safe [of "p + 8" buf i] by (auto simp: chunk_def Let_def) (auto simp: chunk_inv_def)

lemma chunk_loop_safe: "chunk_inv buf i \<Longrightarrow> \<exists>i'. chunk_loop buf p i = Inr i' \<and> chunk_inv buf i'"
proof (induction buf p i rule: chunk_loop.induct)
  case (1 buf p i)
  show ?case
  proof (cases "p + 8 \<le> length buf")
    case True
    then obtain sz where s: "rd32 buf (p + 4) = Inr sz" by (simp add: rd32_def)
    obtain i' where i: "chunk buf p sz i = Inr i'" "chunk_inv buf i'" using chunk_safe [OF True 1(2)] by blast
    show ?thesis using 1(1) [OF True s i(1) i(2)] True s i by (simp add: chunk_loop.simps [of buf p])
  qed (use 1 in \<open>simp add: chunk_loop.simps [of buf p]\<close>)
qed

lemma read_samples_safe:
  "off + 2 * n \<le> length buf \<Longrightarrow> \<exists>xs. read_samples buf off dup n = Inr xs \<and> length xs = (if dup then 2 * n else n)"
proof (induction n arbitrary: off)
  case (Suc n)
  obtain xs where x: "read_samples buf (off + 2) dup n = Inr xs" "length xs = (if dup then 2 * n else n)"
    using Suc.IH [of "off + 2"] Suc.prems by auto
  show ?case using x Suc.prems by (simp add: rd16_def)
qed simp

lemma dataLen_bound: "chunk_inv buf i \<Longrightarrow> w_dataOff i + 2 * (w_dataLen i div 2) \<le> length buf"
  by (simp add: chunk_inv_def) 

lemma loadWav_ok:
  "case loadWav buf of Inl e \<Rightarrow> False | Inr (Inl err) \<Rightarrow> err = not_riff \<or> err = not_pcm
   | Inr (Inr (out, rate)) \<Rightarrow> rate \<noteq> 0 \<and> length out \<le> length buf"
proof -
  have "chunk_inv buf no_chunks" by (simp add: chunk_inv_def no_chunks_def)
  then obtain i where i: "chunk_loop buf 12 no_chunks = Inr i" "chunk_inv buf i" using chunk_loop_safe by blast
  obtain xs where x: "read_samples buf (w_dataOff i) (w_channels i = 1) (w_dataLen i div 2) = Inr xs"
    "length xs \<le> 2 * (w_dataLen i div 2)"
    using read_samples_safe [OF dataLen_bound [OF i(2)], of "w_channels i = 1"] by (auto split: if_splits)
  have "length xs \<le> length buf" using x(2) dataLen_bound [OF i(2)] by simp
  then show ?thesis using i(1) x(1) by (simp add: loadWav_def)
qed

lemma loadWav_total: "\<exists>x. loadWav buf = Inr x"
  using loadWav_ok [of buf] by (cases "loadWav buf") simp_all

text \<open>
  C36. Loading a WAV file reads nothing outside the file and ends, whatever the bytes are: chunk
  sizes that lie, a truncated header, no data. Either an error text comes back, or a sample rate
  that is not 0 and at most as many samples as the file has bytes.
\<close>

theorem loadWav_safe:
  "case loadWav buf of Inl e \<Rightarrow> False | Inr (Inl err) \<Rightarrow> err = not_riff \<or> err = not_pcm
   | Inr (Inr (out, rate)) \<Rightarrow> rate \<noteq> 0 \<and> length out \<le> length buf"
  by (rule loadWav_ok)

section \<open>What a writer of WAV files stores comes back\<close>

lemma le_nat_le_bytes: "le_nat (le_bytes n w) = unat w mod 256 ^ n"
proof (induction n)
  case (Suc n)
  have "le_nat (xs @ [b]) = le_nat xs + 256 ^ length xs * unat b" for xs b
    by (induction xs) (simp_all add: algebra_simps)
  moreover have "le_bytes (Suc n) w = le_bytes n w @ [ucast (drop_bit (8 * n) w)]" by (simp add: le_bytes_def)
  moreover have "unat (ucast (drop_bit (8 * n) w) :: byte) = unat w div 256 ^ n mod 256"
    by (simp add: unsigned_ucast_eq take_bit_eq_mod unat_shr power_mult)
  ultimately show ?case using Suc mod_mult2_eq [of "unat w" "256 ^ n" 256] by (simp add: mult.commute)
qed (simp add: le_bytes_def)

lemma le_nat_word: "256 ^ n = (2::nat) ^ LENGTH('a) \<Longrightarrow> le_nat (le_bytes n w) = unat (w :: 'a::len word)"
  using unsigned_less [of w] by (simp add: le_nat_le_bytes)

definition le16 :: "16 word \<Rightarrow> string" where
  "le16 w = toStr (le_bytes 2 w)"

definition le32 :: "32 word \<Rightarrow> string" where
  "le32 w = toStr (le_bytes 4 w)"

lemma length_le [simp]: "length (le16 w) = 2" "length (le32 v) = 4"
  by (simp_all add: le16_def le32_def)

lemma rd_here:
  "length pre = p \<Longrightarrow> rd16 (pre @ le16 w @ post) p = Inr w"
  "length pre = p \<Longrightarrow> rd32 (pre @ le32 v @ post) p = Inr v"
  by (auto simp: rd16_def rd32_def le16_def le32_def le_nat_word)

definition wav_chunk :: "string \<times> string \<Rightarrow> string" where
  "wav_chunk c = fst c @ le32 (of_nat (length (snd c))) @ snd c @ (if odd (length (snd c)) then [CHR 0x00] else [])"

definition fmt_body :: "bool \<Rightarrow> 32 word \<Rightarrow> string" where
  "fmt_body dup rate =
     (let channels = (if dup then 1 else 2 :: nat)
      in le16 1 @ le16 (of_nat channels) @ le32 rate @ le32 (of_nat (2 * channels) * rate)
         @ le16 (of_nat (2 * channels)) @ le16 16)"

definition pcm_body :: "16 word list \<Rightarrow> string" where
  "pcm_body samples = concat (map le16 samples)"

definition wav_file :: "bool \<Rightarrow> 32 word \<Rightarrow> (string \<times> string) list \<Rightarrow> (string \<times> string) list \<Rightarrow> (string \<times> string) list \<Rightarrow> 16 word list \<Rightarrow> string" where
  "wav_file dup rate pre mid post samples =
     (let chunks = concat (map wav_chunk (pre @ [(''fmt '', fmt_body dup rate)] @ mid @ [(''data'', pcm_body samples)] @ post))
      in ''RIFF'' @ le32 (of_nat (length chunks + 4)) @ ''WAVE'' @ chunks)"

definition other_chunk :: "string \<times> string \<Rightarrow> bool" where
  "other_chunk c \<longleftrightarrow> length (fst c) = 4 \<and> fst c \<noteq> ''fmt '' \<and> fst c \<noteq> ''data'' \<and> length (snd c) < 2 ^ 32"

lemma unat_low_bit: "unat (w AND 1) = unat w mod 2" for w :: "32 word"
  by (simp add: and_one_eq unat_mod)

lemma chunk_loop_at:
  assumes "length pre = p" and "length (fst c) = 4" and "length (snd c) < 2 ^ 32"
  shows "chunk_loop (pre @ wav_chunk c @ post) p i =
    (case chunk (pre @ wav_chunk c @ post) p (of_nat (length (snd c))) i of
       Inl e \<Rightarrow> Inl e | Inr i' \<Rightarrow> chunk_loop (pre @ wav_chunk c @ post) (length (pre @ wav_chunk c)) i')"
proof -
  let ?w = "of_nat (length (snd c)) :: 32 word"
  have u: "unat ?w = length (snd c)" using assms(3) by (intro unat_word_of_nat) simp
  have e: "p + 8 + unat ?w + unat (?w AND 1) = length (pre @ wav_chunk c)"
    using assms(1,2) u by (auto simp: wav_chunk_def unat_low_bit odd_iff_mod_2_eq_one)
  have "rd32 ((pre @ fst c) @ le32 ?w @ (snd c @ (if odd (length (snd c)) then [CHR 0x00] else []) @ post)) (p + 4) = Inr ?w"
    using assms(1,2) by (intro rd_here) simp
  then have r: "rd32 (pre @ wav_chunk c @ post) (p + 4) = Inr ?w" by (simp add: wav_chunk_def)
  have "p + 8 \<le> length (pre @ wav_chunk c @ post)" using assms(1,2) by (simp add: wav_chunk_def)
  then show ?thesis using r e by (simp add: chunk_loop.simps [of _ p] del: length_append split: sum.split)
qed

lemma tag_here: "length pre = p \<Longrightarrow> length (fst c) = 4 \<Longrightarrow> tag_at (pre @ wav_chunk c @ post) p t \<longleftrightarrow> fst c = t"
  by (simp add: tag_at_def wav_chunk_def)

lemma others_skipped:
  "\<forall>c \<in> set cs. other_chunk c \<Longrightarrow>
   chunk_loop (pre @ concat (map wav_chunk cs) @ post) (length pre) i =
   chunk_loop (pre @ concat (map wav_chunk cs) @ post) (length (pre @ concat (map wav_chunk cs))) i"
proof (induction cs arbitrary: pre)
  case (Cons c cs)
  have c: "length (fst c) = 4" "fst c \<noteq> ''fmt ''" "fst c \<noteq> ''data''" "length (snd c) < 2 ^ 32"
    using Cons.prems by (simp_all add: other_chunk_def)
  show ?case
    using chunk_loop_at [OF refl c(1,4), of pre "concat (map wav_chunk cs) @ post" i] c
      tag_here [OF refl c(1), of pre "concat (map wav_chunk cs) @ post"] Cons.IH [of "pre @ wav_chunk c"] Cons.prems
    by (simp add: chunk_def)
qed simp

lemma length_fmt_body [simp]: "length (fmt_body dup rate) = 16"
  by (simp add: fmt_body_def Let_def)

lemma read_fmt_here:
  assumes "length pre = body"
  shows "read_fmt (pre @ fmt_body dup rate @ post) body i =
    Inr (i\<lparr>w_format := 1, w_channels := (if dup then 1 else 2), w_rate := rate, w_bits := 16\<rparr>)"
proof -
  obtain a b c where b: "fmt_body dup rate = le16 1 @ le16 (if dup then 1 else 2) @ le32 rate @ le32 a @ le16 b @ le16 16"
    by (cases dup) (simp_all add: fmt_body_def Let_def)
  have "rd16 (pre @ le16 1 @ t) body = Inr 1" "rd16 ((pre @ le16 1) @ le16 ch @ t) (body + 2) = Inr ch"
    "rd32 ((pre @ le16 1 @ le16 ch) @ le32 rate @ t) (body + 4) = Inr rate"
    "rd16 ((pre @ le16 1 @ le16 ch @ le32 rate @ le32 a @ le16 b) @ le16 16 @ t) (body + 14) = Inr 16" for ch t
    using assms by (intro rd_here; simp)+
  then show ?thesis by (simp add: read_fmt_def b)
qed

lemma read_samples_here:
  "length pre = off \<Longrightarrow> read_samples (pre @ pcm_body xs @ post) off dup (length xs) =
     Inr (if dup then concat (map (\<lambda>s. [s, s]) xs) else xs)"
proof (induction xs arbitrary: pre off)
  case (Cons x xs)
  have "rd16 (pre @ le16 x @ (pcm_body xs @ post)) off = Inr x" using Cons.prems by (intro rd_here)
  then show ?case using Cons.IH [of "pre @ le16 x" "off + 2"] Cons.prems by (simp add: pcm_body_def)
qed simp

lemma length_pcm_body [simp]: "length (pcm_body xs) = 2 * length xs"
  by (simp add: pcm_body_def length_concat_map_const)

text \<open>The two chunks that count, wherever they stand.\<close>

lemma fmt_chunk:
  "length pre = p \<Longrightarrow> chunk_loop (pre @ wav_chunk (''fmt '', fmt_body dup rate) @ post) p i =
     chunk_loop (pre @ wav_chunk (''fmt '', fmt_body dup rate) @ post) (length (pre @ wav_chunk (''fmt '', fmt_body dup rate)))
       (i\<lparr>w_format := 1, w_channels := (if dup then 1 else 2), w_rate := rate, w_bits := 16\<rparr>)"
  using chunk_loop_at [of pre p "(''fmt '', fmt_body dup rate)" post i]
    tag_here [of pre p "(''fmt '', fmt_body dup rate)" post]
    read_fmt_here [of "pre @ ''fmt '' @ le32 16" "p + 8" dup rate post i]
  by (cases dup; simp add: chunk_def; simp add: wav_chunk_def)

lemma data_chunk:
  "length pre = p \<Longrightarrow> 2 * length xs < 2 ^ 32 \<Longrightarrow> chunk_loop (pre @ wav_chunk (''data'', pcm_body xs) @ post) p i =
     chunk_loop (pre @ wav_chunk (''data'', pcm_body xs) @ post) (length (pre @ wav_chunk (''data'', pcm_body xs)))
       (i\<lparr>w_dataOff := p + 8, w_dataLen := 2 * length xs\<rparr>)"
  using chunk_loop_at [of pre p "(''data'', pcm_body xs)" post i]
    tag_here [of pre p "(''data'', pcm_body xs)" post] unat_word_of_nat [of "2 * length xs", where 'a = 32]
  by (simp add: chunk_def) (simp add: wav_chunk_def)

definition wav_parts :: "string \<Rightarrow> bool \<Rightarrow> 32 word \<Rightarrow> (string \<times> string) list \<Rightarrow> (string \<times> string) list \<Rightarrow> (string \<times> string) list \<Rightarrow> 16 word list \<Rightarrow> string" where
  "wav_parts A dup rate pre mid post samples = A @ concat (map wav_chunk pre) @ wav_chunk (''fmt '', fmt_body dup rate)
     @ concat (map wav_chunk mid) @ wav_chunk (''data'', pcm_body samples) @ concat (map wav_chunk post)"

lemma wav_parts_loop:
  assumes "2 * length samples < 2 ^ 32" and "\<forall>c \<in> set pre \<union> set mid \<union> set post. other_chunk c"
  shows "\<exists>before after. wav_parts A dup rate pre mid post samples = before @ pcm_body samples @ after \<and> before \<noteq> []
    \<and> chunk_loop (wav_parts A dup rate pre mid post samples) (length A) i = Inr (i\<lparr>w_format := 1,
        w_channels := (if dup then 1 else 2), w_rate := rate, w_bits := 16,
        w_dataOff := length before, w_dataLen := 2 * length samples\<rparr>)"
proof -
  define F where "F = A @ concat (map wav_chunk pre)"
  define M where "M = F @ wav_chunk (''fmt '', fmt_body dup rate)"
  define D where "D = M @ concat (map wav_chunk mid)"
  define P where "P = D @ wav_chunk (''data'', pcm_body samples)"
  note parts = F_def M_def D_def P_def
  define buf where "buf = wav_parts A dup rate pre mid post samples"
  define i1 where "i1 = i\<lparr>w_format := 1, w_channels := (if dup then 1 else 2), w_rate := rate, w_bits := 16\<rparr>"
  define i2 where "i2 = i1\<lparr>w_dataOff := length D + 8, w_dataLen := 2 * length samples\<rparr>"
  have others: "\<forall>c \<in> set pre. other_chunk c" "\<forall>c \<in> set mid. other_chunk c" "\<forall>c \<in> set post. other_chunk c"
    using assms(2) by auto
  have "chunk_loop buf (length A) i = chunk_loop buf (length F) i"
    using others_skipped [OF others(1), of A _ i] by (simp add: buf_def wav_parts_def parts)
  also have "\<dots> = chunk_loop buf (length M) i1"
    using fmt_chunk [of F "length F" dup rate _ i] by (simp add: buf_def wav_parts_def parts i1_def)
  also have "\<dots> = chunk_loop buf (length D) i1"
    using others_skipped [OF others(2), of M _ i1] by (simp add: buf_def wav_parts_def parts)
  also have "\<dots> = chunk_loop buf (length P) i2"
    using data_chunk [of D "length D" samples _ i1] assms(1) by (simp add: buf_def wav_parts_def parts i2_def)
  also have "\<dots> = chunk_loop buf (length buf) i2"
    using others_skipped [OF others(3), of P "[]" i2] by (simp add: buf_def wav_parts_def parts)
  also have "\<dots> = Inr i2" by (simp add: chunk_loop.simps)
  finally have l: "chunk_loop buf (length A) i = Inr i2" .
  define X where "X = D @ ''data'' @ le32 (of_nat (2 * length samples))"
  have "buf = X @ pcm_body samples @ concat (map wav_chunk post)"
    by (simp add: buf_def wav_parts_def parts X_def wav_chunk_def)
  with l show ?thesis by (intro exI [of _ X] exI) (auto simp: buf_def i1_def i2_def X_def)
qed

lemma loadWav_stored:
  assumes "rate \<noteq> 0" and "2 * length samples < 2 ^ 32"
    and "\<forall>c \<in> set pre \<union> set mid \<union> set post. other_chunk c"
  shows "loadWav (wav_file dup rate pre mid post samples) =
    Inr (Inr (if dup then concat (map (\<lambda>s. [s, s]) samples) else samples, rate))"
proof -
  obtain A where A: "wav_file dup rate pre mid post samples = wav_parts A dup rate pre mid post samples" "length A = 12"
    "tag_at (wav_parts A dup rate pre mid post samples) 0 ''RIFF''" "tag_at (wav_parts A dup rate pre mid post samples) 8 ''WAVE''"
    by (simp add: wav_file_def Let_def wav_parts_def tag_at_def)
  obtain before after where b: "wav_parts A dup rate pre mid post samples = before @ pcm_body samples @ after" "before \<noteq> []"
    and l: "chunk_loop (wav_parts A dup rate pre mid post samples) 12 no_chunks = Inr (no_chunks\<lparr>w_format := 1,
        w_channels := (if dup then 1 else 2), w_rate := rate, w_bits := 16,
        w_dataOff := length before, w_dataLen := 2 * length samples\<rparr>)"
    using wav_parts_loop [OF assms(2,3), of A dup rate no_chunks] A(2) by auto
  have "\<not> length (wav_parts A dup rate pre mid post samples) < 12" using A(2) by (simp add: wav_parts_def)
  moreover have "read_samples (wav_parts A dup rate pre mid post samples) (length before) dup (length samples) =
      Inr (if dup then concat (map (\<lambda>s. [s, s]) samples) else samples)"
    using read_samples_here [of before _ samples after dup, OF refl] by (simp add: b(1))
  ultimately show ?thesis
    using A l assms(1) b(2) by (cases dup) (simp_all add: loadWav_def)
qed

text \<open>
  C37. Whatever a writer of 16-bit PCM stores is what \<open>loadWav\<close> gives back: the samples as they
  are for a stereo file, each twice for a mono file, and the sample rate; other chunks before,
  between or after the format and the data, of odd length too, make no difference.
\<close>

theorem loadWav_roundtrip:
  assumes "rate \<noteq> 0" and "2 * length samples < 2 ^ 32"
    and "\<forall>c \<in> set pre \<union> set mid \<union> set post. other_chunk c"
  shows "loadWav (wav_file dup rate pre mid post samples) =
    Inr (Inr (if dup then concat (map (\<lambda>s. [s, s]) samples) else samples, rate))"
  using assms by (rule loadWav_stored)

theorem loadWav_roundtrip_witness:
  "loadWav (wav_file True 8000 [(''LIST'', ''abc'')] [] [] [1, - 2]) = Inr (Inr ([1, 1, - 2, - 2], 8000))"
  using loadWav_roundtrip [of 8000 "[1, - 2]" "[(''LIST'', ''abc'')]" "[]" "[]" True] by (simp add: other_chunk_def)

end
