(* ===== verification/Airplay_Send.thy ===== *)
theory Airplay_Send
  imports Wav_File Sender_State
begin

text \<open>
  The rest of the example program \<open>src/example/airplay_send.cpp\<close> that runs without the loop: the
  command line, the producer thread that keeps the ring topped up, and the calls that configure
  the sender. What it prints is not modelled.
\<close>

section \<open>The command line\<close>

text \<open>
  \<open>std::atoi\<close>: leading white space, a sign, digits; the behaviour is undefined when the value
  is no \<open>int\<close>. \<open>std::atof\<close> is a parameter, its doubles rationals.
\<close>

fun leading_digits :: "string \<Rightarrow> int \<Rightarrow> int" where
  "leading_digits [] v = v"
| "leading_digits (c # cs) v = (if is_digit c then leading_digits cs (10 * v + digit_val c) else v)"

definition is_space :: "char \<Rightarrow> bool" where
  "is_space c \<longleftrightarrow> c \<in> {CHR '' '', CHR 0x09, CHR 0x0A, CHR 0x0B, CHR 0x0C, CHR 0x0D}"

definition atoi :: "string \<Rightarrow> int result" where
  "atoi str =
     (let t = dropWhile is_space str;
          n = (case t of [] \<Rightarrow> 0
               | c # cs \<Rightarrow> if c = CHR ''-'' then - leading_digits cs 0
                           else if c = CHR ''+'' then leading_digits cs 0 else leading_digits t 0)
      in if - (2 ^ 31) \<le> n \<and> n < 2 ^ 31 then Inr n else Inl (Exception ''atoi: undefined''))"

record config =
  c_host :: string
  c_wav :: string
  c_name :: string
  c_credsPath :: string
  c_port :: "16 word"
  c_volume :: rat
  c_strict :: bool
  c_quiet :: bool
  c_auth :: auth
  c_airplay2 :: bool

definition default_config :: config where
  "default_config = \<lparr>c_host = [], c_wav = [], c_name = ''airplay-send'', c_credsPath = [], c_port = 7000,
     c_volume = 50, c_strict = False, c_quiet = False, c_auth = Auth_HapPin, c_airplay2 = True\<rparr>"

datatype outcome = Exit int | Go config

text \<open>The loop over \<open>argv\<close>; an option that takes a value consumes the next argument.\<close>

function parse_args :: "(string \<Rightarrow> rat) \<Rightarrow> string list \<Rightarrow> config \<Rightarrow> outcome result" where
  "parse_args atof [] c = Inr (Go c)"
| "parse_args atof (a # as) c =
     (if a = ''--atv'' then parse_args atof as (c\<lparr>c_auth := Auth_HapPin, c_airplay2 := True\<rparr>)
      else if a = ''--mac'' \<or> a = ''--homepod'' then parse_args atof as (c\<lparr>c_auth := Auth_HapTransient, c_airplay2 := True\<rparr>)
      else if a = ''--ap1'' then parse_args atof as (c\<lparr>c_auth := Auth_None, c_airplay2 := False\<rparr>)
      else if a = ''--port'' \<or> a = ''--name'' \<or> a = ''--volume'' \<or> a = ''--creds'' then
        (if as = [] then Inr (Exit 2)
         else if a = ''--port'' then
           (case atoi (hd as) of Inl e \<Rightarrow> Inl e
            | Inr n \<Rightarrow> parse_args atof (tl as) (c\<lparr>c_port := of_int n\<rparr>))
         else if a = ''--name'' then parse_args atof (tl as) (c\<lparr>c_name := hd as\<rparr>)
         else if a = ''--volume'' then parse_args atof (tl as) (c\<lparr>c_volume := atof (hd as)\<rparr>)
         else parse_args atof (tl as) (c\<lparr>c_credsPath := hd as\<rparr>))
      else if a = ''--strict'' then parse_args atof as (c\<lparr>c_strict := True\<rparr>)
      else if a = ''--quiet'' then parse_args atof as (c\<lparr>c_quiet := True\<rparr>)
      else if a = ''--help'' \<or> a = ''-h'' then Inr (Exit 0)
      else if a \<noteq> [] \<and> hd a = CHR ''-'' then Inr (Exit 2)
      else if c_host c = [] then parse_args atof as (c\<lparr>c_host := a\<rparr>)
      else if c_wav c = [] then parse_args atof as (c\<lparr>c_wav := a\<rparr>)
      else Inr (Exit 2))"
  by pat_completeness auto
termination by (relation "measure (\<lambda>(_, as, _). length as)") (auto simp: length_tl)

definition command_line :: "(string \<Rightarrow> rat) \<Rightarrow> string list \<Rightarrow> outcome result" where
  "command_line atof args =
     (case parse_args atof args default_config of
        Inr (Go c) \<Rightarrow>
          if c_host c = [] then Inr (Exit 2)
          else Inr (Go (if c_credsPath c = [] then c\<lparr>c_credsPath := ''airplay_creds_'' @ c_host c @ ''.json''\<rparr> else c))
      | r \<Rightarrow> r)"

section \<open>What the command line means\<close>

text \<open>Authentication and transport belong together; no mode is the AirPort Express one.\<close>

definition mode_ok :: "config \<Rightarrow> bool" where
  "mode_ok c \<longleftrightarrow> (c_auth c, c_airplay2 c) \<in> {(Auth_HapPin, True), (Auth_HapTransient, True), (Auth_None, False)}"

definition parsed_ok :: "outcome result \<Rightarrow> bool" where
  "parsed_ok r = (case r of Inl e \<Rightarrow> True | Inr (Exit n) \<Rightarrow> n = 0 \<or> n = 2 | Inr (Go c) \<Rightarrow> mode_ok c)"

lemma parsed_ok_simps [simp]:
  "parsed_ok (Inl e)" "parsed_ok (Inr (Exit n)) = (n = 0 \<or> n = 2)" "parsed_ok (Inr (Go c)) = mode_ok c"
  by (simp_all add: parsed_ok_def)

lemma mode_ok_fields [simp]:
  "mode_ok (c_host_update f1 c) = mode_ok c" "mode_ok (c_wav_update f2 c) = mode_ok c" "mode_ok (c_name_update f3 c) = mode_ok c"
  "mode_ok (c_credsPath_update f4 c) = mode_ok c" "mode_ok (c_port_update f5 c) = mode_ok c" "mode_ok (c_volume_update f6 c) = mode_ok c"
  "mode_ok (c_strict_update f7 c) = mode_ok c" "mode_ok (c_quiet_update f8 c) = mode_ok c"
  by (simp_all add: mode_ok_def)

lemma mode_ok_modes [simp]:
  "mode_ok (c\<lparr>c_auth := Auth_HapPin, c_airplay2 := True\<rparr>)" "mode_ok (c\<lparr>c_auth := Auth_HapTransient, c_airplay2 := True\<rparr>)"
  "mode_ok (c\<lparr>c_auth := Auth_None, c_airplay2 := False\<rparr>)"
  by (simp_all add: mode_ok_def)

lemma parse_args_ok: "mode_ok c \<Longrightarrow> parsed_ok (parse_args atof args c)"
proof (induction atof args c rule: parse_args.induct)
  case (2 atof a as c)
  show ?case using 2 by (cases "a = []"; cases "atoi (hd as)"; simp)
qed simp


lemma command_line_mode: "command_line atof args = Inr (Go c) \<Longrightarrow> mode_ok c"
proof -
  have "parsed_ok (parse_args atof args default_config)"
    by (rule parse_args_ok) (simp add: default_config_def mode_ok_def)
  then show "command_line atof args = Inr (Go c) \<Longrightarrow> mode_ok c"
    by (auto simp: command_line_def parsed_ok_def split: sum.splits outcome.splits if_splits)
qed

text \<open>A port is cut to 16 bits.\<close>

lemma port_wraps:
  "parse_args atof [''--port'', ''70000'', ''10.0.0.5''] default_config =
     Inr (Go (default_config\<lparr>c_port := 4464, c_host := ''10.0.0.5''\<rparr>))"
  by (simp add: atoi_def is_space_def is_digit_def digit_val_def default_config_def)

section \<open>The producer\<close>

definition kChunk :: nat where "kChunk = 4096"

text \<open>One chunk: \<open>x = samples[pos]; if (++pos >= samples.size()) pos = 0;\<close>\<close>

fun fill_chunk :: "16 word list \<Rightarrow> nat \<Rightarrow> nat \<Rightarrow> (16 word list \<times> nat) result" where
  "fill_chunk samples 0 pos = Inr ([], pos)"
| "fill_chunk samples (Suc k) pos =
     (if length samples \<le> pos then Inl Out_of_bounds
      else case fill_chunk samples k (if length samples \<le> pos + 1 then 0 else pos + 1) of
             Inl e \<Rightarrow> Inl e
           | Inr (xs, p) \<Rightarrow> Inr (samples ! pos # xs, p))"

definition produce :: "16 word list \<Rightarrow> nat \<times> 16 word RingBuffer \<Rightarrow> (nat \<times> 16 word RingBuffer) result" where
  "produce samples pr =
     (let (pos, r) = pr
      in if kChunk \<le> unat (availableWrite r) then
           (case fill_chunk samples kChunk pos of
              Inl e \<Rightarrow> Inl e
            | Inr (xs, p) \<Rightarrow> Inr (p, case tryPush r xs of None \<Rightarrow> r | Some r' \<Rightarrow> r'))
         else Inr (pos, r))"

text \<open>The producer's rounds and the sender's reads of the ring, in any order.\<close>

datatype feed = Produce | Consume nat

fun feed_ring :: "16 word list \<Rightarrow> feed list \<Rightarrow> nat \<times> 16 word RingBuffer \<Rightarrow> (16 word list \<times> nat \<times> 16 word RingBuffer) result" where
  "feed_ring samples [] pr = Inr ([], pr)"
| "feed_ring samples (Produce # fs) pr =
     (case produce samples pr of Inl e \<Rightarrow> Inl e | Inr pr' \<Rightarrow> feed_ring samples fs pr')"
| "feed_ring samples (Consume n # fs) (pos, r) =
     (case tryPop r n of
        None \<Rightarrow> feed_ring samples fs (pos, r)
      | Some (xs, r') \<Rightarrow> (case feed_ring samples fs (pos, r') of
          Inl e \<Rightarrow> Inl e
        | Inr (out, pr') \<Rightarrow> Inr (xs @ out, pr')))"

section \<open>What reaches the sender\<close>

text \<open>The audio played round and round: \<open>n\<close> samples from \<open>pos\<close> on.\<close>

definition looped :: "16 word list \<Rightarrow> nat \<Rightarrow> nat \<Rightarrow> 16 word list" where
  "looped samples pos n = map (\<lambda>i. samples ! ((pos + i) mod length samples)) [0..<n]"

lemma looped_0 [simp]: "looped samples pos 0 = []"
  by (simp add: looped_def)

lemma looped_add: "looped samples pos m @ looped samples ((pos + m) mod length samples) n = looped samples pos (m + n)"
proof -
  have "looped samples ((pos + m) mod length samples) n = map (\<lambda>i. samples ! ((pos + i) mod length samples)) [m..<m + n]"
    unfolding looped_def
    by (rule nth_equalityI) (simp_all add: mod_simps add.assoc)
  then show ?thesis using upt_add_eq_append [of 0 m n] by (simp add: looped_def)
qed

lemma fill_chunk_looped:
  "pos < length samples \<Longrightarrow> fill_chunk samples k pos = Inr (looped samples pos k, (pos + k) mod length samples)"
proof (induction k arbitrary: pos)
  case (Suc k)
  have n: "(if length samples \<le> pos + 1 then 0 else pos + 1) = (pos + 1) mod length samples"
    using Suc.prems by (auto simp: le_Suc_eq mod_if)
  have p: "(pos + 1) mod length samples < length samples" using Suc.prems by (cases samples) auto
  have "looped samples pos (Suc k) = samples ! pos # looped samples ((pos + 1) mod length samples) k"
    using looped_add [of samples pos 1 k] Suc.prems by (simp add: looped_def)
  then show ?case using Suc.IH [OF p] Suc.prems n by (simp add: mod_simps)
qed simp

lemma produce_looped:
  assumes "pos < length samples" and "ring_inv r"
  shows "\<exists>n r'. produce samples (pos, r) = Inr ((pos + n) mod length samples, r') \<and> ring_inv r' \<and> ring_cap r' = ring_cap r
    \<and> ring_contents r' = ring_contents r @ looped samples pos n \<and> (n = 0 \<or> n = kChunk)"
proof (cases "kChunk \<le> unat (availableWrite r)")
  case False
  then show ?thesis using assms by (intro exI [of _ 0] exI [of _ r]) (simp add: produce_def)
next
  case True
  have f: "fill_chunk samples kChunk pos = Inr (looped samples pos kChunk, (pos + kChunk) mod length samples)"
    using assms(1) by (rule fill_chunk_looped)
  have l: "length (looped samples pos kChunk) = kChunk" by (simp add: looped_def)
  have "tryPush r (looped samples pos kChunk) \<noteq> None"
    using True l by (simp add: tryPush_def availableWrite_def availableRead_def Let_def)
  then obtain r' where r: "tryPush r (looped samples pos kChunk) = Some r'" by blast
  show ?thesis
    using f True r ring.push_done [OF assms(2) r] by (intro exI [of _ kChunk] exI [of _ r']) (simp add: produce_def)
qed

lemma feed_ring_looped:
  "pos < length samples \<Longrightarrow> ring_inv r \<Longrightarrow>
   \<exists>n out r'. feed_ring samples fs (pos, r) = Inr (out, (pos + n) mod length samples, r') \<and> ring_inv r'
     \<and> ring_contents r @ looped samples pos n = out @ ring_contents r'"
proof (induction fs arbitrary: pos r)
  case Nil
  then show ?case by (intro exI [of _ 0]) simp
next
  case (Cons f fs)
  show ?case
  proof (cases f)
    case Produce
    obtain m r1 where p: "produce samples (pos, r) = Inr ((pos + m) mod length samples, r1)" "ring_inv r1"
      "ring_contents r1 = ring_contents r @ looped samples pos m"
      using produce_looped [OF Cons.prems] by blast
    have "(pos + m) mod length samples < length samples" using Cons.prems(1) by (cases samples) auto
    from Cons.IH [OF this p(2)] obtain n out r' where
      q: "feed_ring samples fs ((pos + m) mod length samples, r1) = Inr (out, ((pos + m) mod length samples + n) mod length samples, r')"
        "ring_inv r'" "ring_contents r1 @ looped samples ((pos + m) mod length samples) n = out @ ring_contents r'" by blast
    show ?thesis
      using p q looped_add [of samples pos m n] Produce
      by (intro exI [of _ "m + n"] exI [of _ out] exI [of _ r']) (simp add: mod_simps add.assoc)
  next
    case (Consume k)
    show ?thesis
    proof (cases "tryPop r k")
      case None
      with Cons Consume show ?thesis by simp
    next
      case (Some p)
      obtain xs r1 where p: "p = (xs, r1)" by fastforce
      have d: "ring_inv r1" "xs @ ring_contents r1 = ring_contents r"
        using ring.pop_done [OF Cons.prems(2), of k xs r1] Some p by simp_all
      from Cons.IH [OF Cons.prems(1) d(1)] obtain n out r' where
        q: "feed_ring samples fs (pos, r1) = Inr (out, (pos + n) mod length samples, r')" "ring_inv r'"
          "ring_contents r1 @ looped samples pos n = out @ ring_contents r'" by blast
      show ?thesis
        using q d(2) [symmetric] Some p Consume
        by (intro exI [of _ n] exI [of _ "xs @ out"] exI [of _ r']) simp
    qed
  qed
qed

definition new_ring :: "16 word RingBuffer" where
  "new_ring = ring_new TYPE(16 word) 0x80000"

lemma new_ring: "ring_inv new_ring" "ring_contents new_ring = []"
  unfolding new_ring_def by (rule ring_new_inv; simp)+

text \<open>
  C38. The sender hears the file played round and round: whatever the order in which the producer
  thread tops the ring up and the sender reads it, no read of the samples is out of bounds, no
  chunk is refused or lost, and what was read, followed by what is still in the ring, is the
  file's samples repeated from the start without a gap.
\<close>

theorem producer_stream:
  assumes "samples \<noteq> []"
  shows "\<exists>n out pos r. feed_ring samples fs (0, new_ring) = Inr (out, pos, r)
    \<and> out @ ring_contents r = looped samples 0 n"
proof -
  have "0 < length samples" using assms by simp
  from feed_ring_looped [OF this new_ring(1), of fs] show ?thesis by (metis append_Nil new_ring(2))
qed

theorem producer_stream_witness:
  "\<exists>n out pos r. feed_ring [1, 2, 3] [Produce, Consume 352, Produce, Consume 704] (0, new_ring) = Inr (out, pos, r)
    \<and> out @ ring_contents r = looped [1, 2, 3] 0 n"
  by (rule producer_stream) simp

section \<open>Files it mistreats\<close>

text \<open>
  C39. A WAV file whose data chunk is empty is accepted, with no samples, and the producer then
  reads the first of them, outside the array.
\<close>

theorem empty_wav_faults:
  assumes "rate \<noteq> 0" and "\<forall>c \<in> set pre \<union> set mid \<union> set post. other_chunk c"
  shows "loadWav (wav_file dup rate pre mid post []) = Inr (Inr ([], rate))
    \<and> produce [] (0, new_ring) = Inl Out_of_bounds"
proof -
  have "availableWrite new_ring = nextPow2 0x80000"
    by (simp add: new_ring_def ring_new_def availableWrite_def availableRead_def capacity_def Let_def)
  then have "kChunk \<le> unat (availableWrite new_ring)" by (simp add: kChunk_def nextPow2_def Let_def)
  moreover have "fill_chunk [] k 0 = Inl Out_of_bounds" if "0 < k" for k using that by (cases k) simp_all
  then have "fill_chunk [] kChunk 0 = Inl Out_of_bounds" by (simp add: kChunk_def)
  ultimately have "produce [] (0, new_ring) = Inl Out_of_bounds" by (simp add: produce_def)
  then show ?thesis using loadWav_stored [OF assms(1) _ assms(2), of "[]" dup] by simp
qed

theorem empty_wav_faults_witness:
  "loadWav (wav_file False 44100 [] [] [] []) = Inr (Inr ([], 44100)) \<and> produce [] (0, new_ring) = Inl Out_of_bounds"
  by (rule empty_wav_faults) simp_all

text \<open>
  A stereo file whose data stops after a left sample (a download cut short) is accepted with
  an odd number of samples, and played in a loop it changes sides every time round: a sample of
  the left channel is heard on the right.
\<close>

theorem odd_wav_swaps_channels:
  assumes "rate \<noteq> 0" and "2 * length samples < 2 ^ 32" and "odd (length samples)"
    and "\<forall>c \<in> set pre \<union> set mid \<union> set post. other_chunk c" and "k < length samples"
  shows "loadWav (wav_file False rate pre mid post samples) = Inr (Inr (samples, rate))
    \<and> looped samples 0 (2 * length samples) ! k = samples ! k
    \<and> looped samples 0 (2 * length samples) ! (length samples + k) = samples ! k
    \<and> even (length samples + k) \<noteq> even k"
  using loadWav_stored [OF assms(1,2,4), of False] assms(3,5) by (simp add: looped_def)

theorem odd_wav_swaps_channels_witness:
  "loadWav (wav_file False 44100 [] [] [] [7, 8, 9]) = Inr (Inr ([7, 8, 9], 44100))
    \<and> looped [7, 8, 9] 0 (2 * length [7, 8, 9 :: 16 word]) ! 0 = [7, 8, 9] ! 0
    \<and> looped [7, 8, 9] 0 (2 * length [7, 8, 9 :: 16 word]) ! (length [7, 8, 9 :: 16 word] + 0) = [7, 8, 9] ! 0
    \<and> even (length [7, 8, 9 :: 16 word] + 0) \<noteq> even (0 :: nat)"
  by (rule odd_wav_swaps_channels) simp_all

end
