(* ===== verification/Airplay_Main.thy ===== *)
theory Airplay_Main
  imports Airplay_Send Host_Contract
begin

text \<open>
  \<open>main\<close> of the example program: the callbacks it registers, the configuration of the sender, the
  loop over \<open>pump\<close> and the end of the program, with the sender and \<open>RaopLoop\<close> of the earlier
  theories inside. The producer thread runs between two rounds of the loop (\<open>Ring_Spsc\<close> has it
  interleaved with the reader); the callback that asks for a PIN runs when the pump that raised it
  returns.
\<close>

section \<open>Callbacks\<close>

record player =
  pl_done :: bool
  pl_exit :: int
  pl_saved :: "string option"
  pl_pos :: nat

definition new_player :: player where
  "new_player = \<lparr>pl_done = False, pl_exit = 0, pl_saved = None, pl_pos = 0\<rparr>"

definition on_event :: "action \<Rightarrow> player \<Rightarrow> player" where
  "on_event e a =
     (case e of
        Ev_launched success err \<Rightarrow> if success then a else a\<lparr>pl_exit := 1, pl_done := True\<rparr>
      | Ev_closed \<Rightarrow> a\<lparr>pl_exit := 1, pl_done := True\<rparr>
      | Ev_credentials device json \<Rightarrow> a\<lparr>pl_saved := Some json\<rparr>
      | _ \<Rightarrow> a)"

text \<open>The events a call raised, in order.\<close>

definition news :: "sender \<Rightarrow> sender \<Rightarrow> action list" where
  "news s s' = drop (length (s_out s)) (s_out s')"

definition hear :: "sender \<Rightarrow> sender \<Rightarrow> player \<Rightarrow> player" where
  "hear s s' a = fold on_event (news s s') a"

fun app_calls :: "crypto \<Rightarrow> kernel \<Rightarrow> call list \<Rightarrow> world \<times> player \<Rightarrow> (world \<times> player) result" where
  "app_calls C K [] wa = Inr wa"
| "app_calls C K (c # cs) (w, a) =
     (case call_sender C K c w of
        Inl e \<Rightarrow> Inl e
      | Inr w' \<Rightarrow> app_calls C K cs (w', hear (fst w) (fst w') a))"

definition asks_pin :: "action \<Rightarrow> bool" where
  "asks_pin e \<longleftrightarrow> (case e of Ev_pinRequired device \<Rightarrow> True | _ \<Rightarrow> False)"

definition answer_pin :: "crypto \<Rightarrow> kernel \<Rightarrow> string \<Rightarrow> sender \<Rightarrow> world \<times> player \<Rightarrow> (world \<times> player) result" where
  "answer_pin C K line s wa =
     (if list_ex asks_pin (news s (fst (fst wa)))
      then app_calls C K [Call_submitPin (filter is_digit line)] wa else Inr wa)"

section \<open>The producer thread\<close>

definition ring_of :: "sender \<Rightarrow> 16 word RingBuffer" where
  "ring_of s = (case rs_ring (s_rs s) of Some r \<Rightarrow> r | None \<Rightarrow> new_ring)"

fun produce_rounds :: "16 word list \<Rightarrow> nat \<Rightarrow> world \<times> player \<Rightarrow> (world \<times> player) result" where
  "produce_rounds samples 0 wa = Inr wa"
| "produce_rounds samples (Suc k) wa =
     (let ((s, h), a) = wa
      in case produce samples (pl_pos a, ring_of s) of
           Inl e \<Rightarrow> Inl e
         | Inr (p, r) \<Rightarrow> produce_rounds samples k ((attachRing (Some r) s, h), a\<lparr>pl_pos := p\<rparr>))"

section \<open>The program\<close>

text \<open>
  What the surroundings do in one round: rounds of the producer before it, whether a signal has
  come, and the line typed if a PIN is asked for. \<open>None\<close>: the loop is still running when the
  observations end.
\<close>

record round =
  rd_fill :: nat
  rd_interrupted :: bool
  rd_line :: string

fun main_loop :: "crypto \<Rightarrow> kernel \<Rightarrow> nat \<Rightarrow> 16 word list \<Rightarrow> round list \<Rightarrow> world \<times> player \<Rightarrow> (world \<times> player) option result" where
  "main_loop C K fuel samples [] wa = Inr None"
| "main_loop C K fuel samples (ob # obs) wa =
     (if pl_done (snd wa) \<or> rd_interrupted ob then Inr (Some wa)
      else case produce_rounds samples (rd_fill ob) wa of Inl e \<Rightarrow> Inl e | Inr (w, a) \<Rightarrow>
        (case pump C K fuel 50 w of Inl e \<Rightarrow> Inl e | Inr w' \<Rightarrow>
        (case answer_pin C K (rd_line ob) (fst w) (w', hear (fst w) (fst w') a) of Inl e \<Rightarrow> Inl e | Inr wa' \<Rightarrow>
           main_loop C K fuel samples obs wa')))"

definition setup_calls :: "config \<Rightarrow> 32 word \<Rightarrow> string \<Rightarrow> call list" where
  "setup_calls c rate stored =
     [Call_setInputFormat rate,
      Call_attachRing (Some new_ring),
      Call_setVolume (c_volume c),
      Call_setStrict (c_strict c),
      Call_setIdentity \<lparr>id_name = ''airplay-send'', id_deviceId = ''AA:BB:CC:DD:EE:FF'', id_model = ''iPhone14,3''\<rparr>,
      Call_setNowPlaying ''airplay-send'' ''airplay2-sender-cpp''
        (if c_wav c = [] then ''test tone'' else c_wav c) [] [],
      Call_setAuth (c_auth c) (c_airplay2 c) (c_host c) stored []]"

text \<open>The end: a session still running is stopped.\<close>

definition finish :: "crypto \<Rightarrow> kernel \<Rightarrow> world \<times> player \<Rightarrow> (int \<times> world) option result" where
  "finish C K wa =
     (case app_calls C K [Call_stop] wa of Inl e \<Rightarrow> Inl e | Inr wa \<Rightarrow> Inr (Some (pl_exit (snd wa), fst wa)))"

text \<open>
  From a parsed command line: \<open>stored\<close> is the content of the credentials file, \<open>ports\<close> what
  the three binds of \<open>start\<close> return. The result has the exit code.
\<close>

definition airplay_send ::
    "crypto \<Rightarrow> kernel \<Rightarrow> nat \<Rightarrow> config \<Rightarrow> 16 word list \<Rightarrow> 32 word \<Rightarrow> string \<Rightarrow> 16 word \<times> 16 word \<times> 16 word \<Rightarrow>
     round list \<Rightarrow> world \<Rightarrow> (int \<times> world) option result" where
  "airplay_send C K fuel c samples rate stored ports obs w0 =
     (case app_calls C K (setup_calls c rate stored
          @ [Call_start (c_host c) (c_port c) (c_name c) (fst ports) (fst (snd ports)) (snd (snd ports))]) (w0, new_player) of
        Inl e \<Rightarrow> Inl e
      | Inr wa \<Rightarrow>
       (case main_loop C K fuel samples obs wa of
          Inl e \<Rightarrow> Inl e
        | Inr r \<Rightarrow> (case r of None \<Rightarrow> Inr None | Some wa \<Rightarrow> finish C K wa)))"

text \<open>
  \<open>main\<close>: \<open>files\<close> is what \<open>readFile\<close> gives for a path, nothing for one that cannot be read, and
  \<open>tone\<close> the sine of \<open>makeTone\<close>.
\<close>

definition audio :: "config \<Rightarrow> (string \<Rightarrow> string) \<Rightarrow> (nat \<Rightarrow> 16 word) \<Rightarrow> (string + 16 word list \<times> 32 word) result" where
  "audio c files tone = (if c_wav c \<noteq> [] then loadWav (files (c_wav c)) else Inr (Inr (makeTone tone)))"

definition airplay_main ::
    "crypto \<Rightarrow> kernel \<Rightarrow> nat \<Rightarrow> (string \<Rightarrow> rat) \<Rightarrow> (nat \<Rightarrow> 16 word) \<Rightarrow> (string \<Rightarrow> string) \<Rightarrow> string list \<Rightarrow>
     16 word \<times> 16 word \<times> 16 word \<Rightarrow> round list \<Rightarrow> world \<Rightarrow> (int \<times> world) option result" where
  "airplay_main C K fuel atof tone files args ports obs w0 =
     (case command_line atof args of
        Inl e \<Rightarrow> Inl e
      | Inr (Exit n) \<Rightarrow> Inr (Some (n, w0))
      | Inr (Go c) \<Rightarrow>
         (case audio c files tone of
            Inl e \<Rightarrow> Inl e
          | Inr (Inl err) \<Rightarrow> Inr (Some (2, w0))
          | Inr (Inr (samples, rate)) \<Rightarrow>
              airplay_send C K fuel c samples rate (files (c_credsPath c)) ports obs w0))"

section \<open>Running it\<close>

definition bad_end :: "action \<Rightarrow> bool" where
  "bad_end e \<longleftrightarrow> (case e of Ev_launched success err \<Rightarrow> \<not> success | Ev_closed \<Rightarrow> True | _ \<Rightarrow> False)"

text \<open>The invariant: what the player knows is what the events so far say.\<close>

definition told :: "16 word list \<Rightarrow> crypto \<Rightarrow> world \<times> player \<Rightarrow> bool" where
  "told samples C wa \<longleftrightarrow>
     driven C (fst wa) \<and> pl_pos (snd wa) < length samples
     \<and> pl_done (snd wa) = list_ex bad_end (s_out (fst (fst wa)))
     \<and> pl_exit (snd wa) = (if pl_done (snd wa) then 1 else 0)"

lemma driven_ring: "driven C w \<Longrightarrow> ring_inv (ring_of (fst w))"
  using reachable_sane [of C "fst w"] new_ring(1)
  by (auto simp: driven_def sane_def resampler_ok_def ring_of_def split: option.splits)

lemma on_event_told:
  "pl_pos (on_event e a) = pl_pos a" "pl_done (on_event e a) = (pl_done a \<or> bad_end e)"
  "pl_exit a = (if pl_done a then 1 else 0) \<Longrightarrow> pl_exit (on_event e a) = (if pl_done (on_event e a) then 1 else 0)"
  by (auto simp: on_event_def bad_end_def split: action.splits)

lemma fold_on_event:
  "pl_pos (fold on_event es a) = pl_pos a" "pl_done (fold on_event es a) = (pl_done a \<or> list_ex bad_end es)"
  "pl_exit a = (if pl_done a then 1 else 0) \<Longrightarrow>
     pl_exit (fold on_event es a) = (if pl_done (fold on_event es a) then 1 else 0)"
proof (induction es arbitrary: a)
  case (Cons e es)
  { case 1 then show ?case using Cons.IH(1) by (simp add: on_event_told) }
  { case 2 then show ?case using Cons.IH(2) by (auto simp: on_event_told) }
  { case 3 then show ?case using Cons.IH(3) on_event_told(3) by simp }
qed simp_all

lemma hear_told:
  assumes "told samples C (w, a)" and "driven C w' \<and> prefix (s_out (fst w)) (s_out (fst w'))"
  shows "told samples C (w', hear (fst w) (fst w') a)"
proof -
  have "s_out (fst w') = s_out (fst w) @ news (fst w) (fst w')"
    using assms(2) by (auto simp: news_def prefix_def)
  then have "list_ex bad_end (s_out (fst w')) = (list_ex bad_end (s_out (fst w)) \<or> list_ex bad_end (news (fst w) (fst w')))"
    by (metis list_ex_append)
  then show ?thesis using assms by (auto simp: told_def hear_def fold_on_event)
qed

text \<open>Calls of the application that are allowed in any state.\<close>

definition plain :: "call \<Rightarrow> bool" where
  "plain c \<longleftrightarrow> app_call c \<and> (\<forall>s. call_ok c s)"

definition app_ok :: "(fault \<Rightarrow> bool) \<Rightarrow> ('a \<Rightarrow> bool) \<Rightarrow> 'a result \<Rightarrow> bool" where
  "app_ok E P r = (case r of Inl e \<Rightarrow> E e | Inr wa \<Rightarrow> P wa)"

lemma app_ok_simps [simp]: "app_ok E P (Inr wa) = P wa" "app_ok E P (Inl e) = E e"
  by (simp_all add: app_ok_def)

lemma plain_call:
  assumes "driven C w" and "plain c"
  shows "holds (loop_fault K fuel) (\<lambda>w'. driven C w' \<and> prefix (s_out (fst w)) (s_out (fst w'))) (call_sender C K c w)"
proof (rule driven_call [OF assms(1)])
  show "call_ok c ((fst w)\<lparr>s_now := now, s_wall := wall\<rparr>)" for now wall using assms(2) by (simp add: plain_def)
  show "clock_after c (h_now (snd w)) = h_now (snd w)"
    using assms(2) by (cases c; simp add: plain_def app_call_def clock_after_def)
qed

lemma app_calls_told: "told samples C wa \<Longrightarrow> list_all plain cs \<Longrightarrow> app_ok (loop_fault K fuel) (told samples C) (app_calls C K cs wa)"
proof (induction cs arbitrary: wa)
  case (Cons c cs)
  obtain w a where wa: "wa = (w, a)" by fastforce
  have "driven C w" using Cons.prems(1) by (simp add: told_def wa)
  then have "holds (loop_fault K fuel) (\<lambda>w'. driven C w' \<and> prefix (s_out (fst w)) (s_out (fst w'))) (call_sender C K c w)"
    using Cons.prems(2) by (intro plain_call) simp_all
  with Cons show ?case
    by (cases "call_sender C K c w") (auto simp: wa intro!: Cons.IH hear_told)
qed simp

lemma produce_rounds_told: "told samples C wa \<Longrightarrow> \<exists>wa'. produce_rounds samples k wa = Inr wa' \<and> told samples C wa'"
proof (induction k arbitrary: wa)
  case (Suc k)
  obtain s h a where wa: "wa = ((s, h), a)" by (metis surj_pair)
  have d: "driven C (s, h)" "pl_pos a < length samples" using Suc.prems by (simp_all add: told_def wa)
  then have "ring_inv (ring_of s)" using driven_ring [of C "(s, h)"] by simp
  from produce_looped [OF d(2) this] obtain p r where
    p: "produce samples (pl_pos a, ring_of s) = Inr (p, r)" "ring_inv r" "p < length samples"
    using d(2) by (metis length_greater_0_conv less_nat_zero_code list.size(3) mod_less_divisor)
  have "apply_call C (Call_attachRing (Some r)) s = Inr (attachRing (Some r) s)" "call_ok (Call_attachRing (Some r)) s"
    using p(2) by (simp_all add: apply_call_def call_ok_def)
  then have "driven C (attachRing (Some r) s, h)"
    using d(1) sender_reachable.step by (auto simp: driven_def attachRing_def)
  then have "told samples C ((attachRing (Some r) s, h), a\<lparr>pl_pos := p\<rparr>)"
    using Suc.prems p(3) by (simp add: told_def wa) (simp add: attachRing_def)
  from Suc.IH [OF this] show ?case using p(1) by (simp add: wa)
qed simp

lemma pump_told:
  assumes "told samples C (w, a)"
  shows "holds (loop_fault K fuel) (\<lambda>w'. told samples C (w', hear (fst w) (fst w') a)) (pump C K fuel 50 w)"
proof -
  have "driven C w" using assms by (simp add: told_def)
  then have "holds (loop_fault K fuel) (\<lambda>w'. driven C w' \<and> prefix (s_out (fst w)) (s_out (fst w'))) (pump C K fuel 50 w)"
    by (intro drv.pump_holds) simp
  then show ?thesis using hear_told [OF assms] by (cases "pump C K fuel 50 w") auto
qed

lemma plain_simps [simp]: "plain (Call_submitPin pin)" "plain Call_stop" "plain (Call_start h p n tp cp ap)"
  by (simp_all add: plain_def app_call_def call_ok_def)

lemma answer_pin_told: "told samples C wa \<Longrightarrow> app_ok (loop_fault K fuel) (told samples C) (answer_pin C K line s wa)"
  unfolding answer_pin_def using app_calls_told [of samples C wa "[Call_submitPin (filter is_digit line)]" K fuel] by simp

text \<open>When the loop ends, a signal has come or the session has ended by itself.\<close>

lemma main_loop_told:
  "told samples C wa \<Longrightarrow>
   app_ok (loop_fault K fuel) (\<lambda>r. \<forall>wa'. r = Some wa' \<longrightarrow> told samples C wa' \<and> (pl_done (snd wa') \<or> list_ex rd_interrupted obs))
     (main_loop C K fuel samples obs wa)"
proof (induction obs arbitrary: wa)
  case (Cons ob obs)
  show ?case
  proof (cases "pl_done (snd wa) \<or> rd_interrupted ob")
    case True
    with Cons.prems show ?thesis by auto
  next
    case False
    obtain w a where p: "produce_rounds samples (rd_fill ob) wa = Inr (w, a)" "told samples C (w, a)"
      using produce_rounds_told [OF Cons.prems] by (metis surj_pair)
    show ?thesis
    proof (cases "pump C K fuel 50 w")
      case (Inl e)
      then show ?thesis using pump_told [OF p(2), of K fuel] p False by simp
    next
      case (Inr w')
      then have "told samples C (w', hear (fst w) (fst w') a)" using pump_told [OF p(2), of K fuel] by simp
      then have t: "app_ok (loop_fault K fuel) (told samples C) (answer_pin C K (rd_line ob) (fst w) (w', hear (fst w) (fst w') a))"
        by (rule answer_pin_told)
      show ?thesis
      proof (cases "answer_pin C K (rd_line ob) (fst w) (w', hear (fst w) (fst w') a)")
        case (Inl e)
        with t p False \<open>pump C K fuel 50 w = Inr w'\<close> show ?thesis by simp
      next
        case (Inr wa')
        with t have "told samples C wa'" by simp
        from Cons.IH [OF this] show ?thesis
          using p False Inr \<open>pump C K fuel 50 w = Inr w'\<close>
          by (cases "main_loop C K fuel samples obs wa'") auto
      qed
    qed
  qed
qed simp

lemma setup_calls_plain: "c_auth c \<noteq> Auth_AuthSetup \<Longrightarrow> list_all plain (setup_calls c rate stored)"
  by (simp add: setup_calls_def plain_def app_call_def call_ok_def new_ring(1))

lemma new_told: "samples \<noteq> [] \<Longrightarrow> crypto_ok C \<Longrightarrow> told samples C ((new_sender now wall, new_host now), new_player)"
  by (simp add: told_def driven_def sender_reachable.new new_player_def) (simp add: new_sender_def new_host_def)

lemma call_stop_idle: "call_sender C K Call_stop w = Inr w' \<Longrightarrow> s_state (fst w') = Idle"
  by (auto simp: call_sender_def Let_def apply_call_def case_prod_beta dest: stop_idle split: sum.splits)

lemma app_ok_case:
  "app_ok E P r \<Longrightarrow> (\<And>x. P x \<Longrightarrow> app_ok E Q (f x)) \<Longrightarrow> app_ok E Q (case r of Inl e \<Rightarrow> Inl e | Inr x \<Rightarrow> f x)"
  by (cases r) auto

definition exits_well :: "round list \<Rightarrow> (int \<times> world) option \<Rightarrow> bool" where
  "exits_well obs r \<longleftrightarrow> (case r of None \<Rightarrow> True | Some (code, w) \<Rightarrow> s_state (fst w) = Idle
     \<and> code = (if list_ex bad_end (s_out (fst w)) then 1 else 0) \<and> (code = 0 \<longrightarrow> list_ex rd_interrupted obs))"

lemma finish_well:
  assumes "told samples C wa" and "pl_done (snd wa) \<or> list_ex rd_interrupted obs"
  shows "app_ok (loop_fault K fuel) (exits_well obs) (finish C K wa)"
proof -
  obtain w a where wa: "wa = (w, a)" by fastforce
  have s: "app_ok (loop_fault K fuel) (told samples C) (app_calls C K [Call_stop] (w, a))"
    using assms(1) by (intro app_calls_told) (simp_all add: wa)
  show ?thesis
  proof (cases "call_sender C K Call_stop w")
    case (Inl e)
    with s show ?thesis by (simp add: finish_def wa)
  next
    case (Inr w')
    define a' where "a' = hear (fst w) (fst w') a"
    have t: "told samples C (w', a')" using s Inr by (simp add: a'_def)
    have "pl_done a \<Longrightarrow> pl_done a'" by (simp add: a'_def hear_def fold_on_event)
    then have "exits_well obs (Some (pl_exit a', w'))"
      using assms(2) t call_stop_idle [OF Inr] by (auto simp: exits_well_def told_def wa)
    then show ?thesis using Inr by (simp add: finish_def wa a'_def)
  qed
qed

lemma airplay_send_well:
  assumes "crypto_ok C" and "samples \<noteq> []" and "c_auth c \<noteq> Auth_AuthSetup"
  shows "app_ok (loop_fault K fuel) (exits_well obs)
    (airplay_send C K fuel c samples rate stored ports obs (new_sender now wall, new_host now))"
  unfolding airplay_send_def
proof (rule app_ok_case [where P = "told samples C"])
  show "app_ok (loop_fault K fuel) (told samples C) (app_calls C K (setup_calls c rate stored
      @ [Call_start (c_host c) (c_port c) (c_name c) (fst ports) (fst (snd ports)) (snd (snd ports))])
      ((new_sender now wall, new_host now), new_player))"
    using setup_calls_plain [OF assms(3)] by (intro app_calls_told new_told assms) simp
next
  fix wa assume "told samples C wa"
  then show "app_ok (loop_fault K fuel) (exits_well obs) (case main_loop C K fuel samples obs wa of
      Inl e \<Rightarrow> Inl e | Inr r \<Rightarrow> (case r of None \<Rightarrow> Inr None | Some wa \<Rightarrow> finish C K wa))"
    by (intro app_ok_case [OF main_loop_told]) (auto simp: exits_well_def intro!: finish_well split: option.split)
qed

lemma makeTone_samples: "fst (makeTone tone) \<noteq> []"
proof -
  have "concat (map (\<lambda>i. [tone i, tone i]) [0..<k]) \<noteq> []" if "0 < k" for k using that by (cases k) simp_all
  then show ?thesis by (simp add: makeTone_def)
qed

lemma audio_ok:
  assumes "\<And>path rate. loadWav (files path) \<noteq> Inr (Inr ([], rate))"
  shows "\<exists>x. audio c files tone = Inr x \<and> (\<forall>rate. x \<noteq> Inr ([], rate))"
proof (cases "c_wav c = []")
  case True
  then show ?thesis using makeTone_samples [of tone] by (cases "makeTone tone") (simp add: audio_def)
next
  case False
  then show ?thesis
    using loadWav_total [of "files (c_wav c)"] assms [of "c_wav c"] by (auto simp: audio_def)
qed



end
